(* ===== verification/Prelude.thy ===== *)
theory Prelude imports Main "HOL-Library.Word" "HOL-Library.Multiset"
begin

text \<open>
  What every component shares: C++ exceptions as values, the operations of
  \<^verbatim>\<open>std::string\<close> the sources call (with the exceptions and the undefined accesses
  written out), list-level specifications of splitting and joining, and the record
  that stands for the string helpers of the external \<^verbatim>\<open>ttl\<close> library.
\<close>

named_theorems cpp_simps \<open>evaluation of the C++ string operations\<close>
named_theorems act_simps \<open>sequencing and catching of effects\<close>

section \<open>Exceptions\<close>

text \<open>
  \<open>Http_exception\<close> is \<^verbatim>\<open>http::http_exception\<close> (code and message) and its subclasses,
  \<open>Std_exception\<close> any other publicly derived \<^verbatim>\<open>std::exception\<close> with its \<^verbatim>\<open>what()\<close>.
  \<open>Invalid_uri_exception\<close> derives privately from \<^verbatim>\<open>std::runtime_error\<close>, so a handler
  for \<^verbatim>\<open>std::exception&\<close> does not catch it. \<open>Foreign_exception\<close> is anything else a
  callback may throw. \<open>Undefined_behaviour\<close> is no C++ exception: it is the result of a
  model operation where the C++ standard gives the code no meaning.
\<close>

datatype exc =
    Http_exception int string
  | Invalid_uri_exception
  | Std_exception string
  | Foreign_exception
  | Undefined_behaviour

text \<open>A sum with the exception on the left; \<open>ebind\<close> is sequencing.\<close>

type_synonym 'a result = "exc + 'a"

definition ebind :: "'a result \<Rightarrow> ('a \<Rightarrow> 'b result) \<Rightarrow> 'b result" where
  "ebind m f = (case m of Inl e \<Rightarrow> Inl e | Inr x \<Rightarrow> f x)"

lemma ebind_simps [simp, cpp_simps]:
  "ebind (Inl e) f = Inl e"
  "ebind (Inr x) f = f x"
  by (simp_all add: ebind_def)

lemma ebind_eq_Inr: "ebind m f = Inr y \<longleftrightarrow> (\<exists>x. m = Inr x \<and> f x = Inr y)"
  by (cases m) auto

lemma ebind_eq_Inl: "ebind m f = Inl e \<longleftrightarrow> m = Inl e \<or> (\<exists>x. m = Inr x \<and> f x = Inl e)"
  by (cases m) auto

lemma ebind_Inr [simp]: "ebind m Inr = m"
  by (cases m) auto

lemma ebind_assoc: "ebind (ebind m f) g = ebind m (\<lambda>x. ebind (f x) g)"
  by (cases m) auto

lemma ebind_cong [fundef_cong]:
  assumes "m = m'" "\<And>x. m' = Inr x \<Longrightarrow> f x = f' x"
  shows "ebind m f = ebind m' f'"
  using assms by (cases m') auto

text \<open>Applying a fallible function to a list, from the left, stopping at the first error.\<close>

fun emap :: "('a \<Rightarrow> 'b result) \<Rightarrow> 'a list \<Rightarrow> 'b list result" where
  "emap f [] = Inr []"
| "emap f (x # xs) = ebind (f x) (\<lambda>y. ebind (emap f xs) (\<lambda>ys. Inr (y # ys)))"

lemma emap_Inr: "(\<And>x. x \<in> set xs \<Longrightarrow> f x = Inr (g x)) \<Longrightarrow> emap f xs = Inr (map g xs)"
  by (induction xs) auto

section \<open>Effects\<close>

text \<open>
  Code with side effects maps a state to a state and says how it ended: it went on, it threw,
  it waits for a mutex that its own thread holds or that is released only by a later event
  (\<open>Hang\<close>), it ended the process (\<open>Terminate\<close>: an exception left a \<^verbatim>\<open>noexcept\<close> function), or it did something the C++ standard gives no meaning to (\<open>Undefined\<close>: a freed
  object is used, a mutex that is not locked is unlocked). Only exceptions can be caught, and
  what was done before an exception stays done.
\<close>

datatype flow = Go | Throw exc | Hang | Terminate | Undefined

type_synonym 'w act = "'w \<Rightarrow> 'w \<times> flow"

definition skip :: "'w act" where
  "skip w = (w, Go)"

definition modify :: "('w \<Rightarrow> 'w) \<Rightarrow> 'w act" where
  "modify f w = (f w, Go)"

definition throw :: "exc \<Rightarrow> 'w act" where
  "throw e w = (w, case e of Undefined_behaviour \<Rightarrow> Undefined | _ \<Rightarrow> Throw e)"

definition undefined_act :: "'w act" where
  "undefined_act w = (w, Undefined)"

definition block :: "'w act" where
  "block w = (w, Hang)"

definition seq :: "'w act \<Rightarrow> 'w act \<Rightarrow> 'w act" where
  "seq a b w = (case a w of (w', Go) \<Rightarrow> b w' | (w', f) \<Rightarrow> (w', f))"

definition try_catch :: "'w act \<Rightarrow> (exc \<Rightarrow> 'w act) \<Rightarrow> 'w act" where
  "try_catch a h w = (case a w of (w', Throw e) \<Rightarrow> h e w' | (w', f) \<Rightarrow> (w', f))"

lemma act_eqs [act_simps]:
  "skip w = (w, Go)" "modify f w = (f w, Go)"
  "throw e w = (w, case e of Undefined_behaviour \<Rightarrow> Undefined | _ \<Rightarrow> Throw e)"
  "undefined_act w = (w, Undefined)" "block w = (w, Hang)"
  "seq a b w = (case a w of (w', Go) \<Rightarrow> b w' | (w', f) \<Rightarrow> (w', f))"
  "try_catch a h w = (case a w of (w', Throw e) \<Rightarrow> h e w' | (w', f) \<Rightarrow> (w', f))"
  by (simp_all add: skip_def modify_def throw_def seq_def try_catch_def undefined_act_def block_def)

text \<open>Reading the state, and a computation that yields a value or throws.\<close>

definition read_state :: "('w \<Rightarrow> 'w act) \<Rightarrow> 'w act" where
  "read_state f w = f w w"

definition attempt :: "'a result \<Rightarrow> ('a \<Rightarrow> 'w act) \<Rightarrow> 'w act" where
  "attempt r f = (case r of Inl e \<Rightarrow> throw e | Inr x \<Rightarrow> f x)"

lemma read_state_simp [act_simps]: "read_state f w = f w w"
  by (simp add: read_state_def)

lemma attempt_simps [simp]: "attempt (Inl e) f = throw e" "attempt (Inr x) f = f x"
  by (simp_all add: attempt_def)

text \<open>A loop over a container whose body may have effects.\<close>

fun for_each :: "'a list \<Rightarrow> ('a \<Rightarrow> 'w act) \<Rightarrow> 'w act" where
  "for_each [] f = skip"
| "for_each (x # xs) f = seq (f x) (for_each xs f)"

text \<open>An exception that leaves a \<^verbatim>\<open>noexcept\<close> function.\<close>

definition terminate :: "'w act" where
  "terminate w = (w, Terminate)"

lemma seq_skip [simp]: "seq skip a = a" "seq a skip = a"
  by (auto simp: fun_eq_iff act_simps split: prod.split flow.split)

lemma seq_assoc: "seq (seq a b) c = seq a (seq b c)"
  by (auto simp: fun_eq_iff act_simps split: prod.split flow.split)

lemma for_each_append: "for_each (xs @ ys) f = seq (for_each xs f) (for_each ys f)"
  by (induction xs) (simp_all add: seq_assoc)

text \<open>How an action may end whose behaviour the standard defines.\<close>

definition meaningful :: "flow \<Rightarrow> bool" where
  "meaningful f \<longleftrightarrow> f \<noteq> Undefined \<and> f \<noteq> Throw Undefined_behaviour"

text \<open>The thread goes on: it neither waits for ever nor ended the process.\<close>

definition running :: "flow \<Rightarrow> bool" where
  "running f \<longleftrightarrow> f \<noteq> Hang \<and> f \<noteq> Terminate"

lemma running_simps [simp]:
  "running Go" "running (Throw e)" "running Undefined" "\<not> running Hang" "\<not> running Terminate"
  by (simp_all add: running_def)

text \<open>An invariant every outcome of an action keeps, and one that holds of the final state.\<close>

definition keeps :: "('w \<Rightarrow> bool) \<Rightarrow> 'w act \<Rightarrow> bool" where
  "keeps P a \<longleftrightarrow> (\<forall>w. P w \<longrightarrow> P (fst (a w)))"

lemma keeps_basic [intro]:
  "keeps P skip" "keeps P (throw e)" "keeps P undefined_act" "keeps P block"
  by (simp_all add: keeps_def act_simps)

lemma keeps_modify: "(\<And>w. P w \<Longrightarrow> P (f w)) \<Longrightarrow> keeps P (modify f)"
  by (simp add: keeps_def act_simps)

lemma keeps_read_state: "(\<And>w. P w \<Longrightarrow> keeps P (f w)) \<Longrightarrow> keeps P (read_state f)"
  by (simp add: keeps_def act_simps)

lemma keeps_attempt: "(\<And>x. keeps P (f x)) \<Longrightarrow> keeps P (attempt r f)"
  by (cases r) auto

lemma keeps_seq [intro]: "keeps P a \<Longrightarrow> keeps P b \<Longrightarrow> keeps P (seq a b)"
  unfolding keeps_def act_simps by (auto split: prod.splits flow.splits)

lemma keeps_try_catch [intro]: "keeps P a \<Longrightarrow> (\<And>e. keeps P (h e)) \<Longrightarrow> keeps P (try_catch a h)"
  unfolding keeps_def act_simps by (auto split: prod.splits flow.splits)

section \<open>\<^verbatim>\<open>std::string\<close>\<close>

text \<open>
  A \<^verbatim>\<open>std::string\<close> is a list of bytes. \<^verbatim>\<open>char\<close> is signed on the platforms the library is
  built for; \<open>schar\<close> is the value an arithmetic expression sees after promotion to \<^verbatim>\<open>int\<close>.
\<close>

definition schar :: "char \<Rightarrow> int" where
  "schar c = (let n = of_char c in if n < 128 then n else n - 256)"

text \<open>\<^verbatim>\<open>str[i]\<close>: reading at \<^verbatim>\<open>size()\<close> yields the terminating NUL, beyond it is undefined.\<close>

definition char_at :: "string \<Rightarrow> nat \<Rightarrow> char result" where
  "char_at s i =
     (if i < length s then Inr (s ! i)
      else if i = length s then Inr (CHR 0x00)
      else Inl Undefined_behaviour)"

fun index_of :: "char \<Rightarrow> string \<Rightarrow> nat option" where
  "index_of c [] = None"
| "index_of c (x # xs) = (if x = c then Some 0 else map_option Suc (index_of c xs))"

text \<open>\<^verbatim>\<open>s.find(c, pos)\<close> and \<^verbatim>\<open>s.find_last_of(c)\<close>; \<open>None\<close> is \<^verbatim>\<open>npos\<close>.\<close>

definition find_char :: "string \<Rightarrow> char \<Rightarrow> nat \<Rightarrow> nat option" where
  "find_char s c pos = map_option (\<lambda>i. pos + i) (index_of c (drop pos s))"

definition find_last_char :: "string \<Rightarrow> char \<Rightarrow> nat option" where
  "find_last_char s c = map_option (\<lambda>i. length s - Suc i) (index_of c (rev s))"

text \<open>\<^verbatim>\<open>s.substr(pos, n)\<close>; \<open>None\<close> for \<^verbatim>\<open>n = npos\<close>.\<close>

definition substr :: "string \<Rightarrow> nat \<Rightarrow> nat option \<Rightarrow> string result" where
  "substr s pos n =
     (if pos \<le> length s
      then Inr (case n of None \<Rightarrow> drop pos s | Some k \<Rightarrow> take k (drop pos s))
      else Inl (Std_exception ''basic_string::substr''))"

lemma index_of_None: "index_of c s = None \<longleftrightarrow> c \<notin> set s"
  by (induction s) auto

lemma index_of_Some:
  "index_of c s = Some i \<longleftrightarrow> i < length s \<and> s ! i = c \<and> c \<notin> set (take i s)"
proof (induction s arbitrary: i)
  case (Cons x xs)
  then show ?case by (cases i) auto
qed simp

lemma index_of_append: "c \<notin> set a \<Longrightarrow> index_of c (a @ c # b) = Some (length a)"
  by (induction a) auto

lemma find_char_0: "find_char s c 0 = index_of c s"
  by (cases "index_of c s") (auto simp: find_char_def)

lemma find_char_bounds:
  "find_char s c pos = Some p \<Longrightarrow> pos \<le> p \<and> p < length s"
  by (auto simp: find_char_def index_of_Some)

lemma find_char_None: "find_char s c pos = None \<longleftrightarrow> c \<notin> set (drop pos s)"
  by (simp add: find_char_def index_of_None)

lemma find_char_Some_split:
  assumes "find_char s c pos = Some p"
  shows "drop pos s = take (p - pos) (drop pos s) @ c # drop (Suc p) s"
    and "c \<notin> set (take (p - pos) (drop pos s))"
proof -
  from assms obtain i where i: "index_of c (drop pos s) = Some i" "p = pos + i"
    by (auto simp: find_char_def)
  then have b: "i < length (drop pos s)" "drop pos s ! i = c" "c \<notin> set (take i (drop pos s))"
    by (auto simp: index_of_Some)
  then show "c \<notin> set (take (p - pos) (drop pos s))" using i by simp
  have "drop pos s = take i (drop pos s) @ drop pos s ! i # drop (Suc i) (drop pos s)"
    using b(1) by (rule id_take_nth_drop)
  then show "drop pos s = take (p - pos) (drop pos s) @ c # drop (Suc p) s"
    using b(2) i by (simp add: add.commute)
qed

lemma find_last_char_None: "find_last_char s c = None \<longleftrightarrow> c \<notin> set s"
  by (simp add: find_last_char_def index_of_None)

lemma find_last_char_Some:
  assumes "find_last_char s c = Some p"
  shows "s = take p s @ c # drop (Suc p) s" and "c \<notin> set (drop (Suc p) s)" and "p < length s"
proof -
  from assms obtain i where i: "index_of c (rev s) = Some i" "p = length s - Suc i"
    by (auto simp: find_last_char_def)
  then have b: "i < length s" "rev s ! i = c" "c \<notin> set (take i (rev s))"
    by (auto simp: index_of_Some)
  then have "s ! p = c" and p: "p < length s" using i by (auto simp: rev_nth)
  then show "s = take p s @ c # drop (Suc p) s" by (metis id_take_nth_drop)
  have "Suc p = length s - i" using i b by simp
  then show "c \<notin> set (drop (Suc p) s)" using b by (simp add: take_rev)
  show "p < length s" by (rule p)
qed

lemma substr_Inr [simp]: "pos \<le> length s \<Longrightarrow>
    substr s pos n = Inr (case n of None \<Rightarrow> drop pos s | Some k \<Rightarrow> take k (drop pos s))"
  by (simp add: substr_def)

lemma find_char_cases:
  obtains "find_char s c 0 = None" "c \<notin> set s"
  | p k v where "find_char s c 0 = Some p" "s = k @ c # v" "p = length k" "c \<notin> set k"
proof (cases "find_char s c 0")
  case None
  then show ?thesis using that(1) find_char_None [of s c 0] by simp
next
  case (Some p)
  note s = find_char_Some_split [OF Some, simplified] and b = find_char_bounds [OF Some]
  show ?thesis by (rule that(2) [OF Some s(1) _ s(2)]) (use b in simp)
qed

section \<open>Splitting and joining\<close>

fun split_on :: "char \<Rightarrow> string \<Rightarrow> string list" where
  "split_on c [] = [[]]"
| "split_on c (x # xs) =
     (if x = c then [] # split_on c xs
      else (case split_on c xs of [] \<Rightarrow> [[x]] | w # ws \<Rightarrow> (x # w) # ws))"

fun join_with :: "string \<Rightarrow> string list \<Rightarrow> string" where
  "join_with d [] = []"
| "join_with d [w] = w"
| "join_with d (w # v # ws) = w @ d @ join_with d (v # ws)"

lemma split_on_not_Nil [simp]: "split_on c s \<noteq> []"
  by (induction s) (auto split: list.splits)

lemma split_on_no_sep: "c \<notin> set s \<Longrightarrow> split_on c s = [s]"
  by (induction s) auto

lemma split_on_append: "c \<notin> set a \<Longrightarrow> split_on c (a @ c # b) = a # split_on c b"
  by (induction a) auto

lemma split_on_append_sep: "split_on c (a @ c # b) = split_on c a @ split_on c b"
proof (induction a)
  case (Cons x a)
  then show ?case by (cases "split_on c a") auto
qed simp

lemma last_split_on: "c \<notin> set b \<Longrightarrow> last (split_on c (a @ c # b)) = b"
  by (simp add: split_on_append_sep split_on_no_sep)

lemma split_on_last:
  "c \<notin> set (last (split_on c s))"
  "c \<in> set s \<Longrightarrow> \<exists>a. s = a @ c # last (split_on c s)"
proof -
  show "c \<notin> set (last (split_on c s))"
  proof (cases "c \<in> set s")
    case True
    then obtain a b where "s = a @ c # b" "c \<notin> set b" by (meson split_list_last)
    then show ?thesis by (simp add: last_split_on)
  qed (simp add: split_on_no_sep)
  show "c \<in> set s \<Longrightarrow> \<exists>a. s = a @ c # last (split_on c s)"
    using split_list_last [of c s] by (auto simp: last_split_on)
qed

text \<open>Cutting at the first separator.\<close>

lemma cut_append [simp]:
  assumes "c \<notin> set k"
  shows "takeWhile (\<lambda>x. x \<noteq> c) (k @ c # v) = k" and "dropWhile (\<lambda>x. x \<noteq> c) (k @ c # v) = c # v"
  using assms by (induction k) auto

lemma cut_none [simp]:
  assumes "c \<notin> set k"
  shows "takeWhile (\<lambda>x. x \<noteq> c) k = k" and "dropWhile (\<lambda>x. x \<noteq> c) k = []"
  using assms by (induction k) auto

lemma split_on_unfold:
  "split_on c s =
     takeWhile (\<lambda>x. x \<noteq> c) s #
     (case dropWhile (\<lambda>x. x \<noteq> c) s of [] \<Rightarrow> [] | _ # t \<Rightarrow> split_on c t)"
  by (induction s) (auto split: list.splits)

lemma split_on_parts: "w \<in> set (split_on c s) \<Longrightarrow> c \<notin> set w"
proof (induction s arbitrary: w)
  case (Cons x xs)
  then show ?case by (cases "split_on c xs") (auto split: if_splits)
qed simp

lemma join_Cons: "ws \<noteq> [] \<Longrightarrow> join_with d (w # ws) = w @ d @ join_with d ws"
  by (cases ws) auto

lemma join_split: "join_with [c] (split_on c s) = s"
proof (induction s)
  case (Cons x xs)
  obtain w ws where ws: "split_on c xs = w # ws" by (cases "split_on c xs") auto
  then show ?case using Cons by (cases ws) (auto simp: join_Cons)
qed simp

lemma split_join:
  assumes "\<forall>w \<in> set ws. c \<notin> set w" and "ws \<noteq> []"
  shows "split_on c (join_with [c] ws) = ws"
  using assms
proof (induction ws)
  case (Cons w ws)
  then show ?case by (cases "ws = []") (auto simp: join_Cons split_on_no_sep split_on_append)
qed simp

text \<open>One step of a loop that looks for the next separator from an offset.\<close>

lemma split_on_find_None:
  "find_char s c off = None \<Longrightarrow> split_on c (drop off s) = [drop off s]"
  by (simp add: find_char_None split_on_no_sep)

lemma split_on_find_Some:
  assumes "find_char s c off = Some p"
  shows "split_on c (drop off s) = take (p - off) (drop off s) # split_on c (drop (Suc p) s)"
  using find_char_Some_split [OF assms] by (metis split_on_append)

section \<open>String helpers of the ttl library\<close>

text \<open>
  \<^verbatim>\<open>ttl/string_util.h\<close> is not part of the repository. The functions the sources call are
  the fields of a record that the definitions take as an argument; what a proof relies on
  is one of the predicates below.
\<close>

record ttl =
  ttl_split :: "string \<Rightarrow> string \<Rightarrow> string list"
  ttl_replace :: "string \<Rightarrow> string \<Rightarrow> string \<Rightarrow> string"
  ttl_join :: "string list \<Rightarrow> string \<Rightarrow> string"
  ttl_trim :: "string \<Rightarrow> string"
  ttl_ltrim :: "string \<Rightarrow> string"
  ttl_to_lower :: "string \<Rightarrow> string"

definition replace_char :: "string \<Rightarrow> char \<Rightarrow> string \<Rightarrow> string" where
  "replace_char s c t = concat (map (\<lambda>x. if x = c then t else [x]) s)"

text \<open>\<^verbatim>\<open>replace\<close> substitutes every occurrence of a one-character needle.\<close>

definition ttl_replace_ok :: "ttl \<Rightarrow> bool" where
  "ttl_replace_ok T \<longleftrightarrow> (\<forall>s c t. ttl_replace T s [c] t = replace_char s c t)"

text \<open>\<^verbatim>\<open>join\<close> puts the separator between consecutive elements.\<close>

definition ttl_join_ok :: "ttl \<Rightarrow> bool" where
  "ttl_join_ok T \<longleftrightarrow> (\<forall>ws d. ttl_join T ws d = join_with d ws)"

text \<open>ASCII lower-casing, the instance the witnesses use.\<close>

definition lower_char :: "char \<Rightarrow> char" where
  "lower_char c = (let n = (of_char c :: nat) in if 65 \<le> n \<and> n \<le> 90 then char_of (n + 32) else c)"

definition is_blank :: "char \<Rightarrow> bool" where
  "is_blank c \<longleftrightarrow> c = CHR '' '' \<or> c = CHR 0x09 \<or> c = CHR 0x0A \<or> c = CHR 0x0D"

text \<open>One concrete instance, to evaluate the model on.\<close>

definition ttl_ref :: ttl where
  "ttl_ref =
     \<lparr>ttl_split = (\<lambda>s d. case d of [] \<Rightarrow> [s] | c # _ \<Rightarrow> filter (\<lambda>w. w \<noteq> []) (split_on c s)),
      ttl_replace = (\<lambda>s f t. case f of [] \<Rightarrow> s | c # _ \<Rightarrow> replace_char s c t),
      ttl_join = (\<lambda>ws d. join_with d ws),
      ttl_trim = (\<lambda>s. rev (dropWhile is_blank (rev (dropWhile is_blank s)))),
      ttl_ltrim = dropWhile is_blank,
      ttl_to_lower = map lower_char\<rparr>"

lemma ttl_ref_ok [simp]: "ttl_replace_ok ttl_ref" "ttl_join_ok ttl_ref"
  by (simp_all add: ttl_replace_ok_def ttl_join_ok_def ttl_ref_def)

section \<open>Numbers as text\<close>

fun dec_nat :: "nat \<Rightarrow> string" where
  "dec_nat n = (if n < 10 then [char_of (48 + n)] else dec_nat (n div 10) @ [char_of (48 + n mod 10)])"

declare dec_nat.simps [simp del]

definition dec_int :: "int \<Rightarrow> string" where
  "dec_int i = (if i < 0 then CHR ''-'' # dec_nat (nat (- i)) else dec_nat (nat i))"

text \<open>Digits read as a number, the way \<^verbatim>\<open>strtol\<close> and its kin do.\<close>

definition is_digit :: "char \<Rightarrow> bool" where
  "is_digit c \<longleftrightarrow> (48 :: nat) \<le> of_char c \<and> of_char c \<le> (57 :: nat)"

definition digits_value :: "string \<Rightarrow> int" where
  "digits_value = foldl (\<lambda>n c. 10 * n + (of_char c - 48)) 0"

text \<open>\<^verbatim>\<open>catch (const std::exception&)\<close> does not catch what is not publicly derived from it.\<close>

definition is_std_exception :: "exc \<Rightarrow> bool" where
  "is_std_exception e = (case e of Http_exception _ _ \<Rightarrow> True | Std_exception _ \<Rightarrow> True | _ \<Rightarrow> False)"

definition exception_what :: "exc \<Rightarrow> string" where
  "exception_what e =
     (case e of Http_exception c m \<Rightarrow> dec_int c @ '' '' @ m | Std_exception s \<Rightarrow> s | _ \<Rightarrow> [])"

section \<open>\<^verbatim>\<open>std::multimap\<close>\<close>

text \<open>
  A multimap is the list of its pairs in ascending order of the keys. Inserting puts a pair
  behind those with an equal key; \<^verbatim>\<open>find\<close> yields the first of them, as the standard
  libraries in use do.
\<close>

definition mm_insert :: "'a::linorder \<Rightarrow> 'b \<Rightarrow> ('a \<times> 'b) list \<Rightarrow> ('a \<times> 'b) list" where
  "mm_insert p m xs = takeWhile (\<lambda>x. fst x \<le> p) xs @ (p, m) # dropWhile (\<lambda>x. fst x \<le> p) xs"

definition mm_count :: "'a \<Rightarrow> ('a \<times> 'b) list \<Rightarrow> nat" where
  "mm_count k xs = length (filter (\<lambda>x. fst x = k) xs)"

definition mm_erase :: "'a \<Rightarrow> ('a \<times> 'b) list \<Rightarrow> ('a \<times> 'b) list" where
  "mm_erase k xs = filter (\<lambda>x. fst x \<noteq> k) xs"

lemma mm_insert_parts:
  assumes "sorted (map fst xs)"
  shows "x \<in> set (dropWhile (\<lambda>y. fst y \<le> p) xs) \<Longrightarrow> p < fst x"
    and "x \<in> set (takeWhile (\<lambda>y. fst y \<le> p) xs) \<Longrightarrow> fst x \<le> p"
proof -
  show "x \<in> set (dropWhile (\<lambda>y. fst y \<le> p) xs) \<Longrightarrow> p < fst x"
    using assms
  proof (induction xs)
    case (Cons a xs)
    then show ?case by (cases "fst a \<le> p") (auto simp: not_le)
  qed simp
  show "x \<in> set (takeWhile (\<lambda>y. fst y \<le> p) xs) \<Longrightarrow> fst x \<le> p"
    by (auto dest: set_takeWhileD)
qed

lemma mm_insert_sorted:
  assumes "sorted (map fst xs)"
  shows "sorted (map fst (mm_insert p m xs))"
proof -
  let ?a = "takeWhile (\<lambda>x. fst x \<le> p) xs" and ?b = "dropWhile (\<lambda>x. fst x \<le> p) xs"
  have "sorted (map fst ?a @ map fst ?b)" using assms by (metis map_append takeWhile_dropWhile_id)
  then show ?thesis
    using mm_insert_parts [OF assms] unfolding mm_insert_def
    by (fastforce simp: sorted_append dest: less_imp_le)
qed

lemma mm_insert_sort: "mm_insert p m (sort_key fst xs) = sort_key fst (xs @ [(p, m)])"
proof (rule properties_for_sort_key [symmetric])
  let ?s = "sort_key fst xs"
  let ?a = "takeWhile (\<lambda>x. fst x \<le> p) ?s" and ?b = "dropWhile (\<lambda>x. fst x \<le> p) ?s"
  have parts: "?a @ ?b = ?s" by simp
  have sorted: "sorted (map fst ?s)" by simp
  show "mset (mm_insert p m ?s) = mset (xs @ [(p, m)])"
  proof -
    have "mset (mm_insert p m ?s) = add_mset (p, m) (mset ?a + mset ?b)"
      by (simp add: mm_insert_def)
    also have "mset ?a + mset ?b = mset ?s" by (metis mset_append parts)
    finally show ?thesis by simp
  qed
  show "sorted (map fst (mm_insert p m ?s))" by (rule mm_insert_sorted [OF sorted])
  show "filter (\<lambda>x. fst k = fst x) (mm_insert p m ?s) = filter (\<lambda>x. fst k = fst x) (xs @ [(p, m)])" for k
  proof -
    have old: "filter (\<lambda>x. fst k = fst x) ?a @ filter (\<lambda>x. fst k = fst x) ?b = filter (\<lambda>x. fst k = fst x) xs"
    proof -
      have "filter (\<lambda>x. fst k = fst x) (?a @ ?b) = filter (\<lambda>x. fst x = fst k) ?s"
        by (simp only: parts eq_commute [of "fst k"])
      then show ?thesis by (simp only: filter_append sort_key_stable eq_commute [of "fst k"])
    qed
    show ?thesis
    proof (cases "fst k = p")
      case True
      then have "filter (\<lambda>x. fst k = fst x) ?b = []"
        using mm_insert_parts(1) [OF sorted] by (fastforce simp: filter_empty_conv)
      then show ?thesis using old True by (simp add: mm_insert_def)
    next
      case False
      then show ?thesis using old by (simp add: mm_insert_def)
    qed
  qed
qed

lemma mm_insert_fold: "fold (\<lambda>(k, v). mm_insert k v) kvs [] = sort_key fst kvs"
proof (induction kvs rule: rev_induct)
  case (snoc kv kvs)
  then show ?case by (cases kv) (simp add: mm_insert_sort)
qed simp

lemma mm_count_map_of: "mm_count k xs \<noteq> 0 \<longleftrightarrow> map_of xs k \<noteq> None"
  by (auto simp: mm_count_def map_of_eq_None_iff filter_empty_conv)

lemma map_of_sort_key: "map_of (sort_key fst xs) = map_of xs"
proof
  fix k
  have "map_of ys k = map_of (filter (\<lambda>y. fst y = k) ys) k" for ys :: "('a \<times> 'b) list"
    by (induction ys) auto
  then show "map_of (sort_key fst xs) k = map_of xs k" by (metis sort_key_stable)
qed

lemma map_of_filter: "map_of xs k = (case filter (\<lambda>x. fst x = k) xs of [] \<Rightarrow> None | x # _ \<Rightarrow> Some (snd x))"
  by (induction xs) auto

text \<open>Entries inserted one by one under changed keys: the first of those with a key is found.\<close>

lemma map_of_inserted:
  "map_of (fold (\<lambda>(k, v). mm_insert (f k) v) kvs []) k
     = (case filter (\<lambda>x. f (fst x) = k) kvs of [] \<Rightarrow> None | x # _ \<Rightarrow> Some (snd x))"
proof -
  have "fold (\<lambda>(k, v). mm_insert (f k) v) kvs xs = fold (\<lambda>(k, v). mm_insert k v) (map (apfst f) kvs) xs" for xs
    by (induction kvs arbitrary: xs) auto
  then have "map_of (fold (\<lambda>(k, v). mm_insert (f k) v) kvs []) k = map_of (map (apfst f) kvs) k"
    by (simp add: mm_insert_fold map_of_sort_key)
  also have "\<dots> = (case filter (\<lambda>x. f (fst x) = k) kvs of [] \<Rightarrow> None | x # _ \<Rightarrow> Some (snd x))"
    by (induction kvs) auto
  finally show ?thesis .
qed

end
