(* ===== verification/Regex.thy ===== *)
theory Regex imports Prelude
begin

text \<open>
  The part of \<^verbatim>\<open>std::regex\<close> (ECMAScript grammar) that the router uses: \<^verbatim>\<open>std::regex(s)\<close>
  compiles a pattern, \<^verbatim>\<open>std::regex_match\<close> matches a whole string and yields the captures.
  Modelled are literals, \<^verbatim>\<open>.\<close>, character classes with ranges and class escapes, anchors,
  capturing and non-capturing groups, alternation, and the greedy and lazy quantifiers.
  Back references, look-ahead, word boundaries, POSIX bracket names and numeric escapes
  compile to \<open>Rx_unsupported\<close>, which no theorem equates with an error of the library.
\<close>

section \<open>Patterns\<close>

datatype class_item =
    Single char
  | Range char char
  | Digits bool
  | Words bool
  | Spaces bool

datatype rx =
    Rx_empty
  | Rx_char char
  | Rx_any
  | Rx_class bool "class_item list"
  | Rx_bol
  | Rx_eol
  | Rx_group "nat option" rx
  | Rx_seq rx rx
  | Rx_alt rx rx
  | Rx_rep rx nat "nat option" bool

text \<open>\<open>Rx_rep r lo hi greedy\<close>; \<open>hi = None\<close> is unbounded. A capturing group carries its number.\<close>

definition code_of :: "char \<Rightarrow> nat" where
  "code_of c = of_char c"

definition is_digit :: "char \<Rightarrow> bool" where
  "is_digit c \<longleftrightarrow> 48 \<le> code_of c \<and> code_of c \<le> 57"

definition is_word_char :: "char \<Rightarrow> bool" where
  "is_word_char c \<longleftrightarrow> is_digit c \<or> (65 \<le> code_of c \<and> code_of c \<le> 90)
     \<or> (97 \<le> code_of c \<and> code_of c \<le> 122) \<or> c = CHR ''_''"

definition is_space_char :: "char \<Rightarrow> bool" where
  "is_space_char c \<longleftrightarrow> c = CHR '' '' \<or> (9 \<le> code_of c \<and> code_of c \<le> 13)"

fun item_matches :: "class_item \<Rightarrow> char \<Rightarrow> bool" where
  "item_matches (Single a) c = (c = a)"
| "item_matches (Range a b) c = (code_of a \<le> code_of c \<and> code_of c \<le> code_of b)"
| "item_matches (Digits pos) c = (is_digit c = pos)"
| "item_matches (Words pos) c = (is_word_char c = pos)"
| "item_matches (Spaces pos) c = (is_space_char c = pos)"

definition class_matches :: "bool \<Rightarrow> class_item list \<Rightarrow> char \<Rightarrow> bool" where
  "class_matches neg items c = (list_ex (\<lambda>i. item_matches i c) items \<noteq> neg)"

text \<open>\<^verbatim>\<open>.\<close> matches everything but line terminators.\<close>

definition any_matches :: "char \<Rightarrow> bool" where
  "any_matches c \<longleftrightarrow> c \<noteq> CHR 0x0A \<and> c \<noteq> CHR 0x0D"

section \<open>Matching\<close>

type_synonym captures = "nat \<Rightarrow> string option"

fun groups_of :: "rx \<Rightarrow> nat list" where
  "groups_of (Rx_group g r) = (case g of None \<Rightarrow> [] | Some i \<Rightarrow> [i]) @ groups_of r"
| "groups_of (Rx_seq a b) = groups_of a @ groups_of b"
| "groups_of (Rx_alt a b) = groups_of a @ groups_of b"
| "groups_of (Rx_rep r lo hi g) = groups_of r"
| "groups_of _ = []"

definition clear_groups :: "rx \<Rightarrow> captures \<Rightarrow> captures" where
  "clear_groups r c = (\<lambda>i. if i \<in> set (groups_of r) then None else c i)"

primrec rx_depth :: "rx \<Rightarrow> nat" where
  "rx_depth Rx_empty = 0"
| "rx_depth (Rx_char c) = 0"
| "rx_depth Rx_any = 0"
| "rx_depth (Rx_class n is) = 0"
| "rx_depth Rx_bol = 0"
| "rx_depth Rx_eol = 0"
| "rx_depth (Rx_group g r) = Suc (rx_depth r)"
| "rx_depth (Rx_seq a b) = Suc (rx_depth a + rx_depth b)"
| "rx_depth (Rx_alt a b) = Suc (rx_depth a + rx_depth b)"
| "rx_depth (Rx_rep r lo hi g) = Suc (rx_depth r)"

definition rep_min :: "rx \<Rightarrow> nat" where
  "rep_min r = (case r of Rx_rep _ lo _ _ \<Rightarrow> lo | _ \<Rightarrow> 0)"

text \<open>
  The backtracking matcher of the ECMAScript specification, in continuation style: \<open>n\<close> is
  the length of the whole subject (so the start of input is where \<open>length s = n\<close>), \<open>k\<close> the
  rest of the pattern. An iteration of a quantifier beyond its minimum has to consume.
\<close>

function rx_run ::
  "nat \<Rightarrow> rx \<Rightarrow> string \<Rightarrow> captures \<Rightarrow> (string \<Rightarrow> captures \<Rightarrow> 'a option) \<Rightarrow> 'a option" where
  "rx_run n Rx_empty s c k = k s c"
| "rx_run n (Rx_char a) s c k = (case s of [] \<Rightarrow> None | x # xs \<Rightarrow> if x = a then k xs c else None)"
| "rx_run n Rx_any s c k = (case s of [] \<Rightarrow> None | x # xs \<Rightarrow> if any_matches x then k xs c else None)"
| "rx_run n (Rx_class neg items) s c k =
     (case s of [] \<Rightarrow> None | x # xs \<Rightarrow> if class_matches neg items x then k xs c else None)"
| "rx_run n Rx_bol s c k = (if length s = n then k s c else None)"
| "rx_run n Rx_eol s c k = (if s = [] then k s c else None)"
| "rx_run n (Rx_group g r) s c k =
     rx_run n r s c (\<lambda>s' c'.
       k s' (case g of None \<Rightarrow> c' | Some i \<Rightarrow> c'(i \<mapsto> take (length s - length s') s)))"
| "rx_run n (Rx_seq a b) s c k = rx_run n a s c (\<lambda>s' c'. rx_run n b s' c' k)"
| "rx_run n (Rx_alt a b) s c k =
     (case rx_run n a s c k of Some x \<Rightarrow> Some x | None \<Rightarrow> rx_run n b s c k)"
| "rx_run n (Rx_rep r lo hi greedy) s c k =
     (if hi = Some 0 then k s c
      else if lo > 0 then
        rx_run n r s (clear_groups r c) (\<lambda>s' c'.
          rx_run n (Rx_rep r (lo - 1) (map_option (\<lambda>h. h - 1) hi) greedy) s' c' k)
      else if greedy then
        (case rx_run n r s (clear_groups r c) (\<lambda>s' c'.
                if length s' < length s
                then rx_run n (Rx_rep r 0 (map_option (\<lambda>h. h - 1) hi) greedy) s' c' k
                else None) of
           Some x \<Rightarrow> Some x
         | None \<Rightarrow> k s c)
      else
        (case k s c of
           Some x \<Rightarrow> Some x
         | None \<Rightarrow>
             rx_run n r s (clear_groups r c) (\<lambda>s' c'.
                if length s' < length s
                then rx_run n (Rx_rep r 0 (map_option (\<lambda>h. h - 1) hi) greedy) s' c' k
                else None)))"
  by pat_completeness auto
termination
  by (relation "measures [\<lambda>(n, r, s, c, k). rx_depth r, \<lambda>(n, r, s, c, k). rep_min r, \<lambda>(n, r, s, c, k). length s]")
     (auto simp: rep_min_def)

definition regex_match :: "rx \<Rightarrow> string \<Rightarrow> captures option" where
  "regex_match r s = rx_run (length s) r s (\<lambda>_. None) (\<lambda>s' c. if s' = [] then Some c else None)"

text \<open>\<^verbatim>\<open>matches[i].str()\<close>; a group that did not take part is the empty string.\<close>

definition capture_str :: "captures \<Rightarrow> nat \<Rightarrow> string" where
  "capture_str c i = (case c i of None \<Rightarrow> [] | Some t \<Rightarrow> t)"

section \<open>Compiling\<close>

datatype rx_error = Rx_syntax | Rx_unsupported

text \<open>What a following quantifier would apply to.\<close>

datatype quant_state = Q_none | Q_atom | Q_greedy

datatype class_state = C_none | C_char char | C_dash char | C_escape

datatype mode =
    Normal
  | Escape
  | Open_paren
  | Open_query
  | Class_start
  | Class_body bool "class_item list" class_state
  | Brace "nat option" "nat option option"

text \<open>
  A frame is an open group: its number (\<open>None\<close> when it does not capture), the alternatives
  to the left of the current one, and the terms read so far, last first.
\<close>

record frame =
  f_group :: "nat option"
  f_alts :: "rx option"
  f_items :: "rx list"

record rx_state =
  frames :: "frame list"
  cur :: frame
  ngroups :: nat
  mode :: mode
  quant :: quant_state

definition seq_of :: "rx list \<Rightarrow> rx" where
  "seq_of xs = foldr Rx_seq xs Rx_empty"

definition alt_of :: "rx option \<Rightarrow> rx \<Rightarrow> rx" where
  "alt_of a r = (case a of None \<Rightarrow> r | Some l \<Rightarrow> Rx_alt l r)"

definition finish_frame :: "frame \<Rightarrow> rx" where
  "finish_frame f = alt_of (f_alts f) (seq_of (rev (f_items f)))"

definition empty_frame :: "nat option \<Rightarrow> frame" where
  "empty_frame g = \<lparr>f_group = g, f_alts = None, f_items = []\<rparr>"

definition add_item :: "rx_state \<Rightarrow> rx \<Rightarrow> quant_state \<Rightarrow> rx_state" where
  "add_item st r q = st\<lparr>cur := (cur st)\<lparr>f_items := r # f_items (cur st)\<rparr>, quant := q, mode := Normal\<rparr>"

definition add_quant :: "rx_state \<Rightarrow> nat \<Rightarrow> nat option \<Rightarrow> rx_error + rx_state" where
  "add_quant st lo hi =
     (case (quant st, f_items (cur st)) of
        (Q_atom, r # rs) \<Rightarrow>
          Inr (st\<lparr>cur := (cur st)\<lparr>f_items := Rx_rep r lo hi True # rs\<rparr>, quant := Q_greedy, mode := Normal\<rparr>)
      | _ \<Rightarrow> Inl Rx_syntax)"

definition make_lazy :: "rx_state \<Rightarrow> rx_error + rx_state" where
  "make_lazy st =
     (case f_items (cur st) of
        Rx_rep r lo hi g # rs \<Rightarrow>
          Inr (st\<lparr>cur := (cur st)\<lparr>f_items := Rx_rep r lo hi False # rs\<rparr>, quant := Q_none\<rparr>)
      | _ \<Rightarrow> Inl Rx_syntax)"

definition open_group :: "rx_state \<Rightarrow> bool \<Rightarrow> rx_state" where
  "open_group st capture =
     st\<lparr>frames := cur st # frames st,
        cur := empty_frame (if capture then Some (Suc (ngroups st)) else None),
        ngroups := (if capture then Suc (ngroups st) else ngroups st),
        mode := Normal, quant := Q_none\<rparr>"

definition close_group :: "rx_state \<Rightarrow> rx_error + rx_state" where
  "close_group st =
     (case frames st of
        [] \<Rightarrow> Inl Rx_syntax
      | f # fs \<Rightarrow>
          Inr (add_item (st\<lparr>frames := fs, cur := f\<rparr>) (Rx_group (f_group (cur st)) (finish_frame (cur st))) Q_atom))"

definition step_normal :: "rx_state \<Rightarrow> char \<Rightarrow> rx_error + rx_state" where
  "step_normal st c =
     (if c = CHR ''^'' then Inr (add_item st Rx_bol Q_none)
      else if c = CHR ''$'' then Inr (add_item st Rx_eol Q_none)
      else if c = CHR ''.'' then Inr (add_item st Rx_any Q_atom)
      else if c = CHR ''('' then Inr (st\<lparr>mode := Open_paren\<rparr>)
      else if c = CHR '')'' then close_group st
      else if c = CHR ''|'' then
        Inr (st\<lparr>cur := (cur st)\<lparr>f_alts := Some (finish_frame (cur st)), f_items := []\<rparr>, quant := Q_none\<rparr>)
      else if c = CHR ''*'' then add_quant st 0 None
      else if c = CHR ''+'' then add_quant st 1 None
      else if c = CHR ''?'' then (if quant st = Q_greedy then make_lazy st else add_quant st 0 (Some 1))
      else if c = CHR ''['' then Inr (st\<lparr>mode := Class_start\<rparr>)
      else if c = CHR 0x5C then Inr (st\<lparr>mode := Escape\<rparr>)
      else if c = CHR ''{'' then (if quant st = Q_atom then Inr (st\<lparr>mode := Brace None None\<rparr>) else Inl Rx_syntax)
      else Inr (add_item st (Rx_char c) Q_atom))"

definition class_escape :: "char \<Rightarrow> class_item option" where
  "class_escape c =
     (if c = CHR ''d'' then Some (Digits True) else if c = CHR ''D'' then Some (Digits False)
      else if c = CHR ''w'' then Some (Words True) else if c = CHR ''W'' then Some (Words False)
      else if c = CHR ''s'' then Some (Spaces True) else if c = CHR ''S'' then Some (Spaces False)
      else None)"

definition char_escape :: "char \<Rightarrow> rx_error + char" where
  "char_escape c =
     (if c = CHR ''t'' then Inr (CHR 0x09) else if c = CHR ''n'' then Inr (CHR 0x0A)
      else if c = CHR ''v'' then Inr (CHR 0x0B) else if c = CHR ''f'' then Inr (CHR 0x0C)
      else if c = CHR ''r'' then Inr (CHR 0x0D) else if c = CHR ''0'' then Inr (CHR 0x00)
      else if is_word_char c then
        Inl (if is_digit c \<or> c \<in> set ''bBcxu'' then Rx_unsupported else Rx_syntax)
      else Inr c)"

definition step_escape :: "rx_state \<Rightarrow> char \<Rightarrow> rx_error + rx_state" where
  "step_escape st c =
     (case class_escape c of
        Some i \<Rightarrow> Inr (add_item st (Rx_class False [i]) Q_atom)
      | None \<Rightarrow> (case char_escape c of Inl e \<Rightarrow> Inl e | Inr x \<Rightarrow> Inr (add_item st (Rx_char x) Q_atom)))"

text \<open>Inside brackets; \<open>p\<close> is the single character that may still begin a range.\<close>

definition step_class ::
  "rx_state \<Rightarrow> bool \<Rightarrow> class_item list \<Rightarrow> class_state \<Rightarrow> char \<Rightarrow> rx_error + rx_state" where
  "step_class st neg items p c =
     (case p of
        C_escape \<Rightarrow>
          (case class_escape c of
             Some i \<Rightarrow> Inr (st\<lparr>mode := Class_body neg (items @ [i]) C_none\<rparr>)
           | None \<Rightarrow>
               (case char_escape c of
                  Inl e \<Rightarrow> Inl e
                | Inr x \<Rightarrow> Inr (st\<lparr>mode := Class_body neg items (C_char x)\<rparr>)))
      | C_dash a \<Rightarrow>
          if c = CHR '']'' then Inr (add_item st (Rx_class neg (items @ [Single a, Single (CHR ''-'')])) Q_atom)
          else if c = CHR 0x5C \<or> c = CHR ''['' then Inl Rx_unsupported
          else if code_of a \<le> code_of c then Inr (st\<lparr>mode := Class_body neg (items @ [Range a c]) C_none\<rparr>)
          else Inl Rx_syntax
      | _ \<Rightarrow>
          (let items' = (case p of C_char a \<Rightarrow> items @ [Single a] | _ \<Rightarrow> items)
           in if c = CHR '']'' then Inr (add_item st (Rx_class neg items') Q_atom)
              else if c = CHR 0x5C then Inr (st\<lparr>mode := Class_body neg items' C_escape\<rparr>)
              else if c = CHR ''['' then Inl Rx_unsupported
              else (case p of
                      C_char a \<Rightarrow>
                        if c = CHR ''-'' then Inr (st\<lparr>mode := Class_body neg items (C_dash a)\<rparr>)
                        else Inr (st\<lparr>mode := Class_body neg items' (C_char c)\<rparr>)
                    | _ \<Rightarrow> Inr (st\<lparr>mode := Class_body neg items' (C_char c)\<rparr>))))"

definition add_digit :: "nat option \<Rightarrow> char \<Rightarrow> nat" where
  "add_digit n c = 10 * (case n of None \<Rightarrow> 0 | Some k \<Rightarrow> k) + (code_of c - 48)"

definition step_brace ::
  "rx_state \<Rightarrow> nat option \<Rightarrow> nat option option \<Rightarrow> char \<Rightarrow> rx_error + rx_state" where
  "step_brace st lo hi c =
     (if is_digit c then
        Inr (st\<lparr>mode := (case hi of None \<Rightarrow> Brace (Some (add_digit lo c)) None
                                  | Some h \<Rightarrow> Brace lo (Some (Some (add_digit h c))))\<rparr>)
      else if c = CHR '','' \<and> lo \<noteq> None \<and> hi = None then Inr (st\<lparr>mode := Brace lo (Some None)\<rparr>)
      else if c = CHR ''}'' then
        (case (lo, hi) of
           (None, _) \<Rightarrow> Inl Rx_syntax
         | (Some l, None) \<Rightarrow> add_quant st l (Some l)
         | (Some l, Some None) \<Rightarrow> add_quant st l None
         | (Some l, Some (Some h)) \<Rightarrow> if l \<le> h then add_quant st l (Some h) else Inl Rx_syntax)
      else Inl Rx_syntax)"

definition rx_step :: "rx_state \<Rightarrow> char \<Rightarrow> rx_error + rx_state" where
  "rx_step st c =
     (case mode st of
        Normal \<Rightarrow> step_normal st c
      | Escape \<Rightarrow> step_escape st c
      | Open_paren \<Rightarrow>
          if c = CHR ''?'' then Inr (st\<lparr>mode := Open_query\<rparr>) else step_normal (open_group st True) c
      | Open_query \<Rightarrow>
          if c = CHR '':'' then Inr (open_group st False)
          else Inl (if c = CHR ''='' \<or> c = CHR ''!'' then Rx_unsupported else Rx_syntax)
      | Class_start \<Rightarrow>
          if c = CHR ''^'' then Inr (st\<lparr>mode := Class_body True [] C_none\<rparr>)
          else step_class st False [] C_none c
      | Class_body neg items p \<Rightarrow> step_class st neg items p c
      | Brace lo hi \<Rightarrow> step_brace st lo hi c)"

fun rx_feed :: "rx_state \<Rightarrow> string \<Rightarrow> rx_error + rx_state" where
  "rx_feed st [] = Inr st"
| "rx_feed st (c # cs) = (case rx_step st c of Inl e \<Rightarrow> Inl e | Inr st' \<Rightarrow> rx_feed st' cs)"

definition rx_init :: rx_state where
  "rx_init = \<lparr>frames = [], cur = empty_frame None, ngroups = 0, mode = Normal, quant = Q_none\<rparr>"

text \<open>A compiled pattern with the number of its capturing groups.\<close>

definition rx_compile :: "string \<Rightarrow> rx_error + rx \<times> nat" where
  "rx_compile s =
     (case rx_feed rx_init s of
        Inl e \<Rightarrow> Inl e
      | Inr st \<Rightarrow>
          if mode st = Normal \<and> frames st = [] then Inr (finish_frame (cur st), ngroups st) else Inl Rx_syntax)"

lemma rx_feed_append:
  "rx_feed st (a @ b) = (case rx_feed st a of Inl e \<Rightarrow> Inl e | Inr st' \<Rightarrow> rx_feed st' b)"
  by (induction a arbitrary: st) (auto split: sum.splits)

section \<open>Running sequences\<close>

lemma seq_of_Cons: "seq_of (x # xs) = Rx_seq x (seq_of xs)"
  by (simp add: seq_of_def)

lemma run_seq_Nil: "rx_run n (seq_of []) s c k = k s c"
  by (simp add: seq_of_def)

lemma run_seq_Cons:
  "rx_run n (seq_of (x # xs)) s c k = rx_run n x s c (\<lambda>s' c'. rx_run n (seq_of xs) s' c' k)"
  by (simp add: seq_of_def)

lemma run_seq_append:
  "rx_run n (seq_of (xs @ ys)) s c k = rx_run n (seq_of xs) s c (\<lambda>s' c'. rx_run n (seq_of ys) s' c' k)"
  by (induction xs arbitrary: s c) (simp_all add: run_seq_Nil run_seq_Cons)

lemmas run_seq = run_seq_Nil run_seq_Cons run_seq_append

text \<open>A literal text consumes exactly itself.\<close>

lemma run_chars:
  "rx_run n (seq_of (map Rx_char e)) s c k = (if take (length e) s = e then k (drop (length e) s) c else None)"
proof (induction e arbitrary: s)
  case (Cons a e)
  then show ?case by (cases s) (simp_all add: run_seq)
qed (simp add: run_seq)

text \<open>
  A lazy loop over a negated one-character class, in front of something that can only start
  with that character or at the end, runs up to the first such character.
\<close>

lemma class_not_char: "class_matches True [Single a] x \<longleftrightarrow> x \<noteq> a"
  by (simp add: class_matches_def)

lemma clear_class: "clear_groups (Rx_class neg items) c = c"
  by (simp add: clear_groups_def)

lemma run_lazy_class:
  assumes "\<And>s' c'. s' \<noteq> [] \<Longrightarrow> hd s' \<noteq> a \<Longrightarrow> k s' c' = None"
  shows "rx_run n (Rx_rep (Rx_class True [Single a]) 0 None False) s c k = k (dropWhile (\<lambda>x. x \<noteq> a) s) c"
proof (induction s)
  case Nil
  then show ?case by (simp split: option.splits)
next
  case (Cons x xs)
  then show ?case using assms [of "x # xs" c]
    by (subst rx_run.simps(10))
       (simp add: class_not_char clear_class del: rx_run.simps(10) split: option.splits)
qed

lemma run_lazy_class1:
  assumes "\<And>s' c'. s' \<noteq> [] \<Longrightarrow> hd s' \<noteq> a \<Longrightarrow> k s' c' = None"
  shows "rx_run n (Rx_rep (Rx_class True [Single a]) 1 None False) s c k =
    (if takeWhile (\<lambda>x. x \<noteq> a) s = [] then None else k (dropWhile (\<lambda>x. x \<noteq> a) s) c)"
proof -
  have "rx_run n (Rx_rep (Rx_class True [Single a]) 1 None False) s c k =
     rx_run n (Rx_class True [Single a]) s c (\<lambda>s' c'.
       rx_run n (Rx_rep (Rx_class True [Single a]) 0 None False) s' c' k)"
    by (subst rx_run.simps(10)) (simp add: clear_class del: rx_run.simps)
  then show ?thesis
    by (cases s) (simp_all add: class_not_char run_lazy_class [OF assms] del: rx_run.simps(10))
qed

declare rx_run.simps(10) [simp del]

end
