(* ===== verification/Regex_Words.thy ===== *)
theory Regex_Words imports Regex
begin

text \<open>
  Expressions as parts of a longer one. The matcher of \<open>Regex\<close> passes on a continuation; for an
  expression without anchors and captures it is the same as trying, in order, the remainders
  that the expression leaves. For an expression that cannot read a given character the
  remainders do not depend on what follows that character, so that such an expression matches
  within a longer text what it matches alone. The text of an expression that compiles alone
  compiles to the same inside the parentheses of a group.
\<close>

section \<open>Remainders\<close>

fun plain :: "rx \<Rightarrow> bool" where
  "plain Rx_bol = False"
| "plain Rx_eol = False"
| "plain (Rx_group g r) = (g = None \<and> plain r)"
| "plain (Rx_seq a b) = (plain a \<and> plain b)"
| "plain (Rx_alt a b) = (plain a \<and> plain b)"
| "plain (Rx_rep r lo hi g) = plain r"
| "plain _ = True"

text \<open>The expression cannot read the character \<open>d\<close>.\<close>

fun avoids :: "char \<Rightarrow> rx \<Rightarrow> bool" where
  "avoids d (Rx_char c) = (c \<noteq> d)"
| "avoids d Rx_any = (\<not> any_matches d)"
| "avoids d (Rx_class neg items) = (\<not> class_matches neg items d)"
| "avoids d (Rx_group g r) = avoids d r"
| "avoids d (Rx_seq a b) = (avoids d a \<and> avoids d b)"
| "avoids d (Rx_alt a b) = (avoids d a \<and> avoids d b)"
| "avoids d (Rx_rep r lo hi g) = avoids d r"
| "avoids d _ = True"

text \<open>What an expression leaves of a text, for each way to match a beginning of it, in the order tried.\<close>

function rests :: "rx \<Rightarrow> string \<Rightarrow> string list" where
  "rests Rx_empty s = [s]"
| "rests (Rx_char a) s = (case s of [] \<Rightarrow> [] | x # xs \<Rightarrow> if x = a then [xs] else [])"
| "rests Rx_any s = (case s of [] \<Rightarrow> [] | x # xs \<Rightarrow> if any_matches x then [xs] else [])"
| "rests (Rx_class neg items) s =
     (case s of [] \<Rightarrow> [] | x # xs \<Rightarrow> if class_matches neg items x then [xs] else [])"
| "rests Rx_bol s = []"
| "rests Rx_eol s = []"
| "rests (Rx_group g r) s = rests r s"
| "rests (Rx_seq a b) s = concat (map (rests b) (rests a s))"
| "rests (Rx_alt a b) s = rests a s @ rests b s"
| "rests (Rx_rep r lo hi greedy) s =
     (if hi = Some 0 then [s]
      else if lo > 0 then
        concat (map (rests (Rx_rep r (lo - 1) (map_option (\<lambda>h. h - 1) hi) greedy)) (rests r s))
      else
        (let more = concat (map (\<lambda>s'. if length s' < length s
               then rests (Rx_rep r 0 (map_option (\<lambda>h. h - 1) hi) greedy) s' else []) (rests r s))
         in if greedy then more @ [s] else s # more))"
  by pat_completeness auto
termination
  by (relation "measures [\<lambda>(r, s). rx_depth r, \<lambda>(r, s). rep_min r, \<lambda>(r, s). length s]")
     (auto simp: rep_min_def)

declare rests.simps(10) [simp del]

fun first_some :: "('b \<Rightarrow> 'a option) \<Rightarrow> 'b list \<Rightarrow> 'a option" where
  "first_some f [] = None"
| "first_some f (x # xs) = (case f x of Some y \<Rightarrow> Some y | None \<Rightarrow> first_some f xs)"

lemma first_some_append:
  "first_some f (xs @ ys) = (case first_some f xs of Some y \<Rightarrow> Some y | None \<Rightarrow> first_some f ys)"
  by (induction xs) (auto split: option.split)

lemma first_some_concat: "first_some f (concat (map g xs)) = first_some (\<lambda>x. first_some f (g x)) xs"
  by (induction xs) (auto simp: first_some_append split: option.split)

lemma first_some_cong [fundef_cong]:
  "xs = ys \<Longrightarrow> (\<And>x. x \<in> set ys \<Longrightarrow> f x = g x) \<Longrightarrow> first_some f xs = first_some g ys"
  by (induction xs arbitrary: ys) (auto split: option.split)

lemma first_some_one:
  assumes "\<And>x. x \<noteq> a \<Longrightarrow> x \<in> set xs \<Longrightarrow> f x = None"
  shows "first_some f xs = (if a \<in> set xs then f a else None)"
  using assms
proof (induction xs)
  case (Cons y xs)
  then show ?case by (cases "y = a") (auto split: option.split)
qed simp

lemma first_some_single: "first_some f [x] = f x"
  by (simp split: option.split)

lemma plain_groups: "plain r \<Longrightarrow> groups_of r = []"
  by (induction r rule: plain.induct) auto

lemma plain_clear: "plain r \<Longrightarrow> clear_groups r c = c"
  by (simp add: clear_groups_def plain_groups)

lemma run_rests: "plain r \<Longrightarrow> rx_run n r s c k = first_some (\<lambda>x. k x c) (rests r s)"
proof (induction r s arbitrary: c k rule: rests.induct)
  case (7 g r s)
  then show ?case by simp
next
  case (10 r lo hi greedy s)
  let ?hi = "map_option (\<lambda>h. h - 1) hi"
  have r: "rx_run n r s c k' = first_some (\<lambda>x. k' x c) (rests r s)" if "hi \<noteq> Some 0" for c and k' :: "string \<Rightarrow> captures \<Rightarrow> 'a option"
    using 10 that by (cases "lo > 0") auto
  consider "hi = Some 0" | "hi \<noteq> Some 0" "lo > 0" | "hi \<noteq> Some 0" "lo = 0" by blast
  then show ?case
  proof cases
    case 1
    then show ?thesis
      by (simp add: rx_run.simps(10) rests.simps(10) first_some_single del: first_some.simps)
  next
    case 2
    have "rx_run n (Rx_rep r (lo - 1) ?hi greedy) s' c k =
        first_some (\<lambda>x. k x c) (rests (Rx_rep r (lo - 1) ?hi greedy) s')" if "s' \<in> set (rests r s)" for s'
      using 10 2 that by simp
    then have "first_some (\<lambda>s'. rx_run n (Rx_rep r (lo - 1) ?hi greedy) s' c k) (rests r s) =
        first_some (\<lambda>x. k x c) (concat (map (rests (Rx_rep r (lo - 1) ?hi greedy)) (rests r s)))"
      unfolding first_some_concat by (rule first_some_cong [OF refl])
    then show ?thesis using 2 10 r
      by (simp add: rx_run.simps(10) [of n r lo hi greedy s] rests.simps(10) [of r lo hi greedy s] plain_clear)
  next
    case 3
    have more: "first_some (\<lambda>s'. if length s' < length s then rx_run n (Rx_rep r 0 ?hi greedy) s' c k else None) (rests r s) =
        first_some (\<lambda>x. k x c) (concat (map (\<lambda>s'. if length s' < length s
          then rests (Rx_rep r 0 ?hi greedy) s' else []) (rests r s)))"
      unfolding first_some_concat using 10 3 by (intro first_some_cong) auto
    then show ?thesis using 3 10 r
      by (simp add: rx_run.simps(10) [of n r 0 hi greedy s] rests.simps(10) [of r 0 hi greedy s] plain_clear Let_def
            first_some_append split: option.split)
  qed
qed (auto simp: first_some_concat first_some_append split: list.split option.split intro!: first_some_cong)

text \<open>A remainder is an end of the text.\<close>

lemma rests_suffix: "x \<in> set (rests r s) \<Longrightarrow> \<exists>w. s = w @ x"
proof (induction r s arbitrary: x rule: rests.induct)
  case (8 a b s)
  then show ?case by (auto simp: set_concat) (metis append.assoc)
next
  case (10 r lo hi greedy s)
  then show ?case
    by (auto simp: rests.simps(10) [of r lo hi greedy] Let_def split: if_splits) (metis append.assoc)+
qed (auto split: list.splits if_splits)

text \<open>What stands behind a character the expression cannot read does not matter.\<close>

lemma rests_local:
  assumes "z = [] \<or> hd z = d"
  shows "plain r \<Longrightarrow> avoids d r \<Longrightarrow> rests r (w @ z) = map (\<lambda>x. x @ z) (rests r w)"
proof (induction r w rule: rests.induct)
  case (8 a b s)
  then show ?case by (simp add: map_concat comp_def cong: map_cong)
next
  case (10 r lo hi greedy s)
  then show ?case
    by (auto simp: rests.simps(10) [of r lo hi greedy] Let_def map_concat comp_def intro!: arg_cong [where f = concat] map_cong)
qed (use assms in \<open>auto split: list.split\<close>)

section \<open>A group in front of a separator\<close>

definition accepts :: "rx \<Rightarrow> string \<Rightarrow> bool" where
  "accepts r w \<longleftrightarrow> [] \<in> set (rests r w)"

lemma accepts_match: "plain r \<Longrightarrow> accepts r w \<longleftrightarrow> regex_match r w \<noteq> None"
  using first_some_one [of "[]" "rests r w" "\<lambda>s'. if s' = [] then Some ((\<lambda>_. None) :: captures) else None"]
  by (simp add: regex_match_def run_rests accepts_def)

text \<open>
  A group whose continuation only goes on at the end or at a separator, on a text that is
  cut at its first separator.
\<close>

lemma run_group:
  assumes "plain r" "avoids d r" and stop: "\<And>s c. s \<noteq> [] \<Longrightarrow> hd s \<noteq> d \<Longrightarrow> k s c = None"
  shows "rx_run n (Rx_group g r) t c k =
    (let w = takeWhile (\<lambda>x. x \<noteq> d) t
     in if regex_match r w = None then None
        else k (dropWhile (\<lambda>x. x \<noteq> d) t) (case g of None \<Rightarrow> c | Some i \<Rightarrow> c(i \<mapsto> w)))"
proof -
  define w z where "w = takeWhile (\<lambda>x. x \<noteq> d) t" and "z = dropWhile (\<lambda>x. x \<noteq> d) t"
  have t: "t = w @ z" by (simp add: w_def z_def)
  have z: "z = [] \<or> hd z = d" using hd_dropWhile [of "\<lambda>x. x \<noteq> d" t] by (auto simp: z_def)
  have free: "d \<notin> set w" by (auto simp: w_def dest: set_takeWhileD)
  let ?k = "\<lambda>s'. k s' (case g of None \<Rightarrow> c | Some i \<Rightarrow> c(i \<mapsto> take (length t - length s') t))"
  have none: "?k (x @ z) = None" if ne: "x \<noteq> []" and x: "x \<in> set (rests r w)" for x
  proof -
    obtain v where "w = v @ x" using rests_suffix [OF x] by blast
    then have "hd (x @ z) \<noteq> d" using free ne by (cases x) auto
    then show ?thesis using stop ne by simp
  qed
  have "rx_run n (Rx_group g r) t c k = first_some ?k (rests r t)"
    by (simp add: run_rests [OF assms(1)])
  also have "\<dots> = first_some (\<lambda>x. ?k (x @ z)) (rests r w)"
  proof -
    have map: "first_some f (map h xs) = first_some (\<lambda>x. f (h x)) xs" for f :: "string \<Rightarrow> 'a option" and h xs
      by (induction xs) (auto split: option.split)
    show ?thesis using rests_local [OF z assms(1,2), of w] by (simp add: t map)
  qed
  also have "\<dots> = (if [] \<in> set (rests r w) then ?k ([] @ z) else None)"
    by (rule first_some_one) (rule none)
  also have "take (length t - length ([] @ z)) t = w" by (simp add: t)
  finally show ?thesis
    using accepts_match [OF assms(1), of w] by (auto simp: accepts_def Let_def simp flip: w_def z_def)
qed

section \<open>Compiling inside a group\<close>

text \<open>
  The state of compiling an expression alone, put on top of the open groups \<open>fs\<close> of a longer
  one: the lowest frame is the group \<open>g\<close>, and \<open>n\<close> groups were counted before.
\<close>

definition embed :: "nat option \<Rightarrow> frame list \<Rightarrow> nat \<Rightarrow> rx_state \<Rightarrow> rx_state" where
  "embed g fs n st =
     (if frames st = [] then st\<lparr>cur := (cur st)\<lparr>f_group := g\<rparr>, frames := fs, ngroups := ngroups st + n\<rparr>
      else st\<lparr>frames := butlast (frames st) @ (last (frames st))\<lparr>f_group := g\<rparr> # fs, ngroups := ngroups st + n\<rparr>)"

lemma embed_fields [simp]:
  "mode (embed g fs n st) = mode st" "quant (embed g fs n st) = quant st"
  "f_items (cur (embed g fs n st)) = f_items (cur st)" "f_alts (cur (embed g fs n st)) = f_alts (cur st)"
  "finish_frame (cur (embed g fs n st)) = finish_frame (cur st)"
  "embed g fs n (st\<lparr>mode := m\<rparr>) = (embed g fs n st)\<lparr>mode := m\<rparr>"
  "embed g fs n (st\<lparr>quant := q\<rparr>) = (embed g fs n st)\<lparr>quant := q\<rparr>"
  by (simp_all add: embed_def finish_frame_def)

lemma embed_cur:
  "embed g fs n (st\<lparr>cur := (cur st)\<lparr>f_alts := a, f_items := is\<rparr>\<rparr>) =
     (embed g fs n st)\<lparr>cur := (cur (embed g fs n st))\<lparr>f_alts := a, f_items := is\<rparr>\<rparr>"
  by (simp add: embed_def)

lemma embed_add_item: "embed g fs n (add_item st r q) = add_item (embed g fs n st) r q"
  by (simp add: embed_def add_item_def)

lemma embed_add_quant:
  "add_quant st lo hi = Inr st' \<Longrightarrow> add_quant (embed g fs n st) lo hi = Inr (embed g fs n st')"
  by (auto simp: add_quant_def embed_def split: quant_state.splits list.splits)

lemma embed_make_lazy: "make_lazy st = Inr st' \<Longrightarrow> make_lazy (embed g fs n st) = Inr (embed g fs n st')"
  by (auto simp: make_lazy_def embed_def split: rx.splits list.splits)

lemma embed_open_group: "open_group (embed g fs n st) False = embed g fs n (open_group st False)"
  by (cases "frames st = []") (simp_all add: embed_def open_group_def)

lemma embed_close_group:
  "close_group st = Inr st' \<Longrightarrow> close_group (embed g fs n st) = Inr (embed g fs n st')"
  by (cases "frames st"; cases "tl (frames st)") (auto simp: close_group_def embed_def add_item_def finish_frame_def)

text \<open>No step forgets a group it counted.\<close>

lemma add_quant_ngroups: "add_quant st lo hi = Inr st' \<Longrightarrow> ngroups st' = ngroups st"
  by (auto simp: add_quant_def split: quant_state.splits list.splits)

lemma make_lazy_ngroups: "make_lazy st = Inr st' \<Longrightarrow> ngroups st' = ngroups st"
  by (auto simp: make_lazy_def split: rx.splits list.splits)

lemma close_group_ngroups: "close_group st = Inr st' \<Longrightarrow> ngroups st' = ngroups st"
  by (auto simp: close_group_def add_item_def split: list.splits)

lemma step_normal_ngroups: "step_normal st c = Inr st' \<Longrightarrow> ngroups st' = ngroups st"
  by (auto simp: step_normal_def add_item_def dest: add_quant_ngroups make_lazy_ngroups close_group_ngroups split: if_splits)

lemma step_escape_ngroups: "step_escape st c = Inr st' \<Longrightarrow> ngroups st' = ngroups st"
  by (auto simp: step_escape_def add_item_def split: option.splits sum.splits)

lemma step_class_ngroups: "step_class st neg items p c = Inr st' \<Longrightarrow> ngroups st' = ngroups st"
  by (auto simp: step_class_def add_item_def Let_def split: option.splits sum.splits class_state.splits if_splits)

lemma step_brace_ngroups: "step_brace st lo hi c = Inr st' \<Longrightarrow> ngroups st' = ngroups st"
  by (auto simp: step_brace_def dest: add_quant_ngroups split: option.splits if_splits)

lemma rx_step_ngroups: "rx_step st c = Inr st' \<Longrightarrow> ngroups st \<le> ngroups st'"
  by (auto simp: rx_step_def open_group_def dest!: step_normal_ngroups step_escape_ngroups step_class_ngroups step_brace_ngroups
      split: mode.splits if_splits)

lemma rx_feed_ngroups: "rx_feed st s = Inr st' \<Longrightarrow> ngroups st \<le> ngroups st'"
  by (induction s arbitrary: st) (auto split: sum.splits dest: rx_step_ngroups order_trans)

lemma embed_step_normal:
  "step_normal st c = Inr st' \<Longrightarrow> step_normal (embed g fs n st) c = Inr (embed g fs n st')"
  unfolding step_normal_def
  by (auto simp: embed_add_item embed_cur embed_add_quant embed_make_lazy embed_close_group split: if_splits)

lemma embed_step_escape:
  "step_escape st c = Inr st' \<Longrightarrow> step_escape (embed g fs n st) c = Inr (embed g fs n st')"
  by (auto simp: step_escape_def embed_add_item split: option.splits sum.splits)

lemma embed_step_class:
  "step_class st neg items p c = Inr st' \<Longrightarrow> step_class (embed g fs n st) neg items p c = Inr (embed g fs n st')"
  by (auto simp: step_class_def embed_add_item Let_def split: option.splits sum.splits class_state.splits if_splits)

lemma embed_step_brace:
  "step_brace st lo hi c = Inr st' \<Longrightarrow> step_brace (embed g fs n st) lo hi c = Inr (embed g fs n st')"
  by (auto simp: step_brace_def embed_add_quant split: option.splits if_splits)

lemma embed_step:
  assumes "rx_step st c = Inr st'" "ngroups st' = ngroups st"
  shows "rx_step (embed g fs n st) c = Inr (embed g fs n st')"
proof (cases "mode st")
  case Open_paren
  have "ngroups st' = Suc (ngroups st)" if "c \<noteq> CHR ''?''"
    using that assms(1) Open_paren step_normal_ngroups [of "open_group st True" c st']
    by (simp add: rx_step_def open_group_def)
  then show ?thesis using assms Open_paren by (auto simp: rx_step_def split: if_splits)
qed (use assms in \<open>auto simp: rx_step_def embed_step_normal embed_step_escape embed_step_class embed_step_brace
      embed_open_group split: if_splits\<close>)

lemma embed_feed:
  "rx_feed st s = Inr st' \<Longrightarrow> ngroups st' = ngroups st \<Longrightarrow> rx_feed (embed g fs n st) s = Inr (embed g fs n st')"
proof (induction s arbitrary: st)
  case (Cons c s)
  then obtain st1 where 1: "rx_step st c = Inr st1" "rx_feed st1 s = Inr st'" by (auto split: sum.splits)
  have "ngroups st1 = ngroups st"
    using rx_step_ngroups [OF 1(1)] rx_feed_ngroups [OF 1(2)] Cons.prems(2) by simp
  then show ?case using 1 Cons embed_step [OF 1(1)] by simp
qed simp

text \<open>
  An expression without captures that compiles alone compiles to the same term between the
  parentheses of a group.
\<close>

lemma feed_group:
  assumes "rx_compile s = Inr (r, 0)" "s \<noteq> []" "mode st = Normal"
  shows "rx_feed st (''(?:'' @ s @ '')'') = Inr (add_item st (Rx_group None r) Q_atom)"
    and "rx_feed st (''('' @ s @ '')'') =
      Inr (add_item (st\<lparr>ngroups := Suc (ngroups st)\<rparr>) (Rx_group (Some (Suc (ngroups st))) r) Q_atom)"
proof -
  obtain e where e: "rx_feed rx_init s = Inr e" "mode e = Normal" "frames e = []" "r = finish_frame (cur e)" "ngroups e = 0"
    using assms(1) by (auto simp: rx_compile_def split: sum.splits if_splits)
  obtain c cs where s: "s = c # cs" using assms(2) by (cases s) auto
  have hd: "c \<noteq> CHR ''?''"
    using e(1) by (auto simp: s rx_step_def rx_init_def step_normal_def add_quant_def)
  have open_embed: "open_group st b = embed (if b then Some (Suc (ngroups st)) else None) (cur st # frames st)
      (if b then Suc (ngroups st) else ngroups st) rx_init" for b
    by (simp add: open_group_def embed_def rx_init_def empty_frame_def)
  have inner: "rx_feed (open_group st b) s = Inr (embed (if b then Some (Suc (ngroups st)) else None) (cur st # frames st)
      (if b then Suc (ngroups st) else ngroups st) e)" for b
    unfolding open_embed by (rule embed_feed [OF e(1)]) (simp add: e(5) rx_init_def)
  have close: "rx_feed (embed g (cur st # frames st) n e) '')'' =
      Inr (add_item (st\<lparr>ngroups := n\<rparr>) (Rx_group g r) Q_atom)" for g n
    using e by (cases st)
      (simp add: rx_step_def step_normal_def close_group_def embed_def add_item_def finish_frame_def)
  have "rx_feed st (''(?:'' @ s @ '')'') = rx_feed (open_group st False) (s @ '')'')"
    using assms(3) by (simp add: rx_step_def step_normal_def open_group_def)
  then show "rx_feed st (''(?:'' @ s @ '')'') = Inr (add_item st (Rx_group None r) Q_atom)"
    unfolding rx_feed_append inner using close by simp
  have "rx_feed (st\<lparr>mode := Open_paren\<rparr>) s = rx_feed (open_group st True) s"
    using hd by (simp add: s rx_step_def open_group_def)
  moreover have "rx_feed st (''('' @ s @ '')'') = rx_feed (st\<lparr>mode := Open_paren\<rparr>) (s @ '')'')"
    using assms(3) by (simp add: rx_step_def step_normal_def)
  ultimately show "rx_feed st (''('' @ s @ '')'') =
      Inr (add_item (st\<lparr>ngroups := Suc (ngroups st)\<rparr>) (Rx_group (Some (Suc (ngroups st))) r) Q_atom)"
    using inner [of True] close by (simp add: rx_feed_append)
qed

end
