(* ===== verification/Route_Pattern.thy ===== *)
theory Route_Pattern imports Regex_Words
begin

text \<open>
  Route patterns of \<^verbatim>\<open>src/http/router.cpp\<close>: \<^verbatim>\<open>parse_route\<close> reads a pattern such as
  \<^verbatim>\<open>/user/{id}/{file:.*}\<close> into one \<^verbatim>\<open>route_match_info\<close> per segment, \<^verbatim>\<open>build_route_regex\<close> turns
  these into the text of a regular expression and the list of its keys. The text is then
  compiled by the model of \<^verbatim>\<open>std::regex\<close>, and the compiled expression is proved to accept what a
  comparison segment by segment accepts, a user's own expression being matched with the
  question mark that \<^verbatim>\<open>build_route_regex\<close> appends to it. These expressions may not have anchors
  or captures and may not read a slash; \<open>Serve_Dir\<close> deals with the one of \<^verbatim>\<open>serve_dir\<close> that does.
\<close>

section \<open>Parsing a pattern\<close>

datatype match_type = T_equals | T_match_all | T_regex

record route_match_info =
  type_t :: match_type
  param_name :: string
  equals_str :: string

definition parse_part :: "string \<Rightarrow> route_match_info result" where
  "parse_part part =
     (if char_at part 0 = Inr (CHR ''{'') \<and> char_at part (length part - 1) = Inr (CHR ''}'') then
        ebind (substr part 1 (Some (length part - 2))) (\<lambda>part.
          (case find_char part (CHR '':'') 0 of
             None \<Rightarrow>
               ebind (substr part 0 None) (\<lambda>name.
               Inr \<lparr>type_t = T_match_all, param_name = name, equals_str = []\<rparr>)
           | Some pos \<Rightarrow>
               ebind (substr part (pos + 1) None) (\<lambda>rx.
               ebind (substr part 0 (Some pos)) (\<lambda>name.
               Inr \<lparr>type_t = T_regex, param_name = name, equals_str = rx\<rparr>))))
      else if char_at part 0 = Inr (CHR '':'') then
        ebind (substr part 1 None) (\<lambda>name.
        Inr \<lparr>type_t = T_match_all, param_name = name, equals_str = []\<rparr>)
      else Inr \<lparr>type_t = T_equals, param_name = [], equals_str = part\<rparr>)"

definition parse_route :: "ttl \<Rightarrow> string \<Rightarrow> route_match_info list result" where
  "parse_route T uri = emap parse_part (ttl_split T uri ''/'')"

section \<open>Building the regular expression\<close>

definition escaped_chars :: string where
  "escaped_chars = CHR 0x5C # ''.*+?^${}()|[]''"

fun escape_loop :: "ttl \<Rightarrow> string \<Rightarrow> string \<Rightarrow> string" where
  "escape_loop T str [] = str"
| "escape_loop T str (sc # scs) = escape_loop T (ttl_replace T str [sc] [CHR 0x5C, sc]) scs"

definition build_part :: "ttl \<Rightarrow> route_match_info \<Rightarrow> string \<times> string list" where
  "build_part T e =
     (case type_t e of
        T_equals \<Rightarrow> (escape_loop T (equals_str e) escaped_chars, [])
      | T_match_all \<Rightarrow>
          if param_name e = [] then (''(?:[^'' @ [CHR 0x5C] @ ''/]+?)'', [])
          else (''([^'' @ [CHR 0x5C] @ ''/]+?)'', [param_name e])
      | T_regex \<Rightarrow>
          if param_name e = [] then (''(?:'' @ equals_str e @ ''?)'', [])
          else (''('' @ equals_str e @ ''?)'', [param_name e]))"

fun build_parts :: "ttl \<Rightarrow> route_match_info list \<Rightarrow> string list \<Rightarrow> string list \<Rightarrow> string list \<times> string list" where
  "build_parts T [] parts keys = (parts, keys)"
| "build_parts T (e # es) parts keys =
     build_parts T es (parts @ [fst (build_part T e)]) (keys @ snd (build_part T e))"

definition build_route_regex :: "ttl \<Rightarrow> route_match_info list \<Rightarrow> string list \<Rightarrow> string \<times> string list" where
  "build_route_regex T info keys =
     (let (parts, keys') = build_parts T info [] keys
      in (''^'' @ [CHR 0x5C] @ ''/'' @ ttl_join T parts ([CHR 0x5C] @ ''/'') @ ''$'', keys'))"

section \<open>What a segment of a pattern means\<close>

text \<open>Parsing never fails: the offsets of \<^verbatim>\<open>substr\<close> are in range.\<close>

definition part_spec :: "string \<Rightarrow> route_match_info" where
  "part_spec part =
     (if part \<noteq> [] \<and> hd part = CHR ''{'' \<and> last part = CHR ''}'' then
        (let inner = butlast (tl part)
         in if CHR '':'' \<in> set inner
            then \<lparr>type_t = T_regex, param_name = takeWhile (\<lambda>c. c \<noteq> CHR '':'') inner,
                  equals_str = drop 1 (dropWhile (\<lambda>c. c \<noteq> CHR '':'') inner)\<rparr>
            else \<lparr>type_t = T_match_all, param_name = inner, equals_str = []\<rparr>)
      else if part \<noteq> [] \<and> hd part = CHR '':'' then
        \<lparr>type_t = T_match_all, param_name = tl part, equals_str = []\<rparr>
      else \<lparr>type_t = T_equals, param_name = [], equals_str = part\<rparr>)"

lemma parse_part_eq: "parse_part part = Inr (part_spec part)"
proof (cases part)
  case Nil
  then show ?thesis by (simp add: parse_part_def part_spec_def char_at_def)
next
  case (Cons c cs)
  then have ends: "char_at part 0 = Inr c" "char_at part (length part - 1) = Inr (last part)"
    by (simp_all add: char_at_def last_conv_nth)
  show ?thesis
  proof (cases "c = CHR ''{'' \<and> last part = CHR ''}''")
    case True
    define b where "b = butlast (tl part)"
    have "cs \<noteq> []" using Cons True by auto
    then have inner: "substr part 1 (Some (length part - 2)) = Inr b"
      using Cons by (simp add: butlast_conv_take b_def)
    have hd: "part \<noteq> []" "hd part = c" using Cons by simp_all
    show ?thesis
      by (rule find_char_cases [where s = b and c = "CHR '':''"])
         (use True hd in \<open>simp_all add: parse_part_def ends [unfolded One_nat_def] inner [unfolded One_nat_def]
            part_spec_def Let_def flip: b_def\<close>)
  next
    case False
    then show ?thesis using Cons unfolding parse_part_def ends part_spec_def by auto
  qed
qed

lemma parse_route_eq: "parse_route T uri = Inr (map part_spec (ttl_split T uri ''/''))"
  by (simp add: parse_route_def emap_Inr parse_part_eq)

section \<open>Escaping\<close>

definition escape_set :: "char set \<Rightarrow> string \<Rightarrow> string" where
  "escape_set P s = concat (map (\<lambda>c. if c \<in> P then [CHR 0x5C, c] else [c]) s)"

lemma escape_set_step:
  assumes "c \<notin> P" "c = CHR 0x5C \<Longrightarrow> P = {}"
  shows "replace_char (escape_set P s) c [CHR 0x5C, c] = escape_set (insert c P) s"
  using assms by (induction s) (auto simp: replace_char_def escape_set_def)

lemma escape_loop_set:
  assumes "ttl_replace_ok T" "distinct scs" "P \<inter> set scs = {}"
    "CHR 0x5C \<in> set scs \<Longrightarrow> P = {} \<and> hd scs = CHR 0x5C"
  shows "escape_loop T (escape_set P s) scs = escape_set (P \<union> set scs) s"
  using assms(2-)
proof (induction scs arbitrary: P)
  case (Cons c cs)
  have "ttl_replace T (escape_set P s) [c] [CHR 0x5C, c] = escape_set (insert c P) s"
    using assms(1) Cons.prems escape_set_step [of c P s] by (auto simp: ttl_replace_ok_def)
  then show ?case using Cons.IH [of "insert c P"] Cons.prems by (auto simp: Un_commute)
qed simp

text \<open>
  The loop over the special characters, backslash first, escapes each of them exactly once,
  although every pass also sees the backslashes of the passes before it.
\<close>

lemma escape_loop_eq:
  assumes "ttl_replace_ok T"
  shows "escape_loop T s escaped_chars = escape_set (set escaped_chars) s"
proof -
  have "escape_loop T (escape_set {} s) escaped_chars = escape_set ({} \<union> set escaped_chars) s"
    by (rule escape_loop_set [OF assms]) (simp_all add: escaped_chars_def)
  moreover have "escape_set {} s = s" by (induction s) (auto simp: escape_set_def)
  ultimately show ?thesis by simp
qed

section \<open>Compiling what was built\<close>

lemma special_char_escapes:
  assumes "c \<in> set escaped_chars \<or> c = CHR ''/''"
  shows "class_escape c = None" and "char_escape c = Inr c"
proof -
  have "list_all (\<lambda>c. class_escape c = None \<and> char_escape c = Inr c) (CHR ''/'' # escaped_chars)"
    by code_simp
  then show "class_escape c = None" "char_escape c = Inr c"
    using assms by (auto simp: list_all_iff)
qed

lemma plain_char_step:
  "c \<notin> set escaped_chars \<Longrightarrow> step_normal st c = Inr (add_item st (Rx_char c) Q_atom)"
  by (auto simp: escaped_chars_def step_normal_def)

fun add_items :: "rx_state \<Rightarrow> rx list \<Rightarrow> rx_state" where
  "add_items st [] = st"
| "add_items st (x # xs) = add_items (add_item st x Q_atom) xs"

lemma add_item_fields [simp]:
  "mode (add_item st r q) = Normal" "frames (add_item st r q) = frames st"
  "ngroups (add_item st r q) = ngroups st" "quant (add_item st r q) = q"
  "cur (add_item st r q) = (cur st)\<lparr>f_items := r # f_items (cur st)\<rparr>"
  "add_item (st\<lparr>mode := m\<rparr>) r q = add_item st r q"
  by (simp_all add: add_item_def)

lemma add_item_ngroups: "add_item (st\<lparr>ngroups := n\<rparr>) r q = (add_item st r q)\<lparr>ngroups := n\<rparr>"
  by (simp add: add_item_def)

lemma add_items_fields [simp]:
  "mode st = Normal \<Longrightarrow> mode (add_items st xs) = Normal"
  "frames (add_items st xs) = frames st" "ngroups (add_items st xs) = ngroups st"
  "cur (add_items st xs) = (cur st)\<lparr>f_items := rev xs @ f_items (cur st)\<rparr>"
  by (induction xs arbitrary: st) simp_all

lemma add_items_append: "add_items st (xs @ ys) = add_items (add_items st xs) ys"
  by (induction xs arbitrary: st) simp_all

lemma add_items_ngroups: "add_items (st\<lparr>ngroups := n\<rparr>) xs = (add_items st xs)\<lparr>ngroups := n\<rparr>"
  by (induction xs arbitrary: st) (simp_all add: add_item_ngroups)

lemma feed_escaped:
  assumes "mode st = Normal" "c \<in> set escaped_chars \<or> c = CHR ''/''"
  shows "rx_feed st (CHR 0x5C # c # cs) = rx_feed (add_item st (Rx_char c) Q_atom) cs"
proof -
  have "step_normal st (CHR 0x5C) = Inr (st\<lparr>mode := Escape\<rparr>)" by (simp add: step_normal_def)
  then show ?thesis using assms special_char_escapes [of c]
    by (auto simp: rx_step_def step_escape_def)
qed

lemma feed_literal:
  "mode st = Normal \<Longrightarrow>
   rx_feed st (escape_set (set escaped_chars) s) = Inr (add_items st (map Rx_char s))"
proof (induction s arbitrary: st)
  case (Cons a s)
  then show ?case
  proof (cases "a \<in> set escaped_chars")
    case True
    with Cons show ?thesis by (simp add: escape_set_def feed_escaped del: rx_feed.simps(2))
  next
    case False
    with Cons show ?thesis by (simp add: escape_set_def plain_char_step rx_step_def)
  qed
qed (simp add: escape_set_def)

definition segment_rx :: rx where
  "segment_rx = seq_of [Rx_rep (Rx_class True [Single (CHR ''/'')]) 1 None False]"

text \<open>
  The expression of a parameter, as it is compiled: with a question mark behind it. It has
  to compile alone, without captures and anchors, and to be unable to read a slash.
\<close>

definition expr_rx :: "string \<Rightarrow> rx" where
  "expr_rx s = (case rx_compile (s @ ''?'') of Inl e \<Rightarrow> Rx_empty | Inr (r, n) \<Rightarrow> r)"

definition expr_ok :: "string \<Rightarrow> bool" where
  "expr_ok s = (case rx_compile (s @ ''?'') of
     Inl e \<Rightarrow> False | Inr (r, n) \<Rightarrow> n = 0 \<and> plain r \<and> avoids (CHR ''/'') r)"

lemma expr_okD:
  "expr_ok s \<Longrightarrow> rx_compile (s @ ''?'') = Inr (expr_rx s, 0) \<and> plain (expr_rx s) \<and> avoids (CHR ''/'') (expr_rx s)"
  by (auto simp: expr_ok_def expr_rx_def split: sum.splits)

definition part_items :: "nat \<Rightarrow> route_match_info \<Rightarrow> rx list" where
  "part_items g e =
     (case type_t e of
        T_equals \<Rightarrow> map Rx_char (equals_str e)
      | T_match_all \<Rightarrow> [Rx_group (if param_name e = [] then None else Some (Suc g)) segment_rx]
      | T_regex \<Rightarrow> [Rx_group (if param_name e = [] then None else Some (Suc g)) (expr_rx (equals_str e))])"

definition part_keys :: "route_match_info \<Rightarrow> string list" where
  "part_keys e = (if type_t e = T_equals \<or> param_name e = [] then [] else [param_name e])"

lemma step_normal_special:
  "step_normal st (CHR ''('') = Inr (st\<lparr>mode := Open_paren\<rparr>)"
  "step_normal st (CHR ''['') = Inr (st\<lparr>mode := Class_start\<rparr>)"
  "step_normal st (CHR '')'') = close_group st"
  "step_normal st (CHR ''+'') = add_quant st 1 None"
  "step_normal st (CHR ''?'') = (if quant st = Q_greedy then make_lazy st else add_quant st 0 (Some 1))"
  "step_normal st (CHR ''^'') = Inr (add_item st Rx_bol Q_none)"
  "step_normal st (CHR ''$'') = Inr (add_item st Rx_eol Q_none)"
  by (simp_all add: step_normal_def)

lemma step_class_slash:
  "step_class st True [] C_none (CHR 0x5C) = Inr (st\<lparr>mode := Class_body True [] C_escape\<rparr>)"
  "step_class st True [] C_escape (CHR ''/'') = Inr (st\<lparr>mode := Class_body True [] (C_char (CHR ''/''))\<rparr>)"
  "step_class st True [] (C_char (CHR ''/'')) (CHR '']'') =
     Inr (add_item st (Rx_class True [Single (CHR ''/'')]) Q_atom)"
  using special_char_escapes [of "CHR ''/''"] by (simp_all add: step_class_def)

lemmas feed_class = step_normal_special step_class_slash rx_step_def open_group_def
  close_group_def add_quant_def make_lazy_def add_item_def empty_frame_def finish_frame_def alt_of_def
  segment_rx_def

lemma feed_segment:
  assumes "mode st = Normal"
  shows "rx_feed st (''(?:[^'' @ [CHR 0x5C] @ ''/]+?)'') = Inr (add_item st (Rx_group None segment_rx) Q_atom)"
    and "rx_feed st (''([^'' @ [CHR 0x5C] @ ''/]+?)'') =
      Inr (add_item (st\<lparr>ngroups := Suc (ngroups st)\<rparr>) (Rx_group (Some (Suc (ngroups st))) segment_rx) Q_atom)"
  using assms by (simp_all add: feed_class)

text \<open>The terms of a whole pattern: those of its segments, with a slash between.\<close>

fun body_items :: "nat \<Rightarrow> route_match_info list \<Rightarrow> rx list" where
  "body_items g [] = []"
| "body_items g [e] = part_items g e"
| "body_items g (e # f # es) =
     part_items g e @ Rx_char (CHR ''/'') # body_items (g + length (part_keys e)) (f # es)"

definition route_keys :: "route_match_info list \<Rightarrow> string list" where
  "route_keys info = concat (map part_keys info)"

definition route_rx :: "route_match_info list \<Rightarrow> rx" where
  "route_rx info = seq_of ([Rx_bol, Rx_char (CHR ''/'')] @ body_items 0 info @ [Rx_eol])"

definition exprs_ok :: "route_match_info list \<Rightarrow> bool" where
  "exprs_ok info \<longleftrightarrow> (\<forall>e \<in> set info. type_t e = T_regex \<longrightarrow> expr_ok (equals_str e))"

lemma exprs_ok_simps [simp]:
  "exprs_ok []"
  "exprs_ok (e # es) \<longleftrightarrow> (type_t e = T_regex \<longrightarrow> expr_ok (equals_str e)) \<and> exprs_ok es"
  by (auto simp: exprs_ok_def)

lemma build_parts_eq:
  "build_parts T es parts keys =
     (parts @ map (\<lambda>e. fst (build_part T e)) es, keys @ concat (map (\<lambda>e. snd (build_part T e)) es))"
  by (induction es arbitrary: parts keys) auto

lemma build_part_keys: "snd (build_part T e) = part_keys e"
  by (simp add: build_part_def part_keys_def split: match_type.splits)

lemma build_route_regex_eq:
  assumes "ttl_join_ok T"
  shows "build_route_regex T info keys =
    (''^'' @ [CHR 0x5C] @ ''/'' @ join_with ([CHR 0x5C] @ ''/'') (map (\<lambda>e. fst (build_part T e)) info) @ ''$'',
     keys @ route_keys info)"
  using assms by (simp add: build_route_regex_def build_parts_eq build_part_keys route_keys_def ttl_join_ok_def)

lemma feed_expr:
  assumes "mode st = Normal" "expr_ok e"
  shows "rx_feed st (''(?:'' @ e @ ''?)'') = Inr (add_item st (Rx_group None (expr_rx e)) Q_atom)"
    and "rx_feed st (''('' @ e @ ''?)'') =
      Inr (add_item (st\<lparr>ngroups := Suc (ngroups st)\<rparr>) (Rx_group (Some (Suc (ngroups st))) (expr_rx e)) Q_atom)"
  using feed_group [of "e @ ''?''" "expr_rx e" st] expr_okD [OF assms(2)] assms(1)
  by (simp_all del: rx_feed.simps(2))

lemma feed_part:
  assumes "ttl_replace_ok T" "mode st = Normal" "type_t e = T_regex \<Longrightarrow> expr_ok (equals_str e)"
  shows "rx_feed st (fst (build_part T e)) =
    Inr (add_items (st\<lparr>ngroups := ngroups st + length (part_keys e)\<rparr>) (part_items (ngroups st) e))"
  using assms(2,3)
  by (cases "type_t e")
     (simp_all add: build_part_def part_keys_def part_items_def escape_loop_eq [OF assms(1)]
        feed_literal feed_segment [unfolded append_Cons append_Nil] feed_expr [unfolded append_Cons append_Nil]
        del: rx_feed.simps(2))

lemma feed_parts:
  assumes "ttl_replace_ok T" "mode st = Normal" "exprs_ok info"
  shows "rx_feed st (join_with ([CHR 0x5C] @ ''/'') (map (\<lambda>e. fst (build_part T e)) info)) =
    Inr (add_items (st\<lparr>ngroups := ngroups st + length (route_keys info)\<rparr>) (body_items (ngroups st) info))"
  using assms(2,3)
proof (induction "ngroups st" info arbitrary: st rule: body_items.induct)
  case 1
  then show ?case by (simp add: route_keys_def)
next
  case (2 e)
  then show ?case using assms(1) by (simp add: feed_part route_keys_def)
next
  case (3 e f es)
  let ?st = "add_item (add_items (st\<lparr>ngroups := ngroups st + length (part_keys e)\<rparr>) (part_items (ngroups st) e))
     (Rx_char (CHR ''/'')) Q_atom"
  have "rx_feed ?st (join_with ([CHR 0x5C] @ ''/'') (map (\<lambda>e. fst (build_part T e)) (f # es))) =
      Inr (add_items (?st\<lparr>ngroups := ngroups ?st + length (route_keys (f # es))\<rparr>)
        (body_items (ngroups ?st) (f # es)))"
    using 3 by (intro 3(1)) simp_all
  then show ?case using 3 assms(1)
    by (simp add: rx_feed_append feed_part feed_escaped add_items_append add_items_ngroups route_keys_def
          add_item_ngroups add.assoc del: rx_feed.simps(2))
qed

lemma rx_compile_route:
  assumes "ttl_replace_ok T" "ttl_join_ok T" "exprs_ok info"
  shows "rx_compile (fst (build_route_regex T info keys)) = Inr (route_rx info, length (route_keys info))"
proof -
  define body where "body = join_with ([CHR 0x5C] @ ''/'') (map (\<lambda>e. fst (build_part T e)) info)"
  define st where "st = add_item (add_item rx_init Rx_bol Q_none) (Rx_char (CHR ''/'')) Q_atom"
  have st: "mode st = Normal" "ngroups st = 0" "frames st = []"
    "cur st = \<lparr>f_group = None, f_alts = None, f_items = [Rx_char (CHR ''/''), Rx_bol]\<rparr>"
    by (simp_all add: st_def rx_init_def empty_frame_def)
  have start: "rx_feed rx_init (''^'' @ [CHR 0x5C] @ ''/'' @ body @ ''$'') = rx_feed st (body @ ''$'')"
    unfolding append_Cons append_Nil
    by (subst rx_feed.simps(2))
       (simp add: st_def rx_step_def step_normal_special rx_init_def feed_escaped del: rx_feed.simps(2))
  have "rx_feed st body = Inr (add_items (st\<lparr>ngroups := length (route_keys info)\<rparr>) (body_items 0 info))"
    using feed_parts [OF assms(1) st(1) assms(3)] by (simp add: st body_def)
  then have "rx_feed rx_init (''^'' @ [CHR 0x5C] @ ''/'' @ body @ ''$'') =
      Inr (add_item (add_items (st\<lparr>ngroups := length (route_keys info)\<rparr>) (body_items 0 info)) Rx_eol Q_none)"
    unfolding start by (simp add: rx_feed_append rx_step_def step_normal_special st)
  then show ?thesis
    by (simp add: rx_compile_def build_route_regex_eq [OF assms(2)] body_def [simplified] st
          finish_frame_def alt_of_def route_rx_def)
qed

section \<open>Matching a path\<close>

text \<open>
  The specification: the path without its leading slash is cut at the slashes and compared
  with the pattern segment by segment. A literal segment is matched by itself, a parameter by
  anything but nothing, a parameter with an expression by what the expression, with the
  question mark, matches alone. The values of the named parameters are collected.
\<close>

definition segment_ok :: "route_match_info \<Rightarrow> string \<Rightarrow> bool" where
  "segment_ok e w =
     (case type_t e of
        T_equals \<Rightarrow> w = equals_str e
      | T_match_all \<Rightarrow> w \<noteq> []
      | T_regex \<Rightarrow> (case regex_match (expr_rx (equals_str e)) w of None \<Rightarrow> False | Some _ \<Rightarrow> True))"

fun match_segments :: "route_match_info list \<Rightarrow> string list \<Rightarrow> string list option" where
  "match_segments [] [] = Some []"
| "match_segments (e # es) (w # ws) =
     (if segment_ok e w
      then map_option (\<lambda>vs. if part_keys e = [] then vs else w # vs) (match_segments es ws)
      else None)"
| "match_segments _ _ = None"

lemma match_segments_ends [simp]:
  "match_segments [] ws = (if ws = [] then Some [] else None)"
  "match_segments (e # es) [] = None"
  by (cases ws; simp)+

definition literals_ok :: "route_match_info list \<Rightarrow> bool" where
  "literals_ok info \<longleftrightarrow> (\<forall>e \<in> set info. type_t e = T_equals \<longrightarrow> CHR ''/'' \<notin> set (equals_str e))"

lemma literals_ok_simps [simp]:
  "literals_ok []"
  "literals_ok (e # es) \<longleftrightarrow> (type_t e = T_equals \<longrightarrow> CHR ''/'' \<notin> set (equals_str e)) \<and> literals_ok es"
  by (auto simp: literals_ok_def)

fun put_captures :: "nat \<Rightarrow> string list \<Rightarrow> captures \<Rightarrow> captures" where
  "put_captures g [] c = c"
| "put_captures g (v # vs) c = put_captures (Suc g) vs (c(Suc g \<mapsto> v))"

lemma put_captures_low: "i \<le> g \<Longrightarrow> put_captures g vs c i = c i"
  by (induction vs arbitrary: g c) auto

lemma put_captures_nth: "i < length vs \<Longrightarrow> put_captures g vs c (Suc (g + i)) = Some (vs ! i)"
proof (induction vs arbitrary: g c i)
  case (Cons v vs)
  show ?case
  proof (cases i)
    case 0
    then show ?thesis by (simp add: put_captures_low)
  next
    case (Suc j)
    then show ?thesis using Cons.IH [of j "Suc g"] Cons.prems by simp
  qed
qed simp

lemma match_segments_length: "match_segments info ws = Some vs \<Longrightarrow> length vs = length (route_keys info)"
proof (induction info ws arbitrary: vs rule: match_segments.induct)
  case (2 e es w ws)
  then show ?case by (auto simp: route_keys_def part_keys_def split: if_splits)
qed (auto simp: route_keys_def)

abbreviation stops :: "(string \<Rightarrow> captures \<Rightarrow> 'a option) \<Rightarrow> bool" where
  "stops k \<equiv> (\<forall>s c. s \<noteq> [] \<longrightarrow> hd s \<noteq> CHR ''/'' \<longrightarrow> k s c = None)"

lemma run_segment:
  assumes "stops k"
  shows "rx_run n (Rx_group g segment_rx) t c k =
    (let w = takeWhile (\<lambda>x. x \<noteq> CHR ''/'') t
     in if w = [] then None
        else k (dropWhile (\<lambda>x. x \<noteq> CHR ''/'') t) (case g of None \<Rightarrow> c | Some i \<Rightarrow> c(i \<mapsto> w)))"
proof -
  let ?k = "\<lambda>s' c'. k s' (case g of None \<Rightarrow> c' | Some i \<Rightarrow> c'(i \<mapsto> take (length t - length s') t))"
  have "rx_run n (Rx_group g segment_rx) t c k =
      rx_run n (Rx_rep (Rx_class True [Single (CHR ''/'')]) 1 None False) t c ?k"
    by (simp add: segment_rx_def run_seq)
  also have "\<dots> = (if takeWhile (\<lambda>x. x \<noteq> CHR ''/'') t = [] then None else ?k (dropWhile (\<lambda>x. x \<noteq> CHR ''/'') t) c)"
    using assms by (intro run_lazy_class1) simp
  also have "take (length t - length (dropWhile (\<lambda>x. x \<noteq> CHR ''/'') t)) t = takeWhile (\<lambda>x. x \<noteq> CHR ''/'') t"
    by (metis add_diff_cancel_right' append_eq_conv_conj length_append takeWhile_dropWhile_id)
  finally show ?thesis by (simp add: Let_def)
qed

lemma run_literal:
  assumes "stops k" "CHR ''/'' \<notin> set e"
  shows "rx_run n (seq_of (map Rx_char e)) t c k =
    (if takeWhile (\<lambda>x. x \<noteq> CHR ''/'') t = e then k (dropWhile (\<lambda>x. x \<noteq> CHR ''/'') t) c else None)"
proof (cases "take (length e) t = e")
  case True
  then obtain r where t: "t = e @ r" by (metis append_take_drop_id)
  show ?thesis
  proof (cases "r = [] \<or> hd r = CHR ''/''")
    case True
    then show ?thesis using assms(2) by (cases r) (auto simp: run_chars t)
  next
    case False
    then have "k r c = None" "takeWhile (\<lambda>x. x \<noteq> CHR ''/'') t \<noteq> e"
      using assms by (auto simp: t takeWhile_append neq_Nil_conv split: if_splits)
    then show ?thesis by (simp add: run_chars t)
  qed
next
  case False
  then have "takeWhile (\<lambda>x. x \<noteq> CHR ''/'') t \<noteq> e"
    by (metis append_eq_conv_conj takeWhile_dropWhile_id)
  with False show ?thesis by (simp add: run_chars)
qed

lemma run_part:
  assumes "stops k" "type_t e = T_regex \<Longrightarrow> expr_ok (equals_str e)"
    "type_t e = T_equals \<Longrightarrow> CHR ''/'' \<notin> set (equals_str e)"
  shows "rx_run n (seq_of (part_items g e)) t c k =
    (let w = takeWhile (\<lambda>x. x \<noteq> CHR ''/'') t
     in if segment_ok e w
        then k (dropWhile (\<lambda>x. x \<noteq> CHR ''/'') t) (if part_keys e = [] then c else c(Suc g \<mapsto> w)) else None)"
proof (cases "type_t e")
  case T_equals
  then show ?thesis using assms(3)
    by (simp add: part_items_def run_literal [OF assms(1)] segment_ok_def part_keys_def Let_def)
next
  case T_match_all
  then show ?thesis
    by (simp add: part_items_def run_segment [OF assms(1)] run_seq segment_ok_def part_keys_def Let_def del: rx_run.simps(7))
next
  case T_regex
  then have ok: "plain (expr_rx (equals_str e))" "avoids (CHR ''/'') (expr_rx (equals_str e))"
    using assms(2) expr_okD by blast+
  have "rx_run n (Rx_group i (expr_rx (equals_str e))) t c k =
    (let w = takeWhile (\<lambda>x. x \<noteq> CHR ''/'') t
     in if regex_match (expr_rx (equals_str e)) w = None then None
        else k (dropWhile (\<lambda>x. x \<noteq> CHR ''/'') t) (case i of None \<Rightarrow> c | Some j \<Rightarrow> c(j \<mapsto> w)))" for i
    by (rule run_group [OF ok]) (use assms(1) in blast)
  then show ?thesis using T_regex
    by (simp add: part_items_def run_seq segment_ok_def part_keys_def Let_def del: rx_run.simps(7) split: option.split)
qed

abbreviation at_end :: "string \<Rightarrow> captures \<Rightarrow> captures option" where
  "at_end \<equiv> (\<lambda>s c. if s = [] then Some c else None)"

text \<open>A text up to the first slash and what follows it.\<close>

lemma slash_cases:
  obtains "CHR ''/'' \<notin> set t" "split_on (CHR ''/'') t = [t]"
    "takeWhile (\<lambda>x. x \<noteq> CHR ''/'') t = t" "dropWhile (\<lambda>x. x \<noteq> CHR ''/'') t = []"
  | w t' where "CHR ''/'' \<notin> set w" "split_on (CHR ''/'') t = w # split_on (CHR ''/'') t'"
    "takeWhile (\<lambda>x. x \<noteq> CHR ''/'') t = w" "dropWhile (\<lambda>x. x \<noteq> CHR ''/'') t = CHR ''/'' # t'"
proof (cases "CHR ''/'' \<in> set t")
  case True
  then obtain w t' where t: "t = w @ CHR ''/'' # t'" "CHR ''/'' \<notin> set w" by (meson split_list_first)
  then show ?thesis by (intro that(2) [of w t']) (simp_all add: split_on_append)
next
  case False
  then show ?thesis by (intro that(1)) (simp_all add: split_on_no_sep)
qed

lemma run_body:
  assumes "info \<noteq> []" "exprs_ok info" "literals_ok info"
  shows "rx_run n (seq_of (body_items g info @ [Rx_eol])) t c at_end =
    map_option (\<lambda>vs. put_captures g vs c) (match_segments info (split_on (CHR ''/'') t))"
  using assms
proof (induction g info arbitrary: t c rule: body_items.induct)
  case (2 g e)
  let ?k = "\<lambda>s c. rx_run n (seq_of [Rx_eol]) s c at_end"
  have k: "?k s c = (if s = [] then Some c else None)" for s c by (simp add: run_seq)
  have "rx_run n (seq_of (body_items g [e] @ [Rx_eol])) t c at_end = rx_run n (seq_of (part_items g e)) t c ?k"
    by (simp add: run_seq)
  also have "\<dots> = map_option (\<lambda>vs. put_captures g vs c) (match_segments [e] (split_on (CHR ''/'') t))"
    unfolding k
    by (insert 2, rule slash_cases [where t = t]; subst run_part) (auto simp: Let_def)
  finally show ?case .
next
  case (3 g e f es)
  let ?k = "\<lambda>s c. rx_run n (seq_of (Rx_char (CHR ''/'') # body_items (g + length (part_keys e)) (f # es) @ [Rx_eol])) s c at_end"
  define m where "m = match_segments (f # es)"
  have k: "?k s c = (case s of [] \<Rightarrow> None | x # t' \<Rightarrow> if x = CHR ''/'' then
      map_option (\<lambda>vs. put_captures (g + length (part_keys e)) vs c) (m (split_on (CHR ''/'') t')) else None)" for s c
    using 3 by (simp add: run_seq m_def split: list.split)
  have stop: "stops ?k" unfolding k by (auto split: list.split)
  have "rx_run n (seq_of (body_items g (e # f # es) @ [Rx_eol])) t c at_end =
      rx_run n (seq_of (part_items g e)) t c ?k" by (simp add: run_seq)
  also have "\<dots> = map_option (\<lambda>vs. put_captures g vs c) (match_segments (e # f # es) (split_on (CHR ''/'') t))"
    unfolding k
    by (insert 3(3,4), rule slash_cases [where t = t]; subst run_part [OF stop [unfolded k]])
       (auto simp: Let_def m_def part_keys_def option.map_comp comp_def)
  finally show ?case .
qed simp

text \<open>An empty pattern is the pattern of one empty literal segment.\<close>

definition norm_info :: "route_match_info list \<Rightarrow> route_match_info list" where
  "norm_info info =
     (if info = [] then [\<lparr>type_t = T_equals, param_name = [], equals_str = []\<rparr>] else info)"

lemma route_rx_norm: "route_rx (norm_info info) = route_rx info"
  by (simp add: norm_info_def route_rx_def part_items_def)

lemma route_keys_norm: "route_keys (norm_info info) = route_keys info"
  by (simp add: norm_info_def route_keys_def part_keys_def)

definition match_path :: "route_match_info list \<Rightarrow> string \<Rightarrow> string list option" where
  "match_path info p =
     (case p of
        [] \<Rightarrow> None
      | c # t \<Rightarrow> if c = CHR ''/'' then match_segments (norm_info info) (split_on (CHR ''/'') t) else None)"

lemma regex_match_route:
  assumes "exprs_ok info" "literals_ok info"
  shows "regex_match (route_rx info) p = map_option (\<lambda>vs. put_captures 0 vs (\<lambda>_. None)) (match_path info p)"
proof -
  have ok: "norm_info info \<noteq> []" "exprs_ok (norm_info info)" "literals_ok (norm_info info)"
    using assms by (simp_all add: norm_info_def)
  have "regex_match (route_rx (norm_info info)) p = map_option (\<lambda>vs. put_captures 0 vs (\<lambda>_. None)) (match_path info p)"
    unfolding regex_match_def route_rx_def
    by (simp add: seq_of_Cons run_body [OF ok] match_path_def split: list.split)
  then show ?thesis by (simp add: route_rx_norm)
qed

lemma captures_of_match:
  assumes "exprs_ok info" "match_path info p = Some vs" "m = length (route_keys info)"
  shows "map (capture_str (put_captures 0 vs (\<lambda>_. None))) [1..<Suc m] = vs"
proof (rule nth_equalityI)
  have "exprs_ok (norm_info info)" using assms(1) by (simp add: norm_info_def)
  then show l: "length (map (capture_str (put_captures 0 vs (\<lambda>_. None))) [1..<Suc m]) = length vs"
    using assms(2,3) match_segments_length [of "norm_info info" _ vs]
    by (auto simp: match_path_def route_keys_norm simp del: upt_Suc split: list.splits if_splits)
  fix i
  assume "i < length (map (capture_str (put_captures 0 vs (\<lambda>_. None))) [1..<Suc m])"
  then show "map (capture_str (put_captures 0 vs (\<lambda>_. None))) [1..<Suc m] ! i = vs ! i"
    using put_captures_nth [of i vs 0] l by (simp add: capture_str_def del: upt_Suc)
qed

text \<open>\<^verbatim>\<open>split\<close> yields pieces without the separator.\<close>

definition ttl_split_ok :: "ttl \<Rightarrow> bool" where
  "ttl_split_ok T \<longleftrightarrow> (\<forall>s c w. w \<in> set (ttl_split T s [c]) \<longrightarrow> c \<notin> set w)"

lemma ttl_ref_split_ok: "ttl_split_ok ttl_ref"
  by (auto simp: ttl_split_ok_def ttl_ref_def split_on_parts)

lemma parse_route_literals:
  assumes "ttl_split_ok T" "parse_route T uri = Inr info"
  shows "literals_ok info"
  using assms
  by (auto simp: parse_route_eq literals_ok_def ttl_split_ok_def part_spec_def Let_def split: if_splits)

section \<open>Properties\<close>

text \<open>
  C8. The expression built from a route pattern compiles, has one capturing group per key, and
  matches exactly the paths whose segments the pattern describes, yielding the values that the
  comparison segment by segment yields: a literal is matched by itself only, whatever special
  characters it has, a parameter by any segment but the empty one, a parameter with an
  expression by the segments that this expression matches alone, with the question mark that
  \<^verbatim>\<open>build_route_regex\<close> appends. This makes a quantifier at its end lazy, but the last term of
  any other expression optional: see \<open>regex_parameter_optional\<close>. The expressions have to
  compile alone, without captures and anchors, and must not be able to read a slash.
\<close>

theorem route_pattern_correct:
  assumes "ttl_replace_ok T" "ttl_join_ok T" "ttl_split_ok T"
    and "parse_route T uri = Inr info" "exprs_ok info"
  shows "\<exists>r. rx_compile (fst (build_route_regex T info [])) = Inr (r, length (snd (build_route_regex T info [])))
    \<and> (\<forall>p. map_option (\<lambda>c. map (capture_str c) [1..<Suc (length (snd (build_route_regex T info [])))]) (regex_match r p)
          = match_path info p)"
proof -
  have keys: "snd (build_route_regex T info []) = route_keys info"
    by (simp add: build_route_regex_eq [OF assms(2)])
  have lits: "literals_ok info" by (rule parse_route_literals [OF assms(3,4)])
  have "map_option (\<lambda>c. map (capture_str c) [1..<Suc (length (route_keys info))]) (regex_match (route_rx info) p)
      = match_path info p" for p
    using captures_of_match [OF assms(5) _ refl, of p]
    by (cases "match_path info p") (simp_all add: regex_match_route [OF assms(5) lits] del: upt_Suc)
  then show ?thesis
    using rx_compile_route [OF assms(1,2,5)] unfolding keys by blast
qed

theorem route_pattern_correct_witness:
  "\<exists>r. rx_compile (fst (build_route_regex ttl_ref
         [\<lparr>type_t = T_equals, param_name = [], equals_str = ''a.b''\<rparr>,
          \<lparr>type_t = T_regex, param_name = ''id'', equals_str = ''x|[0-9]+''\<rparr>,
          \<lparr>type_t = T_match_all, param_name = ''file'', equals_str = []\<rparr>] [])) = Inr (r, 2)
     \<and> map_option (\<lambda>c. map (capture_str c) [1..<Suc 2]) (regex_match r ''/a.b/42/f'') = Some [''42'', ''f'']
     \<and> map_option (\<lambda>c. map (capture_str c) [1..<Suc 2]) (regex_match r ''/a.b/4x/f'') = None
     \<and> map_option (\<lambda>c. map (capture_str c) [1..<Suc 2]) (regex_match r ''/axb/42/f'') = None"
proof -
  let ?info = "[\<lparr>type_t = T_equals, param_name = [], equals_str = ''a.b''\<rparr>,
    \<lparr>type_t = T_regex, param_name = ''id'', equals_str = ''x|[0-9]+''\<rparr>,
    \<lparr>type_t = T_match_all, param_name = ''file'', equals_str = []\<rparr>]"
  have i: "parse_route ttl_ref ''/a.b/{id:x|[0-9]+}/{file}'' = Inr ?info" by code_simp
  have k: "length (snd (build_route_regex ttl_ref ?info [])) = 2" by code_simp
  have "expr_ok ''x|[0-9]+''" by code_simp
  then have ok: "exprs_ok ?info" by simp
  have m: "match_path ?info ''/a.b/42/f'' = Some [''42'', ''f'']" "match_path ?info ''/a.b/4x/f'' = None"
    "match_path ?info ''/axb/42/f'' = None" by code_simp+
  show ?thesis
    using route_pattern_correct [OF ttl_ref_ok ttl_ref_split_ok i ok, unfolded k] m by metis
qed

text \<open>
  Escaping is exact: for every literal text, whatever special characters it holds, the
  escaped text compiles to an expression that matches this text and nothing else.
\<close>

theorem escape_literal_exact:
  assumes "ttl_replace_ok T"
  shows "\<exists>r. rx_compile (escape_loop T lit escaped_chars) = Inr (r, 0) \<and> (\<forall>p. regex_match r p \<noteq> None \<longleftrightarrow> p = lit)"
proof -
  have "rx_compile (escape_loop T lit escaped_chars) = Inr (seq_of (map Rx_char lit), 0)"
    by (simp add: rx_compile_def escape_loop_eq [OF assms] feed_literal rx_init_def finish_frame_def
          empty_frame_def alt_of_def)
  moreover have "regex_match (seq_of (map Rx_char lit)) p \<noteq> None \<longleftrightarrow> p = lit" for p
    by (auto simp: regex_match_def run_chars)
  ultimately show ?thesis by blast
qed

theorem escape_literal_exact_witness:
  "\<exists>r. rx_compile (escape_loop ttl_ref ''a+(b)$'' escaped_chars) = Inr (r, 0)
     \<and> regex_match r ''a+(b)$'' \<noteq> None \<and> regex_match r ''aa(b)$'' = None"
proof -
  obtain r where "rx_compile (escape_loop ttl_ref ''a+(b)$'' escaped_chars) = Inr (r, 0)"
    and r: "\<And>p. regex_match r p \<noteq> None \<longleftrightarrow> p = ''a+(b)$''"
    using escape_literal_exact [OF ttl_ref_ok(1), of "''a+(b)$''"] by blast
  moreover have "regex_match r ''a+(b)$'' \<noteq> None" "regex_match r ''aa(b)$'' = None"
    using r [of "''a+(b)$''"] r [of "''aa(b)$''"] by simp_all
  ultimately show ?thesis by blast
qed

text \<open>
  The lazy marker appended to a user's expression changes its meaning when the
  expression does not end in a quantifier: a parameter constrained to one digit also
  accepts the empty segment.
\<close>

theorem regex_parameter_optional:
  assumes "ttl_join_ok T"
  shows "\<exists>r. rx_compile (fst (build_route_regex T
        [\<lparr>type_t = T_regex, param_name = ''id'', equals_str = ''[0-9]''\<rparr>] [])) = Inr (r, 1)
    \<and> regex_match r ''/7'' \<noteq> None \<and> regex_match r ''/'' \<noteq> None \<and> regex_match r ''/x'' = None"
proof -
  have "fst (build_route_regex T [\<lparr>type_t = T_regex, param_name = ''id'', equals_str = ''[0-9]''\<rparr>] [])
      = ''^'' @ [CHR 0x5C] @ ''/([0-9]?)$''"
    by (simp add: build_route_regex_eq [OF assms] build_part_def)
  moreover have "\<exists>r. rx_compile (''^'' @ [CHR 0x5C] @ ''/([0-9]?)$'') = Inr (r, 1)
    \<and> regex_match r ''/7'' \<noteq> None \<and> regex_match r ''/'' \<noteq> None \<and> regex_match r ''/x'' = None"
  proof -
    let ?r = "seq_of [Rx_bol, Rx_char (CHR ''/''),
      Rx_group (Some 1) (seq_of [Rx_rep (Rx_class False [Range (CHR ''0'') (CHR ''9'')]) 0 (Some 1) True]), Rx_eol]"
    have "rx_compile (''^'' @ [CHR 0x5C] @ ''/([0-9]?)$'') = Inr (?r, 1)" by code_simp
    moreover have "regex_match ?r ''/7'' \<noteq> None" "regex_match ?r ''/'' \<noteq> None" "regex_match ?r ''/x'' = None"
      by (simp_all add: regex_match_def run_seq rx_run.simps(10) class_matches_def code_of_def)
    ultimately show ?thesis by blast
  qed
  ultimately show ?thesis by simp
qed

theorem regex_parameter_optional_witness:
  "\<exists>r. rx_compile (fst (build_route_regex ttl_ref
        [\<lparr>type_t = T_regex, param_name = ''id'', equals_str = ''[0-9]''\<rparr>] [])) = Inr (r, 1)
    \<and> regex_match r ''/'' \<noteq> None"
  using regex_parameter_optional [OF ttl_ref_ok(2)] by blast

end
