(* ===== verification/Mime_Table.thy ===== *)
theory Mime_Table imports Prelude
begin

text \<open>
  \<^verbatim>\<open>http/mime.h\<close>: the table from file extensions to content types, read from a
  \<^verbatim>\<open>mime.types\<close> file whose lines are a type, blanks, and the extensions it covers.
\<close>

type_synonym mime = "string \<Rightarrow> string option"

definition find_first_of :: "string \<Rightarrow> string \<Rightarrow> nat option" where
  "find_first_of s cs =
     (let n = length (takeWhile (\<lambda>c. c \<notin> set cs) s) in if n < length s then Some n else None)"

text \<open>What \<^verbatim>\<open>std::getline\<close> delivers until it fails: a final line break opens no further line.\<close>

definition getlines :: "string \<Rightarrow> string list" where
  "getlines s = (let ls = split_on (CHR 0x0A) s in if last ls = [] then butlast ls else ls)"

fun add_types :: "ttl \<Rightarrow> string \<Rightarrow> string list \<Rightarrow> mime \<Rightarrow> mime" where
  "add_types T type [] m = m"
| "add_types T type (ext # exts) m =
     (let ext = ttl_trim T ext
      in if ext = [] then add_types T type exts m
         else add_types T type exts (m(ext \<mapsto> type)))"

text \<open>The result is the table, filled so far, and the value returned.\<close>

fun load_lines :: "ttl \<Rightarrow> mime \<Rightarrow> string list \<Rightarrow> mime \<times> bool" where
  "load_lines T m [] = (m, True)"
| "load_lines T m (l # ls) =
     (let line = ttl_trim T l
      in if char_at line 0 = Inr (CHR ''#'') then load_lines T m ls
         else (case find_first_of line [CHR '' '', CHR 0x09] of
                 None \<Rightarrow> (m, False)
               | Some pos \<Rightarrow>
                   (let type = take pos line;
                        rest = ttl_ltrim T (drop pos line)
                    in load_lines T (add_types T type (ttl_split T rest '' '') m) ls)))"

definition load_stream :: "ttl \<Rightarrow> mime \<Rightarrow> string \<Rightarrow> mime \<times> bool" where
  "load_stream T m s = load_lines T m (getlines s)"

definition load_file :: "ttl \<Rightarrow> mime \<Rightarrow> string option \<Rightarrow> mime \<times> bool" where
  "load_file T m contents = (case contents of None \<Rightarrow> (m, False) | Some s \<Rightarrow> load_stream T m s)"

definition has_type :: "mime \<Rightarrow> string \<Rightarrow> bool" where
  "has_type m ext \<longleftrightarrow> m ext \<noteq> None"

definition get_type :: "mime \<Rightarrow> string \<Rightarrow> string" where
  "get_type m ext = (case m ext of Some t \<Rightarrow> t | None \<Rightarrow> ''application/binary'')"

text \<open>The constructors of the middleware refuse a table that did not load.\<close>

definition mime_type_file :: "ttl \<Rightarrow> string option \<Rightarrow> mime result" where
  "mime_type_file T contents =
     (let (m, ok) = load_file T Map.empty contents
      in if ok then Inr m else Inl (Std_exception ''Failed to load mime file''))"

definition mime_type_stream :: "ttl \<Rightarrow> string \<Rightarrow> mime result" where
  "mime_type_stream T s =
     (let (m, ok) = load_stream T Map.empty s
      in if ok then Inr m else Inl (Std_exception ''Failed to load mime stream''))"

section \<open>The wrapper of libmagic\<close>

text \<open>
  \<^verbatim>\<open>class magic\<close> of \<^verbatim>\<open>src/http/mw/mime_type.cpp\<close>: what libmagic answers is a parameter. The
  constructor is given with the number of cookies that are open after it; when it throws, the destructor does not run.
\<close>

record magic_lib =
  mg_open :: bool
  mg_load :: bool
  mg_error :: string
  mg_file :: "string \<Rightarrow> string option"
  mg_buffer :: "string \<Rightarrow> string option"

definition new_magic :: "magic_lib \<Rightarrow> unit result \<times> nat" where
  "new_magic M =
     (if \<not> mg_open M then (Inl (Std_exception ''failed to init magic library''), 0)
      else if \<not> mg_load M then (Inl (Std_exception (''cannot load magic database - '' @ mg_error M)), 0)
      else (Inr (), 1))"

definition check_file :: "magic_lib \<Rightarrow> string \<Rightarrow> string" where
  "check_file M filename = (case mg_file M filename of None \<Rightarrow> [] | Some r \<Rightarrow> r)"

definition check_buffer :: "magic_lib \<Rightarrow> string \<Rightarrow> string" where
  "check_buffer M buf = (case mg_buffer M buf of None \<Rightarrow> [] | Some r \<Rightarrow> r)"

lemma magic_cookies: "snd (new_magic M) = (case fst (new_magic M) of Inl e \<Rightarrow> 0 | Inr _ \<Rightarrow> 1)"
  by (simp add: new_magic_def)

section \<open>What a table file means\<close>

text \<open>The documented behaviour of the string helpers that the loader relies on.\<close>

definition trim_ref :: "string \<Rightarrow> string" where
  "trim_ref s = rev (dropWhile is_blank (rev (dropWhile is_blank s)))"

definition ttl_blanks_ok :: "ttl \<Rightarrow> bool" where
  "ttl_blanks_ok T \<longleftrightarrow>
     (\<forall>s. ttl_trim T s = trim_ref s) \<and> (\<forall>s. ttl_ltrim T s = dropWhile is_blank s) \<and>
     (\<forall>s. filter (\<lambda>w. w \<noteq> []) (ttl_split T s '' '') = filter (\<lambda>w. w \<noteq> []) (split_on (CHR '' '') s))"

lemma ttl_ref_blanks_ok [simp]: "ttl_blanks_ok ttl_ref"
  by (simp add: ttl_blanks_ok_def ttl_ref_def trim_ref_def)

lemma trim_ref_id: "s \<noteq> [] \<Longrightarrow> \<not> is_blank (hd s) \<Longrightarrow> \<not> is_blank (last s) \<Longrightarrow> trim_ref s = s"
  by (cases s rule: rev_cases; cases s) (simp_all add: trim_ref_def, metis append_is_Nil_conv hd_append2 hd_rev list.discI list.sel(1) rev.simps(2) rev_rev_ident dropWhile.simps(2))

lemma trim_ref_word: "\<forall>c \<in> set s. \<not> is_blank c \<Longrightarrow> trim_ref s = s"
  by (cases "s = []") (auto simp: trim_ref_id, simp add: trim_ref_def)

definition word :: "string \<Rightarrow> bool" where
  "word s \<longleftrightarrow> s \<noteq> [] \<and> (\<forall>c \<in> set s. \<not> is_blank c)"

lemma add_types_filter:
  assumes "trim_ref [] = []" "ttl_blanks_ok T"
  shows "add_types T t es m = add_types T t (filter (\<lambda>w. w \<noteq> []) es) m"
  using assms(2) by (induction es arbitrary: m) (auto simp: ttl_blanks_ok_def assms(1) Let_def)

lemma add_types_words:
  assumes "ttl_blanks_ok T" "list_all word es"
  shows "add_types T t es m = (\<lambda>e. if e \<in> set es then Some t else m e)"
  using assms
  by (induction es arbitrary: m) (auto simp: fun_eq_iff ttl_blanks_ok_def word_def trim_ref_word Let_def)

lemma find_first_of_word:
  "word t \<Longrightarrow> is_blank b \<Longrightarrow> b \<in> set cs \<Longrightarrow> (\<And>c. c \<in> set cs \<Longrightarrow> is_blank c)
     \<Longrightarrow> find_first_of (t @ b # s) cs = Some (length t)"
proof -
  assume a: "word t" "is_blank b" "b \<in> set cs" "\<And>c. c \<in> set cs \<Longrightarrow> is_blank c"
  then have "\<forall>c \<in> set t. c \<notin> set cs" by (auto simp: word_def)
  then have "takeWhile (\<lambda>c. c \<notin> set cs) (t @ b # s) = t"
    using a(3) by (simp add: takeWhile_append2)
  then show ?thesis by (simp add: find_first_of_def)
qed

text \<open>A line that defines the extensions \<open>es\<close> of the type \<open>t\<close>, and the file that has these lines.\<close>

definition type_line :: "string \<times> string list \<Rightarrow> string" where
  "type_line d = fst d @ CHR 0x09 # join_with '' '' (snd d)"

definition type_file :: "(string \<times> string list) list \<Rightarrow> string" where
  "type_file ds = concat (map (\<lambda>d. type_line d @ [CHR 0x0A]) ds)"

definition type_def_ok :: "string \<times> string list \<Rightarrow> bool" where
  "type_def_ok d \<longleftrightarrow> word (fst d) \<and> hd (fst d) \<noteq> CHR ''#'' \<and> snd d \<noteq> [] \<and> list_all word (snd d)"

definition last_type :: "(string \<times> string list) list \<Rightarrow> string \<Rightarrow> string option" where
  "last_type ds ext = map_option fst (find (\<lambda>d. ext \<in> set (snd d)) (rev ds))"

lemma join_words:
  assumes "ws \<noteq> []" "list_all word ws"
  shows "join_with '' '' ws \<noteq> []" "\<not> is_blank (hd (join_with '' '' ws))"
    "\<not> is_blank (last (join_with '' '' ws))" "CHR 0x0A \<notin> set (join_with '' '' ws)"
    "split_on (CHR '' '') (join_with '' '' ws) = ws"
proof -
  have nonblank: "w \<noteq> [] \<and> \<not> is_blank (hd w) \<and> \<not> is_blank (last w) \<and> CHR 0x0A \<notin> set w" if "word w" for w
    using that by (auto simp: word_def is_blank_def)
  show "join_with '' '' ws \<noteq> []" "\<not> is_blank (hd (join_with '' '' ws))"
    "\<not> is_blank (last (join_with '' '' ws))" "CHR 0x0A \<notin> set (join_with '' '' ws)"
    using assms
  proof (induction ws)
    case (Cons w ws)
    {
      case 1 then show ?case using Cons nonblank [of w] by (cases ws) auto
    next
      case 2 then show ?case using Cons nonblank [of w] by (cases ws) auto
    next
      case 3 then show ?case using Cons nonblank [of w] by (cases ws) auto
    next
      case 4 then show ?case using Cons nonblank [of w] by (cases ws) auto
    }
  qed simp_all
  show "split_on (CHR '' '') (join_with '' '' ws) = ws"
    using assms by (intro split_join) (auto simp: list_all_iff word_def is_blank_def)
qed

lemma load_type_line:
  assumes "ttl_blanks_ok T" "type_def_ok d"
  shows "load_lines T m (type_line d # ls) =
    load_lines T (\<lambda>e. if e \<in> set (snd d) then Some (fst d) else m e) ls"
proof -
  obtain t ws where d: "d = (t, ws)" by (cases d)
  then have w: "word t" "hd t \<noteq> CHR ''#''" "ws \<noteq> []" "list_all word ws"
    using assms(2) by (auto simp: type_def_ok_def)
  let ?j = "join_with '' '' ws"
  have j: "?j \<noteq> []" "\<not> is_blank (hd ?j)" "\<not> is_blank (last ?j)" "split_on (CHR '' '') ?j = ws"
    using join_words [OF w(3,4)] by simp_all
  have line: "type_line d = t @ CHR 0x09 # ?j" by (simp add: d type_line_def)
  have t: "t \<noteq> []" "\<not> is_blank (hd t)" using w(1) by (auto simp: word_def)
  then have "trim_ref (type_line d) = type_line d"
    using j by (intro trim_ref_id) (auto simp: line)
  then have trim: "ttl_trim T (type_line d) = type_line d" using assms(1) by (simp add: ttl_blanks_ok_def)
  have first: "char_at (type_line d) 0 = Inr (hd t)"
    using t(1) by (simp add: char_at_def line hd_conv_nth nth_append)
  have pos: "find_first_of (type_line d) [CHR '' '', CHR 0x09] = Some (length t)"
    unfolding line by (rule find_first_of_word [OF w(1)]) (auto simp: is_blank_def)
  have rest: "ttl_ltrim T (drop (length t) (type_line d)) = ?j"
    using assms(1) j(1,2) by (cases ?j) (auto simp: ttl_blanks_ok_def line is_blank_def)
  have prefix: "take (length t) (type_line (t, ws)) = t" by (simp add: type_line_def)
  have "filter (\<lambda>w. w \<noteq> []) ws = ws" using w(4) by (auto simp: list_all_iff word_def)
  then have "add_types T t (ttl_split T ?j '' '') m = add_types T t ws m"
    using assms(1) j(4) add_types_filter [of T t "ttl_split T ?j '' ''" m]
    by (simp add: ttl_blanks_ok_def trim_ref_def)
  then show ?thesis
    using w trim first pos rest add_types_words [OF assms(1) w(4)] line
    unfolding d fst_conv snd_conv by (simp add: Let_def prefix)
qed

lemma split_type_file:
  assumes "list_all type_def_ok ds"
  shows "split_on (CHR 0x0A) (type_file ds @ s) = map type_line ds @ split_on (CHR 0x0A) s"
proof -
  have free: "CHR 0x0A \<notin> set (type_line d)" if "type_def_ok d" for d
    using that join_words(4) [of "snd d"] by (auto simp: type_def_ok_def type_line_def word_def is_blank_def)
  show ?thesis
    using assms by (induction ds) (auto simp: type_file_def free split_on_append)
qed

lemma load_type_lines:
  assumes "ttl_blanks_ok T" "list_all type_def_ok ds"
  shows "load_lines T Map.empty (map type_line ds @ ls) = load_lines T (last_type ds) ls"
  using assms(2)
proof (induction ds arbitrary: ls rule: rev_induct)
  case (snoc d ds)
  have "last_type (ds @ [d]) = (\<lambda>e. if e \<in> set (snd d) then Some (fst d) else last_type ds e)"
    by (auto simp: fun_eq_iff last_type_def)
  then show ?case using snoc load_type_line [OF assms(1)] by simp
qed (simp add: last_type_def [abs_def])

text \<open>
  Loading a file of definitions succeeds, and an extension then has the type of the last
  line that names it; the type of any other extension is the default.
\<close>

theorem mime_load_lookup:
  assumes "ttl_blanks_ok T" "list_all type_def_ok ds"
  shows "\<exists>m. mime_type_stream T (type_file ds) = Inr m
    \<and> (\<forall>ext. has_type m ext \<longleftrightarrow> last_type ds ext \<noteq> None)
    \<and> (\<forall>ext. get_type m ext = (case last_type ds ext of Some t \<Rightarrow> t | None \<Rightarrow> ''application/binary''))"
  using split_type_file [OF assms(2), of "[]"] load_type_lines [OF assms, of "[]"]
  by (simp add: mime_type_stream_def load_stream_def getlines_def has_type_def get_type_def)

theorem mime_load_lookup_witness:
  "\<exists>m. mime_type_stream ttl_ref (type_file [(''text/html'', [''htm'', ''html'']), (''a/b'', [''htm''])]) = Inr m
    \<and> get_type m ''htm'' = ''a/b'' \<and> get_type m ''html'' = ''text/html''"
proof -
  let ?ds = "[(''text/html'', [''htm'', ''html'']), (''a/b'', [''htm''])]"
  have "list_all type_def_ok ?ds" by (simp add: type_def_ok_def word_def is_blank_def)
  from mime_load_lookup [OF ttl_ref_blanks_ok this]
  show ?thesis by (auto simp: last_type_def)
qed

text \<open>
  A blank line makes the whole load fail (it is neither a comment nor does it contain a
  separator), so the middleware's constructor throws for such a file.
\<close>

theorem mime_blank_line_rejected:
  assumes "ttl_blanks_ok T" "list_all type_def_ok ds"
  shows "mime_type_file T (Some (type_file ds @ CHR 0x0A # s)) = Inl (Std_exception ''Failed to load mime file'')"
proof -
  obtain ls where "getlines (type_file ds @ CHR 0x0A # s) = map type_line ds @ [] # ls"
    using split_type_file [OF assms(2), of "CHR 0x0A # s"]
    by (cases "last (split_on (CHR 0x0A) s) = []") (auto simp: getlines_def Let_def butlast_append)
  moreover have "load_lines T m ([] # ls) = (m, False)" for m
    using assms(1) by (simp add: ttl_blanks_ok_def trim_ref_def char_at_def find_first_of_def)
  ultimately show ?thesis
    using load_type_lines [OF assms] by (simp add: mime_type_file_def load_file_def load_stream_def)
qed

theorem mime_blank_line_rejected_witness:
  "mime_type_file ttl_ref (Some (type_file [(''text/html'', [''html''])] @ CHR 0x0A # ''a/b c''))
     = Inl (Std_exception ''Failed to load mime file'')"
  by (rule mime_blank_line_rejected) (simp_all add: type_def_ok_def word_def is_blank_def)

end
