(* ===== verification/Routing_Table.thy ===== *)
theory Routing_Table imports Route_Pattern Mime_Table "HOL-Library.List_Lexorder" "HOL-Library.Char_ord"
begin

text \<open>
  The data of \<^verbatim>\<open>http::router\<close> and the operations that build it: route entries, the table
  \<^verbatim>\<open>routing_info\<close> that a request reads through a shared pointer, and \<^verbatim>\<open>route\<close>, \<^verbatim>\<open>use\<close>,
  \<^verbatim>\<open>set_debug_mode\<close>, \<^verbatim>\<open>notfound\<close>, \<^verbatim>\<open>error\<close> and the shortcuts over them. Every one of them
  copies the table, changes the copy and stores it, so a request that has read the pointer
  keeps its table; in the model an operation maps one value to the next.

  Objects of the application (a handler function, a middleware, a callback) are numbers;
  what they do is given when requests are processed.
\<close>

section \<open>Positions\<close>

datatype pos = Begin | Default | Last

definition pos_value :: "pos \<Rightarrow> int" where
  "pos_value p = (case p of Begin \<Rightarrow> 0 | Default \<Rightarrow> 10 | Last \<Rightarrow> 20)"

lemma pos_value_inject [simp]: "pos_value p = pos_value q \<longleftrightarrow> p = q"
  by (cases p; cases q) (simp_all add: pos_value_def)

instantiation pos :: linorder
begin

definition less_eq_pos :: "pos \<Rightarrow> pos \<Rightarrow> bool" where
  "p \<le> q \<longleftrightarrow> pos_value p \<le> pos_value q"

definition less_pos :: "pos \<Rightarrow> pos \<Rightarrow> bool" where
  "p < q \<longleftrightarrow> pos_value p < pos_value q"

instance
  by standard (auto simp: less_eq_pos_def less_pos_def)

end

section \<open>Handlers and middleware\<close>

text \<open>
  A \<^verbatim>\<open>std::set<std::string>\<close> is the list of its elements in ascending order, the order in
  which it is traversed.
\<close>

definition str_set :: "string list \<Rightarrow> string list" where
  "str_set xs = sort (remdups xs)"

record filesystem_route_handler =
  fh_methods :: "string list"
  fh_routes :: "string list"
  fh_path :: string
  fh_allow_listing :: bool
  fh_fs :: nat

datatype route_handler =
    Function_handler "string list" "string list" nat
  | Filesystem_handler filesystem_route_handler

definition function_route_handler :: "nat \<Rightarrow> string \<Rightarrow> string \<Rightarrow> route_handler" where
  "function_route_handler f route method = Function_handler [method] [route] f"

definition function_route_handler_sets :: "nat \<Rightarrow> string list \<Rightarrow> string list \<Rightarrow> route_handler" where
  "function_route_handler_sets f routes methods = Function_handler (str_set methods) (str_set routes) f"

definition make_filesystem_route_handler ::
    "string \<Rightarrow> bool \<Rightarrow> string \<Rightarrow> nat \<Rightarrow> string \<Rightarrow> filesystem_route_handler" where
  "make_filesystem_route_handler path allow_listing route fs method =
     \<lparr>fh_methods = [method], fh_routes = [route], fh_path = path,
      fh_allow_listing = allow_listing, fh_fs = fs\<rparr>"

definition get_methods :: "route_handler \<Rightarrow> string list" where
  "get_methods h = (case h of Function_handler ms _ _ \<Rightarrow> ms | Filesystem_handler f \<Rightarrow> fh_methods f)"

definition get_routes :: "route_handler \<Rightarrow> string list" where
  "get_routes h = (case h of Function_handler _ rs _ \<Rightarrow> rs | Filesystem_handler f \<Rightarrow> fh_routes f)"

text \<open>The function of a rewriting middleware: the application's own, or the closure over a regex.\<close>

datatype rewrite_fn = User_rewrite nat | Regex_rewrite rx nat string

datatype middleware =
    Rewrite_mw rewrite_fn
  | Logger_mw
  | Mime_mw mime
  | User_mw nat

section \<open>The table\<close>

record route_entry =
  re_regex :: rx
  re_groups :: nat
  re_keys :: "string list"
  re_middleware :: "middleware list"
  re_handler :: route_handler
  re_uri :: string

record routing_info =
  ri_middleware :: "(pos \<times> middleware) list"
  ri_routes :: "string \<Rightarrow> route_entry list option"
  ri_debug_mode :: bool
  ri_notfound :: "nat option"
  ri_error :: "nat option"

definition new_router :: routing_info where
  "new_router =
     \<lparr>ri_middleware = [], ri_routes = Map.empty, ri_debug_mode = False,
      ri_notfound = None, ri_error = None\<rparr>"

text \<open>
  One turn of the loops of \<^verbatim>\<open>route\<close>: the pattern is parsed, its regex built and compiled.
  \<^verbatim>\<open>std::regex\<close> throws \<^verbatim>\<open>regex_error\<close> for a malformed expression.
\<close>

definition make_entry :: "ttl \<Rightarrow> route_handler \<Rightarrow> middleware list \<Rightarrow> string \<Rightarrow> route_entry result" where
  "make_entry T h mw uri =
     ebind (parse_route T uri) (\<lambda>parts.
     let (rx, keys) = build_route_regex T parts []
     in (case rx_compile rx of
           Inl _ \<Rightarrow> Inl (Std_exception ''regex_error'')
         | Inr (r, n) \<Rightarrow>
             Inr \<lparr>re_regex = r, re_groups = n, re_keys = keys, re_middleware = mw,
                  re_handler = h, re_uri = uri\<rparr>))"

definition push_route :: "string \<Rightarrow> route_entry \<Rightarrow> routing_info \<Rightarrow> routing_info" where
  "push_route method e info =
     info\<lparr>ri_routes := (ri_routes info)(method \<mapsto>
       (case ri_routes info method of None \<Rightarrow> [] | Some es \<Rightarrow> es) @ [e])\<rparr>"

fun route_uris :: "ttl \<Rightarrow> route_handler \<Rightarrow> middleware list \<Rightarrow> string \<Rightarrow> string list \<Rightarrow> routing_info \<Rightarrow> routing_info result" where
  "route_uris T h mw method [] info = Inr info"
| "route_uris T h mw method (uri # uris) info =
     ebind (make_entry T h mw uri) (\<lambda>e. route_uris T h mw method uris (push_route method e info))"

fun route_methods :: "ttl \<Rightarrow> route_handler \<Rightarrow> middleware list \<Rightarrow> string list \<Rightarrow> routing_info \<Rightarrow> routing_info result" where
  "route_methods T h mw [] info = Inr info"
| "route_methods T h mw (m # ms) info =
     ebind (route_uris T h mw m (get_routes h) info) (route_methods T h mw ms)"

definition route :: "ttl \<Rightarrow> route_handler \<Rightarrow> middleware list \<Rightarrow> routing_info \<Rightarrow> routing_info result" where
  "route T h mw info = route_methods T h mw (get_methods h) info"

definition use :: "middleware \<Rightarrow> pos \<Rightarrow> routing_info \<Rightarrow> routing_info" where
  "use m p info = info\<lparr>ri_middleware := mm_insert p m (ri_middleware info)\<rparr>"

definition set_debug_mode :: "bool \<Rightarrow> routing_info \<Rightarrow> routing_info" where
  "set_debug_mode b info = info\<lparr>ri_debug_mode := b\<rparr>"

definition notfound :: "nat option \<Rightarrow> routing_info \<Rightarrow> routing_info" where
  "notfound fn info = info\<lparr>ri_notfound := fn\<rparr>"

definition error_handler :: "nat option \<Rightarrow> routing_info \<Rightarrow> routing_info" where
  "error_handler fn info = info\<lparr>ri_error := fn\<rparr>"

definition rewrite :: "nat \<Rightarrow> pos \<Rightarrow> routing_info \<Rightarrow> routing_info" where
  "rewrite fn p info = use (Rewrite_mw (User_rewrite fn)) p info"

definition rewrite_regex :: "string \<Rightarrow> string \<Rightarrow> pos \<Rightarrow> routing_info \<Rightarrow> routing_info result" where
  "rewrite_regex reg fmt p info =
     (case rx_compile reg of
        Inl _ \<Rightarrow> Inl (Std_exception ''regex_error'')
      | Inr (r, n) \<Rightarrow> Inr (use (Rewrite_mw (Regex_rewrite r n fmt)) p info))"

definition serve_dir :: "ttl \<Rightarrow> string \<Rightarrow> string \<Rightarrow> bool \<Rightarrow> nat \<Rightarrow> routing_info \<Rightarrow> routing_info result" where
  "serve_dir T uri dir allow_listing fs info =
     route T (Filesystem_handler
       (make_filesystem_route_handler dir allow_listing (uri @ ''{fs_path:.*}'') fs ''GET'')) [] info"

definition log_requests :: "pos \<Rightarrow> routing_info \<Rightarrow> routing_info" where
  "log_requests p info = use Logger_mw p info"

definition mime_detector :: "ttl \<Rightarrow> string \<Rightarrow> pos \<Rightarrow> routing_info \<Rightarrow> routing_info result" where
  "mime_detector T s p info = ebind (mime_type_stream T s) (\<lambda>m. Inr (use (Mime_mw m) p info))"

definition mime_detector_file :: "ttl \<Rightarrow> string option \<Rightarrow> pos \<Rightarrow> routing_info \<Rightarrow> routing_info result" where
  "mime_detector_file T contents p info =
     ebind (mime_type_file T contents) (\<lambda>m. Inr (use (Mime_mw m) p info))"

section \<open>Parameters of a matched route\<close>

record route_params =
  rp_params :: "string \<Rightarrow> string option"
  rp_info :: "routing_info option"
  rp_entry :: "route_entry option"

definition no_params :: route_params where
  "no_params = \<lparr>rp_params = Map.empty, rp_info = None, rp_entry = None\<rparr>"

definition get_selected_route :: "route_params \<Rightarrow> string result" where
  "get_selected_route ps =
     (case rp_entry ps of None \<Rightarrow> Inl Undefined_behaviour | Some e \<Rightarrow> Inr (re_uri e))"

definition has_route_param :: "route_params \<Rightarrow> string \<Rightarrow> bool" where
  "has_route_param ps k \<longleftrightarrow> rp_params ps k \<noteq> None"

definition get_route_param :: "route_params \<Rightarrow> string \<Rightarrow> string" where
  "get_route_param ps k = (case rp_params ps k of Some v \<Rightarrow> v | None \<Rightarrow> [])"

section \<open>Properties\<close>

text \<open>
  Middleware runs in the order of its position and, within one position, in the order of
  its registration: after any sequence of \<^verbatim>\<open>use\<close> calls the list is the stable sort of the
  registrations.
\<close>

theorem use_stable_order:
  "ri_middleware (fold (\<lambda>(p, m). use m p) regs new_router) = sort_key fst regs"
proof (induction regs rule: rev_induct)
  case (snoc r regs)
  then show ?case by (cases r) (simp add: use_def mm_insert_sort)
qed (simp add: new_router_def)

section \<open>What registering a route does\<close>

lemma route_uris_eq:
  assumes "\<forall>u \<in> set us. make_entry T h mw u = Inr (E u)"
  shows "route_uris T h mw m us info = Inr (fold (\<lambda>u. push_route m (E u)) us info)"
  using assms by (induction us arbitrary: info) auto

lemma push_routes:
  "ri_routes (fold (\<lambda>u. push_route m (E u)) us info) k =
     (if k = m \<and> us \<noteq> []
      then Some ((case ri_routes info m of None \<Rightarrow> [] | Some es \<Rightarrow> es) @ map E us)
      else ri_routes info k)"
  by (induction us arbitrary: info) (auto simp: push_route_def)

lemma push_routes_rest:
  "(fold (\<lambda>u. push_route m (E u)) us info)\<lparr>ri_routes := r\<rparr> = info\<lparr>ri_routes := r\<rparr>"
  by (induction us arbitrary: info) (simp_all add: push_route_def)

lemma push_methods_rest:
  "(fold (\<lambda>m. fold (\<lambda>u. push_route m (E u)) us) ms info)\<lparr>ri_routes := r\<rparr> = info\<lparr>ri_routes := r\<rparr>"
  by (induction ms arbitrary: info) (simp_all add: push_routes_rest)

lemma route_methods_eq:
  assumes "\<forall>u \<in> set (get_routes h). make_entry T h mw u = Inr (E u)"
  shows "route_methods T h mw ms info =
     Inr (fold (\<lambda>m. fold (\<lambda>u. push_route m (E u)) (get_routes h)) ms info)"
  by (induction ms arbitrary: info) (simp_all add: route_uris_eq [OF assms])

lemma route_methods_table:
  assumes "distinct ms" "us \<noteq> []"
  shows "ri_routes (fold (\<lambda>m. fold (\<lambda>u. push_route m (E u)) us) ms info) k =
     (if k \<in> set ms
      then Some ((case ri_routes info k of None \<Rightarrow> [] | Some es \<Rightarrow> es) @ map E us)
      else ri_routes info k)"
  using assms by (induction ms arbitrary: info) (auto simp: push_routes)

text \<open>
  Registering a handler whose patterns all compile appends, under each of its methods and
  under no other key, one entry per pattern in order; nothing else of the table changes.
  The method is an exact key of the table: there is no wildcard, although
  \<^verbatim>\<open>function_route_handler\<close> has \<^verbatim>\<open>"*"\<close> as its default method.
\<close>

theorem route_registers:
  assumes "distinct (get_methods h)" "get_routes h \<noteq> []"
    and "\<forall>u \<in> set (get_routes h). make_entry T h mw u = Inr (E u)"
  shows "\<exists>info'. route T h mw info = Inr info'
    \<and> ri_routes info' = (\<lambda>k. if k \<in> set (get_methods h)
         then Some ((case ri_routes info k of None \<Rightarrow> [] | Some es \<Rightarrow> es) @ map E (get_routes h))
         else ri_routes info k)
    \<and> info'\<lparr>ri_routes := ri_routes info\<rparr> = info"
  using route_methods_eq [OF assms(3)] route_methods_table [OF assms(1,2)]
    push_methods_rest [where E = E and us = "get_routes h" and ms = "get_methods h" and info = info
      and r = "ri_routes info"]
  by (simp add: route_def fun_eq_iff)

definition sample_handler :: route_handler where
  "sample_handler = function_route_handler 1 ''/a'' ''GET''"

lemma sample_entry: "make_entry ttl_ref sample_handler [] ''/a'' =
    Inr (projr (make_entry ttl_ref sample_handler [] ''/a''))"
proof -
  have "\<not> isl (make_entry ttl_ref sample_handler [] ''/a'')" by code_simp
  then show ?thesis by (cases "make_entry ttl_ref sample_handler [] ''/a''") simp_all
qed

theorem route_registers_witness:
  "\<exists>info'. route ttl_ref sample_handler [] new_router = Inr info' \<and> ri_routes info' ''*'' = None
     \<and> ri_routes info' ''GET'' \<noteq> None"
proof -
  have h: "get_methods sample_handler = [''GET'']" "get_routes sample_handler = [''/a'']"
    by (simp_all add: sample_handler_def function_route_handler_def get_methods_def get_routes_def)
  then obtain info' where "route ttl_ref sample_handler [] new_router = Inr info'"
    "ri_routes info' = (\<lambda>k. if k \<in> set (get_methods sample_handler)
         then Some ((case ri_routes new_router k of None \<Rightarrow> [] | Some es \<Rightarrow> es)
           @ map (\<lambda>u. projr (make_entry ttl_ref sample_handler [] u)) (get_routes sample_handler))
         else ri_routes new_router k)"
    using route_registers [of sample_handler ttl_ref "[]" "\<lambda>u. projr (make_entry ttl_ref sample_handler [] u)" new_router]
      sample_entry by auto
  then show ?thesis by (simp add: h new_router_def)
qed

end
