(* ===== verification/Attributes.thy ===== *)
theory Attributes imports Main
begin

text \<open>
  \<^verbatim>\<open>attribute_host\<close>: values attached to a connection, found by their static type. The map
  holds shared pointers, so an entry may be present and null. The interface that the
  components above rely on is the locale \<open>attribute_store\<close>; the three templates of the
  header are its model.
\<close>

type_synonym ('i, 'v) attribute_map = "'i \<Rightarrow> 'v option option"

definition no_attributes :: "('i, 'v) attribute_map" where
  "no_attributes = (\<lambda>_. None)"

definition set_attribute :: "'i \<Rightarrow> 'v option \<Rightarrow> ('i, 'v) attribute_map \<Rightarrow> ('i, 'v) attribute_map" where
  "set_attribute i attr m = m(i \<mapsto> attr)"

definition has_attribute :: "('i, 'v) attribute_map \<Rightarrow> 'i \<Rightarrow> bool" where
  "has_attribute m i \<longleftrightarrow> m i \<noteq> None"

definition get_attribute :: "('i, 'v) attribute_map \<Rightarrow> 'i \<Rightarrow> 'v option" where
  "get_attribute m i =
     (if \<not> has_attribute m i then None
      else (case m i of Some p \<Rightarrow> p | None \<Rightarrow> None))"

locale attribute_store =
  fixes empty :: 'm
    and put :: "'i \<Rightarrow> 'v option \<Rightarrow> 'm \<Rightarrow> 'm"
    and has :: "'m \<Rightarrow> 'i \<Rightarrow> bool"
    and get :: "'m \<Rightarrow> 'i \<Rightarrow> 'v option"
  assumes has_empty: "\<not> has empty i"
    and has_put: "has (put i p m) j \<longleftrightarrow> i = j \<or> has m j"
    and get_put: "get (put i p m) j = (if i = j then p else get m j)"
    and get_absent: "\<not> has m i \<Longrightarrow> get m i = None"
begin

lemma get_empty: "get empty i = None"
  using get_absent has_empty by blast

lemma get_same: "get (put i p m) i = p"
  by (simp add: get_put)

lemma get_other: "i \<noteq> j \<Longrightarrow> get (put i p m) j = get m j"
  by (simp add: get_put)

lemma get_present: "get m i = Some v \<Longrightarrow> has m i"
  using get_absent by fastforce

end

interpretation attrs: attribute_store no_attributes set_attribute has_attribute get_attribute
  by unfold_locales
     (auto simp: no_attributes_def set_attribute_def has_attribute_def get_attribute_def)

lemmas attribute_simps [simp] = attrs.get_empty attrs.get_same attrs.get_put attrs.has_put

end
