(* ===== verification/Uri.thy ===== *)
theory Uri imports Prelude
begin

unbundle bit_operations_syntax

text \<open>
  The class \<^verbatim>\<open>uri\<close> (\<^verbatim>\<open>src/uri.cpp\<close>, \<^verbatim>\<open>include/grpcbackend/uri.h\<close>): parsing a request
  target into path, file name, extension and query, percent coding, and the parser for
  form data. Loops over offsets are kept as the code has them; each is then proved
  equal to a specification over lists.
\<close>

section \<open>The parsed URI\<close>

text \<open>
  \<open>query\<close> holds the pairs in the order of insertion; the code's
  \<^verbatim>\<open>unordered_multimap\<close> promises no order among the values of one key.
\<close>

record uri =
  path :: string
  fname :: string
  ext :: string
  query :: "(string \<times> string) list"

text \<open>The pair a query part stands for: split at the first \<^verbatim>\<open>=\<close>.\<close>

definition query_pair :: "string \<Rightarrow> (string \<times> string) result" where
  "query_pair part =
     (case find_char part (CHR ''='') 0 of
        Some pos_eq \<Rightarrow>
          ebind (substr part 0 (Some pos_eq)) (\<lambda>k.
          ebind (substr part (pos_eq + 1) None) (\<lambda>v. Inr (k, v)))
      | None \<Rightarrow> Inr (part, []))"

text \<open>The \<^verbatim>\<open>do ... while\<close> loop of the constructor; \<open>offset\<close> points at \<^verbatim>\<open>?\<close> or \<^verbatim>\<open>&\<close>.\<close>

function query_loop :: "string \<Rightarrow> nat \<Rightarrow> (string \<times> string) list \<Rightarrow> (string \<times> string) list result" where
  "query_loop s offset q =
     (let start = offset + 1;
          pos = find_char s (CHR ''&'') start
      in ebind (substr s start (map_option (\<lambda>p. p - start) pos)) (\<lambda>part.
         ebind (if part \<noteq> [] then ebind (query_pair part) (\<lambda>kv. Inr (q @ [kv])) else Inr q) (\<lambda>q'.
         case pos of
           None \<Rightarrow> Inr q'
         | Some p \<Rightarrow> if p < length s then query_loop s p q' else Inr q')))"
  by pat_completeness auto
termination
  by (relation "measure (\<lambda>(s, offset, q). length s - offset)")
     (auto dest!: find_char_bounds [OF sym])

declare query_loop.simps [simp del]

definition parse_uri :: "string \<Rightarrow> uri result" where
  "parse_uri s =
     (if length s = 0 \<or> char_at s 0 \<noteq> Inr (CHR ''/'') then Inl Invalid_uri_exception
      else
        ebind
          (case find_char s (CHR ''?'') 0 of
             Some pos \<Rightarrow>
               ebind (substr s 0 (Some pos)) (\<lambda>p.
               ebind (query_loop s pos []) (\<lambda>q. Inr (p, q)))
           | None \<Rightarrow> Inr (s, []))
          (\<lambda>(p, q).
        ebind
          (case find_last_char p (CHR ''/'') of
             Some pos \<Rightarrow>
               ebind (substr p (pos + 1) None) (\<lambda>f.
               (case find_last_char f (CHR ''.'') of
                  Some dot \<Rightarrow> ebind (substr f (dot + 1) None) (\<lambda>x. Inr (f, x))
                | None \<Rightarrow> Inr (f, [])))
           | None \<Rightarrow> Inr ([], []))
          (\<lambda>(f, x). Inr \<lparr>path = p, fname = f, ext = x, query = q\<rparr>)))"

text \<open>
  \<^verbatim>\<open>get_param\<close> returns the value of the element \<^verbatim>\<open>find\<close> yields. Which of several
  elements with the key that is, the container leaves open: \<open>sel\<close> stands for its choice
  among the values of the key.
\<close>

definition param_values :: "uri \<Rightarrow> string \<Rightarrow> string list" where
  "param_values u key = map snd (filter (\<lambda>(k, v). k = key) (query u))"

definition get_param :: "(string list \<Rightarrow> string) \<Rightarrow> uri \<Rightarrow> string \<Rightarrow> string" where
  "get_param sel u key = (case param_values u key of [] \<Rightarrow> [] | vs \<Rightarrow> sel vs)"

definition get_params :: "uri \<Rightarrow> string \<Rightarrow> string set" where
  "get_params u key = set (param_values u key)"

section \<open>Percent coding\<close>

definition parse_hexchar :: "char \<Rightarrow> int result" where
  "parse_hexchar c =
     (if schar c \<ge> schar (CHR ''A'') \<and> schar c \<le> schar (CHR ''F'')
      then Inr ((schar c - schar (CHR ''A'')) + 10)
      else if schar c \<ge> schar (CHR ''a'') \<and> schar c \<le> schar (CHR ''f'')
      then Inr ((schar c - schar (CHR ''a'')) + 10)
      else if schar c \<ge> schar (CHR ''0'') \<and> schar c \<le> schar (CHR ''9'')
      then Inr (schar c - schar (CHR ''0''))
      else Inl Invalid_uri_exception)"

definition parse_hexnum :: "char \<Rightarrow> char \<Rightarrow> char result" where
  "parse_hexnum c1 c2 =
     ebind (parse_hexchar c1) (\<lambda>r1.
     ebind (parse_hexchar c2) (\<lambda>r2.
     Inr (char_of ((push_bit 4 r1 AND 0xf0) OR (r2 AND 0x0f)))))"

function url_decode_loop :: "string \<Rightarrow> nat \<Rightarrow> string \<Rightarrow> string result" where
  "url_decode_loop str i res =
     (if i < length str then
        (if str ! i \<noteq> CHR ''%'' then url_decode_loop str (i + 1) (res @ [str ! i])
         else if length str - i < 2 then Inl Invalid_uri_exception
         else
           ebind (char_at str (i + 1)) (\<lambda>c1.
           ebind (char_at str (i + 2)) (\<lambda>c2.
           ebind (parse_hexnum c1 c2) (\<lambda>c.
           url_decode_loop str (i + 3) (res @ [c])))))
      else Inr res)"
  by pat_completeness auto
termination
  by (relation "measure (\<lambda>(str, i, res). length str - i)") auto

declare url_decode_loop.simps [simp del]

definition url_decode :: "string \<Rightarrow> string result" where
  "url_decode str = url_decode_loop str 0 []"

definition hex_table :: string where
  "hex_table = ''0123456789abcdef''"

definition unreserved :: "char \<Rightarrow> bool" where
  "unreserved c \<longleftrightarrow>
     (schar c \<ge> schar (CHR ''A'') \<and> schar c \<le> schar (CHR ''Z''))
   \<or> (schar c \<ge> schar (CHR ''a'') \<and> schar c \<le> schar (CHR ''z''))
   \<or> (schar c \<ge> schar (CHR ''0'') \<and> schar c \<le> schar (CHR ''9''))
   \<or> c = CHR ''-'' \<or> c = CHR ''_'' \<or> c = CHR ''.'' \<or> c = CHR ''~''"

definition encode_char :: "char \<Rightarrow> string" where
  "encode_char c =
     (if unreserved c then [c]
      else [CHR ''%'',
            hex_table ! nat (drop_bit 4 (schar c) AND 0x0f),
            hex_table ! nat (schar c AND 0x0f)])"

fun url_encode_loop :: "string \<Rightarrow> string \<Rightarrow> string" where
  "url_encode_loop [] res = res"
| "url_encode_loop (c # cs) res = url_encode_loop cs (res @ encode_char c)"

definition url_encode :: "string \<Rightarrow> string" where
  "url_encode str = url_encode_loop str []"

section \<open>Form data\<close>

definition form_pair :: "string \<Rightarrow> (string \<times> string) result" where
  "form_pair part =
     (case find_char part (CHR ''='') 0 of
        Some pos_eq \<Rightarrow>
          ebind (ebind (substr part 0 (Some pos_eq)) url_decode) (\<lambda>k.
          ebind (ebind (substr part (pos_eq + 1) None) url_decode) (\<lambda>v. Inr (k, v)))
      | None \<Rightarrow> ebind (url_decode part) (\<lambda>k. Inr (k, [])))"

function formdata_loop :: "string \<Rightarrow> nat \<Rightarrow> (string \<times> string) list \<Rightarrow> (string \<times> string) list result" where
  "formdata_loop data offset res =
     (let pos = find_char data (CHR ''&'') offset
      in ebind (substr data offset (map_option (\<lambda>p. p - offset) pos)) (\<lambda>part.
         ebind (if part \<noteq> [] then ebind (form_pair part) (\<lambda>kv. Inr (res @ [kv])) else Inr res) (\<lambda>res'.
         case pos of
           None \<Rightarrow> Inr res'
         | Some p \<Rightarrow> if p + 1 < length data then formdata_loop data (p + 1) res' else Inr res')))"
  by pat_completeness auto
termination
  by (relation "measure (\<lambda>(data, offset, res). length data - offset)")
     (auto dest!: find_char_bounds [OF sym])

declare formdata_loop.simps [simp del]

definition parse_formdata :: "string \<Rightarrow> (string \<times> string) list result" where
  "parse_formdata data = formdata_loop data 0 []"

section \<open>What the loops compute\<close>

text \<open>The pair of a part, and the query of a string, over lists.\<close>

definition query_kv :: "string \<Rightarrow> string \<times> string" where
  "query_kv part = (takeWhile (\<lambda>c. c \<noteq> CHR ''='') part, drop 1 (dropWhile (\<lambda>c. c \<noteq> CHR ''='') part))"

definition query_spec :: "string \<Rightarrow> (string \<times> string) list" where
  "query_spec s = map query_kv (filter (\<lambda>w. w \<noteq> []) (split_on (CHR ''&'') s))"

lemma query_kv_append: "CHR ''='' \<notin> set k \<Longrightarrow> query_kv (k @ CHR ''='' # v) = (k, v)"
  by (simp add: query_kv_def)

lemma query_kv_no_eq: "CHR ''='' \<notin> set k \<Longrightarrow> query_kv k = (k, [])"
  by (simp add: query_kv_def)

lemma query_pair_eq: "query_pair part = Inr (query_kv part)"
  by (rule find_char_cases [where s = part and c = "CHR ''=''"])
     (auto simp: query_pair_def query_kv_append query_kv_no_eq)

lemma query_loop_eq:
  assumes "offset < length s"
  shows "query_loop s offset q = Inr (q @ query_spec (drop (Suc offset) s))"
  using assms
proof (induction s offset q rule: query_loop.induct)
  case (1 s offset q)
  show ?case
  proof (cases "find_char s (CHR ''&'') (offset + 1)")
    case None
    then show ?thesis using 1(2) split_on_find_None [of s _ "offset + 1"]
      by (subst query_loop.simps) (simp add: query_spec_def query_pair_eq)
  next
    case (Some p)
    note b = find_char_bounds [OF Some] and sp = split_on_find_Some [OF Some]
    let ?w = "take (p - (offset + 1)) (drop (offset + 1) s)"
    let ?q = "if ?w \<noteq> [] then q @ [query_kv ?w] else q"
    have "query_loop s p ?q = Inr (?q @ query_spec (drop (Suc p) s))"
      using 1(1) [OF refl refl _ _ Some, of ?w ?q] 1(2) Some b
      by (simp add: query_pair_eq)
    moreover have "query_spec (drop (Suc offset) s) =
        (if ?w \<noteq> [] then [query_kv ?w] else []) @ query_spec (drop (Suc p) s)"
      using sp by (simp add: query_spec_def)
    moreover have "query_loop s offset q = query_loop s p ?q"
      using 1(2) Some b by (subst query_loop.simps) (simp add: query_pair_eq)
    ultimately show ?thesis by simp
  qed
qed

text \<open>Decoding, by recursion on the text.\<close>

fun decode_spec :: "string \<Rightarrow> string result" where
  "decode_spec [] = Inr []"
| "decode_spec (c # cs) =
     (if c \<noteq> CHR ''%'' then ebind (decode_spec cs) (\<lambda>r. Inr (c # r))
      else (case cs of
              h # l # cs' \<Rightarrow> ebind (parse_hexnum h l) (\<lambda>x. ebind (decode_spec cs') (\<lambda>r. Inr (x # r)))
            | _ \<Rightarrow> Inl Invalid_uri_exception))"

lemma parse_hexchar_error: "parse_hexchar c = Inl e \<Longrightarrow> e = Invalid_uri_exception"
  by (auto simp: parse_hexchar_def split: if_splits)

lemma parse_hexnum_error: "parse_hexnum a b = Inl e \<Longrightarrow> e = Invalid_uri_exception"
  by (auto simp: parse_hexnum_def ebind_eq_Inl dest: parse_hexchar_error)

lemma parse_hexnum_NUL: "parse_hexnum a (CHR 0x00) = Inl Invalid_uri_exception"
proof (cases "parse_hexchar a")
  case (Inl e)
  then show ?thesis by (auto simp: parse_hexnum_def dest: parse_hexchar_error)
next
  case (Inr x)
  have "parse_hexchar (CHR 0x00) = Inl Invalid_uri_exception" by code_simp
  with Inr show ?thesis by (simp add: parse_hexnum_def)
qed

lemma decode_spec_plain: "c \<noteq> CHR ''%'' \<Longrightarrow> decode_spec (c # cs) = ebind (decode_spec cs) (\<lambda>r. Inr (c # r))"
  by simp

lemma decode_spec_escape:
  "decode_spec (CHR ''%'' # h # l # cs) =
     ebind (parse_hexnum h l) (\<lambda>x. ebind (decode_spec cs) (\<lambda>r. Inr (x # r)))"
  by simp

lemma decode_spec_cut:
  "decode_spec [CHR ''%''] = Inl Invalid_uri_exception"
  "decode_spec [CHR ''%'', h] = Inl Invalid_uri_exception"
  by simp_all

declare decode_spec.simps(2) [simp del]
lemmas decode_simps [simp] = decode_spec_plain decode_spec_escape decode_spec_cut

lemma decode_induct [case_names Nil plain cut1 cut2 escape]:
  assumes "P []" "\<And>c cs. c \<noteq> CHR ''%'' \<Longrightarrow> P cs \<Longrightarrow> P (c # cs)"
    "P [CHR ''%'']" "\<And>h. P [CHR ''%'', h]"
    "\<And>h l cs. P cs \<Longrightarrow> P (CHR ''%'' # h # l # cs)"
  shows "P s"
proof (induction s rule: length_induct)
  case (1 s)
  consider "s = []" | c cs where "s = c # cs" "c \<noteq> CHR ''%''" | "s = [CHR ''%'']"
    | h where "s = [CHR ''%'', h]" | h l cs where "s = CHR ''%'' # h # l # cs"
    by (metis list.exhaust)
  then show ?case using 1 assms by cases auto
qed

text \<open>The loop, started after a prefix that it has already consumed.\<close>

lemma url_decode_loop_eq:
  "url_decode_loop (pre @ rest) (length pre) res = ebind (decode_spec rest) (\<lambda>r. Inr (res @ r))"
proof (induction rest arbitrary: pre res rule: decode_induct)
  case Nil
  then show ?case by (subst url_decode_loop.simps) simp
next
  case (plain c cs)
  then show ?case using plain(2) [of "pre @ [c]" "res @ [c]"]
    by (subst url_decode_loop.simps) (simp add: ebind_assoc)
next
  case cut1
  then show ?case by (subst url_decode_loop.simps) simp
next
  case (cut2 h)
  then show ?case
    by (subst url_decode_loop.simps) (simp add: char_at_def nth_append parse_hexnum_NUL)
next
  case (escape h l cs)
  have "url_decode_loop (pre @ CHR ''%'' # h # l # cs) (length pre + 3) (res @ [x]) =
      ebind (decode_spec cs) (\<lambda>r. Inr (res @ x # r))" for x
    using escape [of "pre @ [CHR ''%'', h, l]" "res @ [x]"] by (simp add: numeral_3_eq_3)
  then show ?case
    by (subst url_decode_loop.simps) (simp add: char_at_def nth_append ebind_assoc)
qed

lemma url_decode_eq: "url_decode str = decode_spec str"
  using url_decode_loop_eq [of "[]" str "[]"] by (simp add: url_decode_def)

lemma decode_spec_error: "decode_spec s = Inl e \<Longrightarrow> e = Invalid_uri_exception"
  by (induction s arbitrary: e rule: decode_induct)
     (auto simp: ebind_eq_Inl dest: parse_hexnum_error)

text \<open>Encoding works character by character, and decoding undoes each character.\<close>

lemma url_encode_loop_eq: "url_encode_loop cs res = res @ concat (map encode_char cs)"
  by (induction cs arbitrary: res) auto

lemma url_encode_eq: "url_encode s = concat (map encode_char s)"
  by (simp add: url_encode_def url_encode_loop_eq)

lemma encode_char_facts:
  "\<forall>c. decode_spec (encode_char c) = Inr [c] \<and> (length (encode_char c) = 1 \<or> length (encode_char c) = 3)
     \<and> list_all (\<lambda>x. unreserved x \<or> x = CHR ''%'') (encode_char c)"
  by code_simp

lemma decode_spec_append: "decode_spec a = Inr r \<Longrightarrow> decode_spec (a @ b) = ebind (decode_spec b) (\<lambda>t. Inr (r @ t))"
  by (induction a arbitrary: r rule: decode_induct) (auto simp: ebind_eq_Inr ebind_assoc)

lemma decode_encode: "decode_spec (concat (map encode_char s)) = Inr s"
  using encode_char_facts by (induction s) (auto simp: decode_spec_append)

text \<open>The form data loop.\<close>

lemma formdata_loop_eq:
  "formdata_loop (pre @ rest) (length pre) res =
    ebind (emap form_pair (filter (\<lambda>w. w \<noteq> []) (split_on (CHR ''&'') rest))) (\<lambda>kvs. Inr (res @ kvs))"
proof (induction rest arbitrary: pre res rule: length_induct)
  case (1 rest)
  show ?case
  proof (cases "index_of (CHR ''&'') rest")
    case None
    then have "find_char (pre @ rest) (CHR ''&'') (length pre) = None" by (simp add: find_char_def)
    with None show ?thesis
      by (subst formdata_loop.simps) (simp add: index_of_None split_on_no_sep ebind_assoc)
  next
    case (Some i)
    define w r where "w = take i rest" and "r = drop (Suc i) rest"
    with Some have rest: "rest = w @ CHR ''&'' # r" and w: "CHR ''&'' \<notin> set w" "i = length w"
      using id_take_nth_drop [of i rest] by (auto simp: index_of_Some)
    have f: "find_char (pre @ w @ CHR ''&'' # r) (CHR ''&'') (length pre) = Some (length pre + length w)"
      using Some by (simp add: find_char_def rest w)
    have rec: "formdata_loop (pre @ w @ CHR ''&'' # r) (Suc (length pre + length w)) res' =
        ebind (emap form_pair (filter (\<lambda>w. w \<noteq> []) (split_on (CHR ''&'') r))) (\<lambda>kvs. Inr (res' @ kvs))" for res'
      using 1 [rule_format, of r "pre @ w @ [CHR ''&'']" res'] by (simp add: rest)
    show ?thesis unfolding rest
      by (subst formdata_loop.simps, unfold Let_def f, cases "form_pair w"; cases "r = []")
         (simp_all add: rec [simplified] split_on_append w ebind_assoc)
  qed
qed

lemma parse_formdata_eq:
  "parse_formdata data = emap form_pair (filter (\<lambda>w. w \<noteq> []) (split_on (CHR ''&'') data))"
  using formdata_loop_eq [of "[]" data "[]"] by (simp add: parse_formdata_def)

section \<open>Form data under any codec\<close>

text \<open>
  What the form data parser needs of the codec: decoding undoes encoding, and an encoded
  text holds neither separator.
\<close>

definition pair_with :: "(string \<Rightarrow> string result) \<Rightarrow> string \<Rightarrow> (string \<times> string) result" where
  "pair_with dec part =
     ebind (dec (fst (query_kv part))) (\<lambda>k.
     ebind (if CHR ''='' \<in> set part then dec (snd (query_kv part)) else Inr []) (\<lambda>v. Inr (k, v)))"

lemma form_pair_eq: "form_pair part = pair_with url_decode part"
  by (rule find_char_cases [where s = part and c = "CHR ''=''"])
     (auto simp: form_pair_def pair_with_def query_kv_append query_kv_no_eq ebind_assoc)

locale url_codec =
  fixes enc :: "string \<Rightarrow> string" and dec :: "string \<Rightarrow> string result"
  assumes dec_enc: "dec (enc s) = Inr s"
    and enc_no_amp: "CHR ''&'' \<notin> set (enc s)"
    and enc_no_eq: "CHR ''='' \<notin> set (enc s)"
begin

lemma pair_roundtrip: "pair_with dec (enc k @ CHR ''='' # enc v) = Inr (k, v)"
  by (simp add: pair_with_def query_kv_append enc_no_eq dec_enc)

lemma form_parts:
  "filter (\<lambda>w. w \<noteq> [])
     (split_on (CHR ''&'') (join_with ''&'' (map (\<lambda>(k, v). enc k @ CHR ''='' # enc v) kvs)))
   = map (\<lambda>(k, v). enc k @ CHR ''='' # enc v) kvs"
proof (cases "kvs = []")
  case False
  let ?parts = "map (\<lambda>(k, v). enc k @ CHR ''='' # enc v) kvs"
  have "split_on (CHR ''&'') (join_with ''&'' ?parts) = ?parts"
    using False enc_no_amp by (intro split_join) auto
  moreover have "filter (\<lambda>w. w \<noteq> []) ?parts = ?parts" by (auto simp: filter_id_conv)
  ultimately show ?thesis by simp
qed simp

lemma pairs_roundtrip:
  "emap (pair_with dec) (map (\<lambda>(k, v). enc k @ CHR ''='' # enc v) kvs) = Inr kvs"
  by (induction kvs) (auto simp: pair_roundtrip)

lemma enc_inject: "enc a = enc b \<longleftrightarrow> a = b"
  using dec_enc by (metis sum.inject(2))

lemma query_kv_enc: "query_kv (enc k @ CHR ''='' # enc v) = (enc k, enc v)"
  by (simp add: query_kv_append enc_no_eq)

end

lemma encoded_chars: "x \<in> set (url_encode s) \<Longrightarrow> unreserved x \<or> x = CHR ''%''"
  using encode_char_facts by (auto simp: url_encode_eq list_all_iff)

lemma separators_reserved: "\<not> unreserved (CHR ''&'')" "\<not> unreserved (CHR ''='')"
  by code_simp+

interpretation percent: url_codec url_encode url_decode
proof unfold_locales
  show "url_decode (url_encode s) = Inr s" for s
    by (simp add: url_decode_eq url_encode_eq decode_encode)
  show "CHR ''&'' \<notin> set (url_encode s)" "CHR ''='' \<notin> set (url_encode s)" for s
    using encoded_chars [of _ s] separators_reserved by fastforce+
qed

section \<open>The parser as one equation\<close>

definition uri_spec :: "string \<Rightarrow> uri" where
  "uri_spec s =
     (let p = takeWhile (\<lambda>c. c \<noteq> CHR ''?'') s;
          f = last (split_on (CHR ''/'') p)
      in \<lparr>path = p, fname = f,
          ext = (if CHR ''.'' \<in> set f then last (split_on (CHR ''.'') f) else []),
          query = query_spec (drop 1 (dropWhile (\<lambda>c. c \<noteq> CHR ''?'') s))\<rparr>)"

lemma find_last_char_cases:
  obtains "find_last_char s c = None" "c \<notin> set s" "split_on c s = [s]"
  | p where "find_last_char s c = Some p" "c \<in> set s" "p < length s" "drop (Suc p) s = last (split_on c s)"
proof (cases "find_last_char s c")
  case None
  then show ?thesis using that(1) by (simp add: find_last_char_None split_on_no_sep)
next
  case (Some p)
  note s = find_last_char_Some [OF Some]
  have "last (split_on c s) = drop (Suc p) s" by (subst s(1)) (rule last_split_on [OF s(2)])
  then show ?thesis using that(2) [OF Some] s by (metis in_set_conv_decomp)
qed

lemma parse_uri_ok:
  assumes "s = CHR ''/'' # t"
  shows "parse_uri s = Inr (uri_spec s)"
proof -
  let ?p = "takeWhile (\<lambda>c. c \<noteq> CHR ''?'') s" and ?r = "drop 1 (dropWhile (\<lambda>c. c \<noteq> CHR ''?'') s)"
  have slash: "CHR ''/'' \<in> set ?p" using assms by simp
  have pq: "(case find_char s (CHR ''?'') 0 of
      Some pos \<Rightarrow> ebind (substr s 0 (Some pos)) (\<lambda>p. ebind (query_loop s pos []) (\<lambda>q. Inr (p, q)))
    | None \<Rightarrow> Inr (s, [])) = Inr (?p, query_spec ?r)"
    by (rule find_char_cases [where s = s and c = "CHR ''?''"])
       (auto simp: query_loop_eq query_spec_def)
  have pf: "(case find_last_char ?p (CHR ''/'') of
      Some pos \<Rightarrow> ebind (substr ?p (pos + 1) None) (\<lambda>f.
        (case find_last_char f (CHR ''.'') of
           Some dot \<Rightarrow> ebind (substr f (dot + 1) None) (\<lambda>x. Inr (f, x))
         | None \<Rightarrow> Inr (f, [])))
    | None \<Rightarrow> Inr ([], [])) =
    Inr (last (split_on (CHR ''/'') ?p), ext (uri_spec s))"
    by (rule find_last_char_cases [where s = "last (split_on (CHR ''/'') ?p)" and c = "CHR ''.''"];
        rule find_last_char_cases [where s = ?p and c = "CHR ''/''"])
       (use slash in \<open>auto simp: uri_spec_def Let_def\<close>)
  show ?thesis
    unfolding parse_uri_def pq ebind_simps prod.case pf using assms
    by (simp add: char_at_def uri_spec_def Let_def)
qed

section \<open>Properties\<close>

lemma parse_uri_starts: "parse_uri s = Inr u \<Longrightarrow> \<exists>t. s = CHR ''/'' # t"
  by (cases s) (auto simp: parse_uri_def char_at_def split: if_splits)

text \<open>
  C35. The constructor of \<^verbatim>\<open>uri\<close> throws \<^verbatim>\<open>invalid_uri_exception\<close> exactly on a target that is
  empty or does not start with a slash; on every other target it returns, and path, file
  name, extension and query are those of the list-level specification (in particular no
  \<^verbatim>\<open>substr\<close> of the offset arithmetic is ever out of range and the loop ends).
\<close>

theorem parse_uri_correct:
  "parse_uri s =
     (if s \<noteq> [] \<and> hd s = CHR ''/'' then Inr (uri_spec s) else Inl Invalid_uri_exception)"
proof (cases s)
  case Nil
  then show ?thesis by (simp add: parse_uri_def)
next
  case (Cons a t)
  then show ?thesis by (cases "a = CHR ''/''") (simp_all add: parse_uri_ok, simp add: parse_uri_def char_at_def)
qed

text \<open>
  The parts of a parsed target fit together: the path ends before the first question
  mark, the file name is what follows its last slash and the extension, when there is a
  dot, what follows the last dot of the file name.
\<close>

theorem parse_uri_parts:
  assumes "parse_uri s = Inr u"
  shows "(\<exists>rest. s = path u @ rest \<and> (rest = [] \<or> hd rest = CHR ''?'')) \<and> CHR ''?'' \<notin> set (path u)
    \<and> (\<exists>dir. path u = dir @ CHR ''/'' # fname u) \<and> CHR ''/'' \<notin> set (fname u)
    \<and> (if CHR ''.'' \<in> set (fname u) then \<exists>base. fname u = base @ CHR ''.'' # ext u else ext u = [])
    \<and> CHR ''.'' \<notin> set (ext u)"
proof -
  obtain t where s: "s = CHR ''/'' # t" and u: "u = uri_spec s"
    using assms parse_uri_starts [of s] by (cases s) (auto simp: parse_uri_ok)
  have p: "path u = takeWhile (\<lambda>c. c \<noteq> CHR ''?'') s" and f: "fname u = last (split_on (CHR ''/'') (path u))"
    and x: "ext u = (if CHR ''.'' \<in> set (fname u) then last (split_on (CHR ''.'') (fname u)) else [])"
    by (simp_all add: u uri_spec_def Let_def)
  have "s = path u @ dropWhile (\<lambda>c. c \<noteq> CHR ''?'') s" by (simp add: p)
  moreover have "CHR ''/'' \<in> set (path u)" by (simp add: p s)
  moreover have "\<exists>rest. s = path u @ rest \<and> (rest = [] \<or> hd rest = CHR ''?'')"
    by (rule exI [of _ "dropWhile (\<lambda>c. c \<noteq> CHR ''?'') s"])
       (use hd_dropWhile [of "\<lambda>c. c \<noteq> CHR ''?''" s] in \<open>auto simp: p\<close>)
  ultimately show ?thesis
    using split_on_last [of "CHR ''/''" "path u"] split_on_last [of "CHR ''.''" "fname u"]
      set_takeWhileD [of "CHR ''?''" _ s]
    by (intro conjI) (auto simp: f x p)
qed

theorem parse_uri_parts_witness:
  "\<exists>u. parse_uri ''/a/b.tar.gz?x=1'' = Inr u \<and> path u = ''/a/b.tar.gz'' \<and> fname u = ''b.tar.gz'' \<and> ext u = ''gz''
     \<and> CHR ''?'' \<notin> set (path u)"
proof -
  let ?u = "\<lparr>path = ''/a/b.tar.gz'', fname = ''b.tar.gz'', ext = ''gz'', query = [(''x'', ''1'')]\<rparr>"
  have u: "parse_uri ''/a/b.tar.gz?x=1'' = Inr ?u" by code_simp
  show ?thesis using parse_uri_parts [OF u] u by auto
qed

text \<open>
  C36. Decoding undoes encoding for every byte string, the encoded text consists of
  unreserved characters and percent signs only, and it is at most three times as long.
\<close>

theorem url_codec_roundtrip:
  "url_decode (url_encode s) = Inr s
   \<and> list_all (\<lambda>c. unreserved c \<or> c = CHR ''%'') (url_encode s)
   \<and> length s \<le> length (url_encode s) \<and> length (url_encode s) \<le> 3 * length s"
proof -
  have "length s \<le> length (url_encode s) \<and> length (url_encode s) \<le> 3 * length s"
  proof (induction s)
    case (Cons c cs)
    have "length (encode_char c) = 1 \<or> length (encode_char c) = 3" using encode_char_facts by blast
    with Cons show ?case by (auto simp: url_encode_eq)
  qed (simp add: url_encode_eq)
  then show ?thesis by (auto simp: percent.dec_enc list_all_iff encoded_chars dest: encoded_chars)
qed

text \<open>
  The index loop of \<^verbatim>\<open>url_decode\<close> computes the recursive specification: escapes of two
  hexadecimal digits are replaced, everything else is copied, and a truncated or malformed
  escape throws \<^verbatim>\<open>invalid_uri_exception\<close>. Its bounds test compares against 2 where an escape
  has 3 characters; the read at \<^verbatim>\<open>size()\<close> this lets through yields the NUL terminator, which is no
  digit, so no input reaches an undefined access.
\<close>

theorem url_decode_correct:
  "url_decode s = decode_spec s \<and> (url_decode s = Inl e \<longrightarrow> e = Invalid_uri_exception)"
  using decode_spec_error by (auto simp: url_decode_eq)

theorem url_decode_correct_witness:
  "url_decode ''a%2'' = Inl Invalid_uri_exception \<and> url_decode ''%41%7a'' = decode_spec ''%41%7a''"
proof -
  have "url_decode ''a%2'' = Inl Invalid_uri_exception" by code_simp
  then show ?thesis using url_decode_correct [of "''a%2''" Invalid_uri_exception] url_decode_correct [of "''%41%7a''"]
    by blast
qed

text \<open>
  C37. Form data: what \<^verbatim>\<open>parse_formdata\<close> returns is the list of the decoded pairs of the
  non-empty parts between ampersands (or the first decoding error), and encoding any list of
  keys and values as a form and parsing it gives the list back.
\<close>

theorem parse_formdata_roundtrip:
  "parse_formdata data = emap form_pair (filter (\<lambda>w. w \<noteq> []) (split_on (CHR ''&'') data))
   \<and> parse_formdata (join_with ''&'' (map (\<lambda>(k, v). url_encode k @ CHR ''='' # url_encode v) kvs)) = Inr kvs"
  using percent.pairs_roundtrip [of kvs]
  by (simp add: parse_formdata_eq form_pair_eq [abs_def] percent.form_parts)

text \<open>
  A query built from percent-encoded keys and values is split into exactly these
  keys and values, in order and still encoded (the constructor does not decode), and
  \<^verbatim>\<open>get_params\<close> returns the values of the key.
\<close>

theorem parse_uri_encoded_query:
  assumes "CHR ''?'' \<notin> set p"
  shows "\<exists>u. parse_uri (CHR ''/'' # p @ CHR ''?'' # join_with ''&'' (map (\<lambda>(k, v). url_encode k @ CHR ''='' # url_encode v) kvs)) = Inr u
    \<and> path u = CHR ''/'' # p
    \<and> query u = map (\<lambda>(k, v). (url_encode k, url_encode v)) kvs
    \<and> get_params u (url_encode k) = {url_encode v |v. (k, v) \<in> set kvs}"
proof -
  let ?q = "join_with ''&'' (map (\<lambda>(k, v). url_encode k @ CHR ''='' # url_encode v) kvs)"
  let ?u = "uri_spec (CHR ''/'' # p @ CHR ''?'' # ?q)"
  have "query ?u = query_spec ?q" and path: "path ?u = CHR ''/'' # p"
    using assms by (simp_all add: uri_spec_def Let_def)
  then have q: "query ?u = map (\<lambda>(k, v). (url_encode k, url_encode v)) kvs"
    by (simp add: query_spec_def percent.form_parts percent.query_kv_enc split_beta)
  have "get_params ?u (url_encode k) = {url_encode v |v. (k, v) \<in> set kvs}"
    by (force simp: get_params_def param_values_def q percent.enc_inject)
  with q path show ?thesis by (simp add: parse_uri_ok)
qed

theorem parse_uri_encoded_query_witness:
  "\<exists>u. parse_uri ''/f?k%20=v&k%20=w'' = Inr u \<and> path u = ''/f''
     \<and> query u = [(''k%20'', ''v''), (''k%20'', ''w'')]"
proof -
  have e: "url_encode ''k '' = ''k%20''" "url_encode ''v'' = ''v''" "url_encode ''w'' = ''w''"
    by code_simp+
  show ?thesis
    using parse_uri_encoded_query [of "''f''" "[(''k '', ''v''), (''k '', ''w'')]" "''k ''"]
    by (auto simp: e)
qed

text \<open>
  \<^verbatim>\<open>get_param\<close> yields one of the values of the key, whichever element the
  container's \<^verbatim>\<open>find\<close> chooses, and the empty string for an absent key; but the choice is
  not the first occurrence for every conforming container, although the header says so.
\<close>

theorem get_param_any_occurrence:
  assumes "\<And>vs. vs \<noteq> [] \<Longrightarrow> sel vs \<in> set vs"
  shows "(get_params u key \<noteq> {} \<longrightarrow> get_param sel u key \<in> get_params u key)
    \<and> (get_params u key = {} \<longrightarrow> get_param sel u key = [])
    \<and> (\<exists>sel'. (\<forall>vs. vs \<noteq> [] \<longrightarrow> sel' vs \<in> set vs)
         \<and> get_param sel' (uri_spec ''/?a=1&a=2'') ''a'' \<noteq> ''1'')"
proof (intro conjI)
  show "get_params u key \<noteq> {} \<longrightarrow> get_param sel u key \<in> get_params u key"
    using assms [of "param_values u key"] by (auto simp: get_params_def get_param_def split: list.splits)
  show "get_params u key = {} \<longrightarrow> get_param sel u key = []"
    by (auto simp: get_params_def get_param_def)
  have "get_param last (uri_spec ''/?a=1&a=2'') ''a'' = ''2''" by code_simp
  then show "\<exists>sel'. (\<forall>vs. vs \<noteq> [] \<longrightarrow> sel' vs \<in> set vs)
      \<and> get_param sel' (uri_spec ''/?a=1&a=2'') ''a'' \<noteq> ''1''"
    by (intro exI [of _ last]) auto
qed

theorem get_param_any_occurrence_witness:
  "get_param hd (uri_spec ''/?a=1&a=2'') ''a'' \<in> get_params (uri_spec ''/?a=1&a=2'') ''a''"
proof -
  have "get_params (uri_spec ''/?a=1&a=2'') ''a'' = {''1'', ''2''}" by code_simp
  then show ?thesis using get_param_any_occurrence [of hd "uri_spec ''/?a=1&a=2''" "''a''"] by auto
qed

end
