(* ===== verification/Filesystem.thy ===== *)
theory Filesystem imports Prelude "HOL-Library.List_Lexorder" "HOL-Library.Char_ord"
begin

text \<open>
  \<^verbatim>\<open>src/filesystem.cpp\<close>: the interface \<^verbatim>\<open>ifilesystem\<close> and its two implementations, on the
  operating system's files and on a zip archive. What lies below them (the C++ filesystem
  library, the zip reader of \<^verbatim>\<open>ttl\<close>) is a record of functions that the definitions take as
  an argument. The contract a client relies on is the locale \<open>file_store\<close>.
\<close>

section \<open>Entries and the interface\<close>

datatype fs_filetype = Fs_file | Fs_directory | Fs_unknown

record fs_entry =
  fe_name :: string
  fe_file_name :: string
  fe_lmodified :: int
  fe_size :: nat
  fe_type :: fs_filetype

definition is_dir :: "fs_entry \<Rightarrow> bool" where
  "is_dir e \<longleftrightarrow> fe_type e = Fs_directory"

definition is_file :: "fs_entry \<Rightarrow> bool" where
  "is_file e \<longleftrightarrow> fe_type e = Fs_file"

text \<open>
  A stream opened for reading: the bytes still to come and whether its state is good. A
  \<^verbatim>\<open>std::set<fs_entry>\<close> is the list of its elements in ascending order of their names;
  inserting an element whose name is present changes nothing.
\<close>

record istream =
  is_data :: string
  is_good :: bool

record ifilesystem =
  fs_exists :: "string \<Rightarrow> bool result"
  fs_get_file :: "string \<Rightarrow> fs_entry result"
  fs_get_files :: "string \<Rightarrow> fs_entry list result"
  fs_open_file :: "string \<Rightarrow> istream result"

fun entry_insert :: "fs_entry \<Rightarrow> fs_entry list \<Rightarrow> fs_entry list" where
  "entry_insert e [] = [e]"
| "entry_insert e (x # xs) =
     (if fe_name e < fe_name x then e # x # xs
      else if fe_name x < fe_name e then x # entry_insert e xs
      else x # xs)"

lemma entry_insert_names:
  "fe_name ` set (entry_insert e xs) = insert (fe_name e) (fe_name ` set xs)"
proof (induction xs)
  case (Cons x xs)
  then show ?case
    using linorder_less_linear [of "fe_name e" "fe_name x"] by auto
qed simp

lemma entry_insert_subset: "set (entry_insert e xs) \<subseteq> insert e (set xs)"
  by (induction xs) auto

lemma entry_insert_sorted:
  "sorted_wrt (<) (map fe_name xs) \<Longrightarrow> sorted_wrt (<) (map fe_name (entry_insert e xs))"
proof (induction xs)
  case (Cons x xs)
  have tail: "fe_name ` set (entry_insert e xs) = insert (fe_name e) (fe_name ` set xs)"
    by (rule entry_insert_names)
  have above: "\<forall>y\<in>set xs. fe_name x < fe_name y" using Cons.prems by simp
  consider "fe_name e < fe_name x" | "fe_name x < fe_name e" | "fe_name e = fe_name x"
    using linorder_less_linear by blast
  then show ?case
  proof cases
    case 1
    then show ?thesis using above Cons.prems by (auto intro: less_trans)
  next
    case 2
    have "\<forall>n \<in> fe_name ` set (entry_insert e xs). fe_name x < n"
      unfolding tail using 2 above by auto
    then show ?thesis using 2 Cons by auto
  next
    case 3
    then show ?thesis using Cons.prems by simp
  qed
qed simp

definition entry_set :: "fs_entry list \<Rightarrow> fs_entry list" where
  "entry_set es = fold entry_insert es []"

lemma entry_set_snoc: "entry_set (es @ [e]) = entry_insert e (entry_set es)"
  by (simp add: entry_set_def)

lemma entry_set_names: "fe_name ` set (entry_set es) = fe_name ` set es"
  by (induction es rule: rev_induct) (simp_all add: entry_set_snoc entry_insert_names, simp add: entry_set_def)

lemma entry_set_subset: "set (entry_set es) \<subseteq> set es"
proof (induction es rule: rev_induct)
  case (snoc e es)
  then show ?case using entry_insert_subset by (fastforce simp: entry_set_snoc)
qed (simp add: entry_set_def)

lemma entry_set_sorted: "sorted_wrt (<) (map fe_name (entry_set es))"
  by (induction es rule: rev_induct)
     (simp_all add: entry_set_snoc entry_insert_sorted, simp add: entry_set_def)

section \<open>The files of the operating system\<close>

text \<open>
  What \<^verbatim>\<open>std::experimental::filesystem\<close> answers; each query may throw a
  \<^verbatim>\<open>filesystem_error\<close>. \<open>os_list\<close> yields the paths that a \<^verbatim>\<open>directory_iterator\<close> visits,
  \<open>os_filename\<close> is \<^verbatim>\<open>path::filename\<close>, empty when there is none. \<open>os_stale_size\<close> is what the
  size of an entry holds that \<^verbatim>\<open>get_file\<close> returns uninitialised, for anything but a file.
\<close>

record os =
  os_exists :: "string \<Rightarrow> bool result"
  os_canonical :: "string \<Rightarrow> string result"
  os_status :: "string \<Rightarrow> fs_filetype result"
  os_filename :: "string \<Rightarrow> string"
  os_last_write :: "string \<Rightarrow> int result"
  os_file_size :: "string \<Rightarrow> nat result"
  os_list :: "string \<Rightarrow> string list result"
  os_open :: "string \<Rightarrow> istream"
  os_stale_size :: nat

definition osfs_get_file :: "os \<Rightarrow> string \<Rightarrow> fs_entry result" where
  "osfs_get_file F path =
     ebind (os_exists F path) (\<lambda>ex.
     if \<not> ex then Inl (Std_exception ''file not found'') else
     ebind (os_canonical F path) (\<lambda>bpath.
     ebind (os_status F path) (\<lambda>type.
     ebind (os_last_write F bpath) (\<lambda>time.
     ebind (if type = Fs_file then os_file_size F bpath else Inr (os_stale_size F)) (\<lambda>size.
     Inr \<lparr>fe_name = bpath, fe_file_name = os_filename F bpath, fe_lmodified = time,
          fe_size = size, fe_type = type\<rparr>)))))"

definition osfs_entry :: "os \<Rightarrow> string \<Rightarrow> fs_entry result" where
  "osfs_entry F p =
     ebind (os_last_write F p) (\<lambda>time.
     ebind (os_status F p) (\<lambda>type.
     ebind (if type = Fs_file then os_file_size F p
            else ebind (os_list F p) (\<lambda>children. Inr (length children))) (\<lambda>size.
     Inr \<lparr>fe_name = p, fe_file_name = os_filename F p, fe_lmodified = time,
          fe_size = size, fe_type = type\<rparr>)))"

definition osfs_get_files :: "os \<Rightarrow> string \<Rightarrow> fs_entry list result" where
  "osfs_get_files F path =
     ebind (os_list F path) (\<lambda>ps. ebind (emap (osfs_entry F) ps) (\<lambda>es. Inr (entry_set es)))"

definition osfs_open_file :: "os \<Rightarrow> string \<Rightarrow> istream result" where
  "osfs_open_file F path = Inr (os_open F path)"

definition osfilesystem :: "os \<Rightarrow> ifilesystem" where
  "osfilesystem F =
     \<lparr>fs_exists = os_exists F, fs_get_file = osfs_get_file F,
      fs_get_files = osfs_get_files F, fs_open_file = osfs_open_file F\<rparr>"

lemma emap_Inl:
  assumes "x \<in> set xs" "f x = Inl e"
  shows "\<exists>e. emap f xs = Inl e"
  using assms by (induction xs) (auto simp: ebind_eq_Inl, (metis ebind_simps sum.exhaust)+)

text \<open>
  The listing of a directory is all or nothing: one entry that is neither a file nor a
  directory (a socket, a pipe) makes the whole listing throw, because the code iterates
  over such an entry as if it were a directory. The filter for \<^verbatim>\<open>fs_filetype::unknown\<close> in
  \<^verbatim>\<open>filesystem_route_handler::on_request\<close> is never reached for it.
\<close>

theorem osfs_listing_special_file:
  assumes "os_list F dir = Inr ps" "p \<in> set ps"
    and special: "os_status F p = Inr Fs_unknown"
    and not_a_directory: "os_list F p = Inl e"
  shows "\<exists>e. osfs_get_files F dir = Inl e"
proof -
  have "\<exists>e. osfs_entry F p = Inl e"
    using special not_a_directory by (cases "os_last_write F p") (simp_all add: osfs_entry_def)
  then obtain e' where "emap (osfs_entry F) ps = Inl e'"
    using emap_Inl assms(2) by metis
  then show ?thesis using assms(1) by (simp add: osfs_get_files_def)
qed

definition fifo_os :: os where
  "fifo_os =
     \<lparr>os_exists = (\<lambda>_. Inr True), os_canonical = Inr,
      os_status = (\<lambda>p. Inr (if p = ''/d'' then Fs_directory else Fs_unknown)),
      os_filename = (\<lambda>p. p), os_last_write = (\<lambda>_. Inr 0), os_file_size = (\<lambda>_. Inr 0),
      os_list = (\<lambda>p. if p = ''/d'' then Inr [''/d/fifo''] else Inl (Std_exception ''Not a directory'')),
      os_open = (\<lambda>_. \<lparr>is_data = [], is_good = False\<rparr>), os_stale_size = 0\<rparr>"

theorem osfs_listing_special_file_witness:
  "\<exists>e. osfs_get_files fifo_os ''/d'' = Inl e"
  by (rule osfs_listing_special_file [where ps = "[''/d/fifo'']" and p = "''/d/fifo''"
        and e = "Std_exception ''Not a directory''"])
     (simp_all add: fifo_os_def)

section \<open>Files in a zip archive\<close>

text \<open>
  The path is normalised first. \<open>squash_loop\<close> is the loop over the index \<open>i\<close>; erasing the
  character at \<open>i\<close> and then advancing leaves the next character unexamined.
\<close>

function squash_loop :: "string \<Rightarrow> nat \<Rightarrow> string" where
  "squash_loop p i =
     (if i < length p then
        (if p ! (i - 1) = CHR ''/'' \<and> p ! i = CHR ''/''
         then squash_loop (take i p @ drop (i + 1) p) (i + 1)
         else squash_loop p (i + 1))
      else p)"
  by auto
termination by (relation "measure (\<lambda>(p, i). length p - i)") auto

declare squash_loop.simps [simp del]

definition zip_fix_path :: "string \<Rightarrow> string result" where
  "zip_fix_path path =
     ebind (if char_at path 0 = Inr (CHR ''.'') \<and> char_at path 1 = Inr (CHR ''/'')
            then substr path 2 None
            else if char_at path 0 = Inr (CHR ''/'') then substr path 1 None
            else Inr path)
       (\<lambda>p. Inr (squash_loop p 1))"

record zip_entry =
  ze_name :: string
  ze_is_directory :: bool
  ze_last_modified :: int
  ze_uncompressed_size :: nat
  ze_stream :: istream

record zip_reader =
  zip_has_file :: "string \<Rightarrow> bool"
  zip_find_by_path :: "string \<Rightarrow> nat"
  zip_get_entry :: "nat \<Rightarrow> zip_entry"
  zip_files :: "string list"

definition zipfs_exists :: "zip_reader \<Rightarrow> string \<Rightarrow> bool result" where
  "zipfs_exists Z path =
     ebind (zip_fix_path path) (\<lambda>p. Inr (zip_has_file Z p \<or> zip_has_file Z (p @ ''/'')))"

definition zip_entry_of :: "zip_reader \<Rightarrow> string \<Rightarrow> zip_entry" where
  "zip_entry_of Z p = zip_get_entry Z (zip_find_by_path Z p)"

definition zipfs_get_file :: "zip_reader \<Rightarrow> string \<Rightarrow> fs_entry result" where
  "zipfs_get_file Z path =
     ebind (zip_fix_path path) (\<lambda>p0.
     let p = (if \<not> zip_has_file Z p0 then p0 @ ''/'' else p0)
     in if \<not> zip_has_file Z p then Inl (Std_exception ''file not found'') else
        (let entry = zip_entry_of Z p;
             me = \<lparr>fe_name = ze_name entry, fe_file_name = [],
                   fe_lmodified = ze_last_modified entry,
                   fe_size = ze_uncompressed_size entry,
                   fe_type = (if ze_is_directory entry then Fs_directory else Fs_file)\<rparr>
         in if is_file me then
              (case find_last_char (fe_name me) (CHR ''/'') of
                 Some pos \<Rightarrow> ebind (substr (fe_name me) (pos + 1) None) (\<lambda>n. Inr (me\<lparr>fe_file_name := n\<rparr>))
               | None \<Rightarrow> Inr (me\<lparr>fe_file_name := fe_name me\<rparr>))
            else Inr me))"

text \<open>One turn of the loop of \<^verbatim>\<open>get_files\<close>: \<open>None\<close> is \<^verbatim>\<open>continue\<close>.\<close>

definition zipfs_child :: "zip_reader \<Rightarrow> string \<Rightarrow> string \<Rightarrow> fs_entry option result" where
  "zipfs_child Z dir file =
     ebind (substr file 0 (Some (length dir))) (\<lambda>pre.
     if file = dir \<or> pre \<noteq> dir then Inr None else
     ebind (substr file (length dir) None) (\<lambda>tfile.
     let pos = find_char tfile (CHR ''/'') 0
     in if pos \<noteq> Some (length tfile - 1) \<and> pos \<noteq> None then Inr None else
        (let entry = zip_entry_of Z file;
             me = \<lparr>fe_name = ze_name entry, fe_file_name = [],
                   fe_lmodified = ze_last_modified entry,
                   fe_size = ze_uncompressed_size entry,
                   fe_type = (if ze_is_directory entry then Fs_directory else Fs_file)\<rparr>
         in if is_file me then Inr (Some (me\<lparr>fe_file_name := tfile\<rparr>))
            else ebind (substr tfile 0 (Some (length tfile - 1))) (\<lambda>n.
                 Inr (Some (me\<lparr>fe_file_name := n\<rparr>))))))"

definition zipfs_get_files :: "zip_reader \<Rightarrow> string \<Rightarrow> fs_entry list result" where
  "zipfs_get_files Z path =
     ebind (zipfs_get_file Z path) (\<lambda>e.
     if \<not> is_dir e then Inl (Std_exception ''path is not a directory'') else
     ebind (emap (zipfs_child Z (fe_name e)) (zip_files Z)) (\<lambda>cs.
     Inr (entry_set (List.map_filter (\<lambda>c. c) cs))))"

definition zipfs_open_file :: "zip_reader \<Rightarrow> string \<Rightarrow> istream result" where
  "zipfs_open_file Z path =
     ebind (zip_fix_path path) (\<lambda>p.
     if \<not> zip_has_file Z p then Inl (Std_exception ''file not found'')
     else Inr (ze_stream (zip_entry_of Z p)))"

definition zipfilesystem :: "zip_reader \<Rightarrow> ifilesystem" where
  "zipfilesystem Z =
     \<lparr>fs_exists = zipfs_exists Z, fs_get_file = zipfs_get_file Z,
      fs_get_files = zipfs_get_files Z, fs_open_file = zipfs_open_file Z\<rparr>"

text \<open>
  The constructor: the archive is mapped into memory, \<open>None\<close> when that fails, and read; \<^verbatim>\<open>uncompress\<close>
  prepares the reader when the caller asks for it.
\<close>

definition new_zipfilesystem ::
    "(string \<Rightarrow> string option) \<Rightarrow> (string \<Rightarrow> zip_reader result) \<Rightarrow> (zip_reader \<Rightarrow> zip_reader) \<Rightarrow> string \<Rightarrow> bool
     \<Rightarrow> ifilesystem result" where
  "new_zipfilesystem mmap reader uncompress path precache =
     (case mmap path of
        None \<Rightarrow> Inl (Std_exception ''failed to mmap executable'')
      | Some bytes \<Rightarrow>
          ebind (reader bytes) (\<lambda>Z. Inr (zipfilesystem (if precache then uncompress Z else Z))))"

section \<open>What normalising a path does\<close>

text \<open>One pass from the left; a pair of slashes loses its second one, and the scan goes on behind it.\<close>

fun slash_pairs :: "string \<Rightarrow> string" where
  "slash_pairs (a # b # s) =
     (if a = CHR ''/'' \<and> b = CHR ''/'' then a # slash_pairs s else a # slash_pairs (b # s))"
| "slash_pairs s = s"

definition strip_lead :: "string \<Rightarrow> string" where
  "strip_lead p =
     (if take 2 p = ''./'' then drop 2 p else if take 1 p = ''/'' then drop 1 p else p)"

lemma squash_loop_eq:
  "a \<noteq> [] \<Longrightarrow> squash_loop (a @ s) (length a) = butlast a @ slash_pairs (last a # s)"
proof (induction "length s" arbitrary: a s rule: less_induct)
  case less
  show ?case
  proof (cases s)
    case Nil
    then show ?thesis using less.prems by (subst squash_loop.simps) simp
  next
    case (Cons b t)
    have prev: "(a @ b # t) ! (length a - 1) = last a"
      using less.prems by (simp add: nth_append last_conv_nth)
    show ?thesis
    proof (cases "last a = CHR ''/'' \<and> b = CHR ''/''")
      case True
      have "squash_loop (a @ s) (length a) = squash_loop (a @ t) (length a + 1)"
        using True prev Cons by (subst squash_loop.simps) simp
      also have "\<dots> = a @ slash_pairs t"
      proof (cases t)
        case (Cons c u)
        have "squash_loop ((a @ [c]) @ u) (length (a @ [c])) = butlast (a @ [c]) @ slash_pairs (last (a @ [c]) # u)"
          by (rule less.hyps) (use Cons \<open>s = b # t\<close> in simp_all)
        then show ?thesis using Cons by simp
      qed (subst squash_loop.simps, simp)
      finally show ?thesis using True Cons less.prems append_butlast_last_id [of a] by simp
    next
      case False
      have "squash_loop (a @ s) (length a) = squash_loop ((a @ [b]) @ t) (length (a @ [b]))"
        using False prev Cons by (subst squash_loop.simps) auto
      also have "\<dots> = butlast (a @ [b]) @ slash_pairs (last (a @ [b]) # t)"
        by (rule less.hyps) (use Cons in simp_all)
      also have "\<dots> = butlast a @ slash_pairs (last a # s)"
        using False Cons less.prems by (auto simp: append_butlast_last_id [symmetric])
      finally show ?thesis .
    qed
  qed
qed

lemma squash_loop_1: "squash_loop p 1 = slash_pairs p"
proof (cases p)
  case (Cons c s)
  then show ?thesis using squash_loop_eq [of "[c]" s] by simp
qed (subst squash_loop.simps, simp)

lemma zip_fix_path_eq: "zip_fix_path p = Inr (slash_pairs (strip_lead p))"
proof -
  have "(if char_at p 0 = Inr (CHR ''.'') \<and> char_at p 1 = Inr (CHR ''/'') then substr p 2 None
         else if char_at p 0 = Inr (CHR ''/'') then substr p 1 None else Inr p) = Inr (strip_lead p)"
  proof (cases p)
    case Nil
    then show ?thesis by (simp add: char_at_def strip_lead_def)
  next
    case (Cons a s)
    then show ?thesis by (cases s) (auto simp: char_at_def strip_lead_def substr_def)
  qed
  then show ?thesis by (simp add: zip_fix_path_def squash_loop_1 [unfolded One_nat_def])
qed

fun no_double_slash :: "string \<Rightarrow> bool" where
  "no_double_slash (a # b # s) \<longleftrightarrow> \<not> (a = CHR ''/'' \<and> b = CHR ''/'') \<and> no_double_slash (b # s)"
| "no_double_slash s \<longleftrightarrow> True"

fun no_triple_slash :: "string \<Rightarrow> bool" where
  "no_triple_slash (a # b # c # s) \<longleftrightarrow>
     \<not> (a = CHR ''/'' \<and> b = CHR ''/'' \<and> c = CHR ''/'') \<and> no_triple_slash (b # c # s)"
| "no_triple_slash s \<longleftrightarrow> True"

lemma slash_pairs_hd: "slash_pairs s = [] \<longleftrightarrow> s = []" "s \<noteq> [] \<Longrightarrow> hd (slash_pairs s) = hd s"
  by (induction s rule: slash_pairs.induct) auto

lemma slash_pairs_id: "no_double_slash s \<Longrightarrow> slash_pairs s = s"
  by (induction s rule: slash_pairs.induct) auto

lemma no_double_slash_Cons:
  "no_double_slash (a # s) \<longleftrightarrow> (s = [] \<or> \<not> (a = CHR ''/'' \<and> hd s = CHR ''/'')) \<and> no_double_slash s"
  by (cases s) auto

lemma no_triple_slash_tl: "no_triple_slash (a # s) \<Longrightarrow> no_triple_slash s"
  by (cases s rule: no_triple_slash.cases) auto

lemma no_triple_slash_drop: "no_triple_slash s \<Longrightarrow> no_triple_slash (drop n s)"
proof (induction n arbitrary: s)
  case (Suc n)
  then show ?case by (cases s) (auto dest: no_triple_slash_tl)
qed simp

lemma slash_pairs_single:
  "no_triple_slash s \<Longrightarrow> no_double_slash (slash_pairs s)"
proof (induction s rule: slash_pairs.induct)
  case (1 a b s)
  have rest: "no_triple_slash (b # s)" "no_triple_slash s"
    using "1.prems" no_triple_slash_tl by blast+
  show ?case
  proof (cases "a = CHR ''/'' \<and> b = CHR ''/''")
    case True
    then have "s = [] \<or> hd s \<noteq> CHR ''/''" using "1.prems" by (cases s) auto
    then show ?thesis
      using True "1.IH"(1) rest by (auto simp: no_double_slash_Cons slash_pairs_hd)
  next
    case False
    then show ?thesis
      using "1.IH"(2) rest by (auto simp: no_double_slash_Cons slash_pairs_hd)
  qed
qed simp_all

lemma strip_lead_drop: "\<exists>n. strip_lead p = drop n p"
  unfolding strip_lead_def by (metis drop0)

text \<open>
  A path without three slashes in a row is normalised to one without two slashes in a
  row, and a path that has none already only loses its leading \<^verbatim>\<open>./\<close> or \<^verbatim>\<open>/\<close>.
\<close>

theorem zip_fix_path_normal:
  assumes "no_triple_slash p"
  shows "\<exists>q. zip_fix_path p = Inr q \<and> no_double_slash q
     \<and> (no_double_slash (strip_lead p) \<longrightarrow> q = strip_lead p)"
  using slash_pairs_single no_triple_slash_drop [OF assms] strip_lead_drop [of p] slash_pairs_id
  by (auto simp: zip_fix_path_eq)

theorem zip_fix_path_normal_witness:
  "\<exists>q. zip_fix_path ''./a//b'' = Inr q \<and> no_double_slash q
     \<and> (no_double_slash (strip_lead ''./a//b'') \<longrightarrow> q = strip_lead ''./a//b'')"
  by (rule zip_fix_path_normal) simp

text \<open>
  Longer runs are not collapsed: the loop advances after erasing, so a path with three
  slashes in a row keeps two of them and misses the archive's entry.
\<close>

theorem zip_fix_path_long_run:
  "zip_fix_path (a @ ''///'' @ b) = Inr q \<Longrightarrow> a \<noteq> [] \<Longrightarrow> a \<noteq> ''.'' \<Longrightarrow> no_double_slash (a @ ''/'')
     \<Longrightarrow> \<not> no_double_slash q"
proof -
  assume fixed: "zip_fix_path (a @ ''///'' @ b) = Inr q"
    and a: "a \<noteq> []" "a \<noteq> ''.''" "no_double_slash (a @ ''/'')"
  have pairs: "slash_pairs (c @ ''///'' @ b) = c @ ''/'' @ slash_pairs (CHR ''/'' # b)"
    if "no_double_slash (c @ ''/'')" for c
    using that
  proof (induction c)
    case (Cons x c)
    then show ?case by (cases c) auto
  qed simp
  have bad: "\<not> no_double_slash (c @ ''/'' @ slash_pairs (CHR ''/'' # b))" for c
    by (induction c) (auto simp: no_double_slash_Cons slash_pairs_hd)
  have suffix: "no_double_slash (drop n a @ ''/'')" for n
  proof -
    have "no_double_slash s \<Longrightarrow> no_double_slash (drop m s)" for m and s :: string
      by (induction m arbitrary: s) (auto simp: drop_Suc no_double_slash_Cons, metis list.collapse no_double_slash_Cons tl_Nil)
    then show ?thesis
    proof (cases "n \<le> length a")
      case True
      then show ?thesis using \<open>\<And>m s. no_double_slash s \<Longrightarrow> no_double_slash (drop m s)\<close> [of "a @ ''/''" n] a by simp
    qed simp
  qed
  have "\<exists>n. strip_lead (a @ ''///'' @ b) = drop n a @ ''///'' @ b"
  proof (cases a)
    case (Cons x c)
    then show ?thesis
      using a by (cases c) (auto simp: strip_lead_def intro: exI [of _ 0] exI [of _ 1] exI [of _ 2])
  qed (use a in simp)
  then obtain n where "strip_lead (a @ ''///'' @ b) = drop n a @ ''///'' @ b" by blast
  then have "q = drop n a @ ''/'' @ slash_pairs (CHR ''/'' # b)"
    using fixed pairs [OF suffix] by (simp add: zip_fix_path_eq)
  then show ?thesis using bad by simp
qed

theorem zip_fix_path_long_run_witness:
  "zip_fix_path ''a///b'' = Inr ''a//b'' \<and> \<not> no_double_slash ''a//b''"
proof -
  have fixed: "zip_fix_path (''a'' @ ''///'' @ ''b'') = Inr ''a//b''"
    by (simp add: zip_fix_path_eq strip_lead_def)
  moreover have "\<not> no_double_slash ''a//b''"
    by (rule zip_fix_path_long_run [OF fixed]) simp_all
  ultimately show ?thesis by simp
qed

section \<open>The contract of a file store\<close>

text \<open>
  What \<^verbatim>\<open>filesystem_route_handler\<close> relies on: what exists can be asked for, a regular file
  can be opened and a directory listed under the name its entry carries.
\<close>

locale file_store =
  fixes exists :: "string \<Rightarrow> bool result"
    and get_file :: "string \<Rightarrow> fs_entry result"
    and get_files :: "string \<Rightarrow> fs_entry list result"
    and open_file :: "string \<Rightarrow> istream result"
  assumes exists_total: "\<exists>b. exists p = Inr b"
    and exists_get: "exists p = Inr True \<longleftrightarrow> (\<exists>e. get_file p = Inr e)"
    and open_regular: "get_file p = Inr e \<Longrightarrow> is_file e \<Longrightarrow> \<exists>s. open_file (fe_name e) = Inr s"
    and list_directory: "get_file p = Inr e \<Longrightarrow> is_dir e \<Longrightarrow> \<exists>es. get_files (fe_name e) = Inr es"
begin

text \<open>The question the route handler asks, answered without an exception.\<close>

lemma lookup_cases:
  obtains "exists p = Inr False"
  | e where "exists p = Inr True" "get_file p = Inr e"
  using exists_total [of p] exists_get [of p] by fastforce

end

text \<open>The names one listing keeps: those directly below the directory.\<close>

definition child_of :: "string \<Rightarrow> string \<Rightarrow> string \<Rightarrow> bool" where
  "child_of dir file n \<longleftrightarrow>
     file \<noteq> dir \<and> CHR ''/'' \<notin> set n \<and> (file = dir @ n \<or> file = dir @ n @ ''/'')"

lemma child_of_name:
  assumes "child_of d f n"
  shows "n = (if last f = CHR ''/'' then butlast (drop (length d) f) else drop (length d) f)"
proof (cases "f = d @ n")
  case True
  then have "n \<noteq> []" "last f = last n" using assms by (auto simp: child_of_def)
  moreover have "last n \<noteq> CHR ''/''"
    using assms \<open>n \<noteq> []\<close> last_in_set [of n] unfolding child_of_def by metis
  ultimately show ?thesis using True by simp
qed (use assms in \<open>auto simp: child_of_def butlast_append\<close>)

text \<open>
  An archive is well formed when the reader finds exactly the files it lists, under names
  that normalisation leaves alone, and marks those that end in a slash as directories.
\<close>

definition zip_ok :: "zip_reader \<Rightarrow> bool" where
  "zip_ok Z \<longleftrightarrow>
     (\<forall>p. zip_has_file Z p \<longleftrightarrow> p \<in> set (zip_files Z)) \<and>
     (\<forall>p \<in> set (zip_files Z).
        ze_name (zip_entry_of Z p) = p \<and> zip_fix_path p = Inr p \<and>
        (ze_is_directory (zip_entry_of Z p) \<longleftrightarrow> (p \<noteq> [] \<and> last p = CHR ''/'')))"

locale zip_archive =
  fixes Z :: zip_reader
  assumes archive_ok: "zip_ok Z"
begin

lemma has_file: "zip_has_file Z p \<longleftrightarrow> p \<in> set (zip_files Z)"
  using archive_ok by (simp add: zip_ok_def)

lemma entry_name: "p \<in> set (zip_files Z) \<Longrightarrow> ze_name (zip_entry_of Z p) = p"
  using archive_ok by (simp add: zip_ok_def)

lemma fixed_name: "p \<in> set (zip_files Z) \<Longrightarrow> zip_fix_path p = Inr p"
  using archive_ok by (simp add: zip_ok_def)

lemma directory_iff:
  "p \<in> set (zip_files Z) \<Longrightarrow> ze_is_directory (zip_entry_of Z p) \<longleftrightarrow> p \<noteq> [] \<and> last p = CHR ''/''"
  using archive_ok by (simp add: zip_ok_def)

text \<open>A lookup tries the normalised path, then the same with a slash behind it.\<close>

definition target :: "string \<Rightarrow> string option" where
  "target p =
     (let q = slash_pairs (strip_lead p)
      in if q \<in> set (zip_files Z) then Some q
         else if q @ ''/'' \<in> set (zip_files Z) then Some (q @ ''/'') else None)"

lemma target_file: "target p = Some q \<Longrightarrow> q \<in> set (zip_files Z)"
  by (auto simp: target_def Let_def split: if_splits)

lemma exists_target: "zipfs_exists Z p = Inr (target p \<noteq> None)"
  by (auto simp: zipfs_exists_def zip_fix_path_eq target_def has_file Let_def)

lemma get_file_target:
  "case target p of
     None \<Rightarrow> zipfs_get_file Z p = Inl (Std_exception ''file not found'')
   | Some q \<Rightarrow> \<exists>n. zipfs_get_file Z p = Inr
       \<lparr>fe_name = q, fe_file_name = n, fe_lmodified = ze_last_modified (zip_entry_of Z q),
        fe_size = ze_uncompressed_size (zip_entry_of Z q),
        fe_type = (if q \<noteq> [] \<and> last q = CHR ''/'' then Fs_directory else Fs_file)\<rparr>"
proof (cases "target p")
  case None
  then show ?thesis
    by (auto simp: zipfs_get_file_def zip_fix_path_eq target_def has_file Let_def split: if_splits)
next
  case (Some q)
  have "q \<in> set (zip_files Z)" using Some by (rule target_file)
  then have facts: "ze_name (zip_entry_of Z q) = q"
    "ze_is_directory (zip_entry_of Z q) \<longleftrightarrow> q \<noteq> [] \<and> last q = CHR ''/''"
    using entry_name directory_iff by simp_all
  have pick: "(let q' = slash_pairs (strip_lead p) in if \<not> zip_has_file Z q' then q' @ ''/'' else q') = q"
    "zip_has_file Z q"
    using Some \<open>q \<in> set (zip_files Z)\<close> by (auto simp: target_def has_file Let_def split: if_splits)
  then show ?thesis
    using Some facts
    by (auto simp: zipfs_get_file_def zip_fix_path_eq Let_def is_file_def substr_def
        split: option.splits dest!: find_last_char_Some)
qed

lemma child_result:
  assumes "file \<in> set (zip_files Z)"
  shows "(\<exists>me. zipfs_child Z dir file = Inr (Some me) \<and> fe_name me = file \<and> child_of dir file (fe_file_name me)
            \<and> (is_dir me \<longleftrightarrow> last file = CHR ''/''))
       \<or> (zipfs_child Z dir file = Inr None \<and> (\<nexists>n. child_of dir file n))"
proof (cases "file = dir \<or> take (length dir) file \<noteq> dir")
  case True
  then have "zipfs_child Z dir file = Inr None" by (auto simp: zipfs_child_def)
  then show ?thesis using True by (auto simp: child_of_def)
next
  case False
  then obtain t where t: "file = dir @ t" "t \<noteq> []"
    by (metis append_take_drop_id self_append_conv)
  then have meta: "ze_name (zip_entry_of Z file) = file"
    "ze_is_directory (zip_entry_of Z file) \<longleftrightarrow> last t = CHR ''/''"
    using assms entry_name directory_iff by auto
  show ?thesis
  proof (rule find_char_cases [of t "CHR ''/''"], goal_cases)
    case 1
    then have "last t \<noteq> CHR ''/''" using t last_in_set by metis
    then show ?thesis
      using 1 t meta by (auto simp: zipfs_child_def child_of_def is_file_def is_dir_def Let_def)
  next
    case (2 p k v)
    show ?case
    proof (cases v)
      case Nil
      then show ?thesis
        using 2 t meta by (auto simp: zipfs_child_def child_of_def is_file_def is_dir_def Let_def)
    next
      case (Cons a u)
      have "\<nexists>n. child_of dir file n"
      proof
        assume "\<exists>n. child_of dir file n"
        then obtain n where n: "CHR ''/'' \<notin> set n" "t = n \<or> t = n @ ''/''"
          using t by (auto simp: child_of_def)
        then have "takeWhile (\<lambda>c. c \<noteq> CHR ''/'') t = n" by (auto simp: takeWhile_append2)
        moreover have "takeWhile (\<lambda>c. c \<noteq> CHR ''/'') t = k"
          using 2 by (auto simp: takeWhile_append2)
        ultimately show False using n 2 Cons by auto
      qed
      then show ?thesis using 2 t Cons by (auto simp: zipfs_child_def Let_def)
    qed
  qed
qed

lemma children_total: "\<exists>cs. emap (zipfs_child Z dir) (zip_files Z) = Inr cs
    \<and> cs = map (\<lambda>f. projr (zipfs_child Z dir f)) (zip_files Z)"
proof -
  have "emap (zipfs_child Z dir) (zip_files Z) = Inr (map (\<lambda>f. projr (zipfs_child Z dir f)) (zip_files Z))"
    by (rule emap_Inr) (use child_result [of _ dir] in \<open>metis sum.sel(2)\<close>)
  then show ?thesis by simp
qed

lemma listing_total:
  assumes "zipfs_get_file Z p = Inr e" "is_dir e"
  shows "\<exists>es. zipfs_get_files Z p = Inr es"
  using assms children_total [of "fe_name e"] by (auto simp: zipfs_get_files_def)

lemma lookup_name:
  assumes "zipfs_get_file Z p = Inr e"
  shows "fe_name e \<in> set (zip_files Z)" "is_dir e \<longleftrightarrow> fe_name e \<noteq> [] \<and> last (fe_name e) = CHR ''/''"
    "is_file e \<longleftrightarrow> \<not> is_dir e"
  using assms get_file_target [of p] target_file [of p]
  by (auto simp: is_dir_def is_file_def split: option.splits if_splits)

lemma lookup_again:
  assumes "zipfs_get_file Z p = Inr e"
  shows "\<exists>e'. zipfs_get_file Z (fe_name e) = Inr e' \<and> fe_name e' = fe_name e \<and> is_dir e' = is_dir e"
proof -
  have name: "fe_name e \<in> set (zip_files Z)" by (rule lookup_name [OF assms])
  then have "target (fe_name e) = Some (fe_name e)"
    using fixed_name by (simp add: target_def zip_fix_path_eq)
  then have "\<exists>e'. zipfs_get_file Z (fe_name e) = Inr e' \<and> fe_name e' = fe_name e"
    using get_file_target [of "fe_name e"] by auto
  then obtain e' where e': "zipfs_get_file Z (fe_name e) = Inr e'" "fe_name e' = fe_name e" by blast
  then have "is_dir e' = is_dir e" using lookup_name(2) assms by simp
  with e' show ?thesis by blast
qed

lemma listing_member:
  assumes "zipfs_get_file Z p = Inr e" "is_dir e"
  shows "\<exists>es. zipfs_get_files Z p = Inr es \<and> sorted_wrt (<) (map fe_name es)
     \<and> (\<forall>f. (\<exists>x \<in> set es. fe_name x = f) \<longleftrightarrow> f \<in> set (zip_files Z) \<and> (\<exists>n. child_of (fe_name e) f n))
     \<and> (\<forall>x \<in> set es. child_of (fe_name e) (fe_name x) (fe_file_name x))"
proof -
  let ?c = "\<lambda>f. projr (zipfs_child Z (fe_name e) f)"
  let ?xs = "List.map_filter (\<lambda>c. c) (map ?c (zip_files Z))"
  have es: "zipfs_get_files Z p = Inr (entry_set ?xs)"
    using assms children_total [of "fe_name e"] by (auto simp: zipfs_get_files_def)
  have xs: "x \<in> set ?xs \<longleftrightarrow> (\<exists>f \<in> set (zip_files Z). zipfs_child Z (fe_name e) f = Inr (Some x))" for x
  proof -
    have "x \<in> set ?xs \<longleftrightarrow> (\<exists>f \<in> set (zip_files Z). ?c f = Some x)"
      by (force simp: List.map_filter_def)
    also have "\<dots> \<longleftrightarrow> (\<exists>f \<in> set (zip_files Z). zipfs_child Z (fe_name e) f = Inr (Some x))"
      using child_result [of _ "fe_name e"] by (metis sum.sel(2))
    finally show ?thesis .
  qed
  have named: "fe_name x \<in> set (zip_files Z)" "child_of (fe_name e) (fe_name x) (fe_file_name x)"
    if x: "x \<in> set ?xs" for x
  proof -
    obtain f where f: "f \<in> set (zip_files Z)" "zipfs_child Z (fe_name e) f = Inr (Some x)"
      using x xs by blast
    then have "fe_name x = f \<and> child_of (fe_name e) f (fe_file_name x)"
      using child_result [of f "fe_name e"] by auto
    then show "fe_name x \<in> set (zip_files Z)" "child_of (fe_name e) (fe_name x) (fe_file_name x)"
      using f by simp_all
  qed
  have kept: "\<exists>x \<in> set ?xs. fe_name x = f" if f: "f \<in> set (zip_files Z)" "child_of (fe_name e) f n" for f n
  proof -
    obtain me where "zipfs_child Z (fe_name e) f = Inr (Some me)" "fe_name me = f"
      using f child_result [of f "fe_name e"] by blast
    moreover from this(1) have "me \<in> set ?xs" using f(1) xs by blast
    ultimately show ?thesis by (intro bexI)
  qed
  have names: "(\<exists>x \<in> set (entry_set ?xs). fe_name x = f) \<longleftrightarrow> (\<exists>x \<in> set ?xs. fe_name x = f)" for f
  proof -
    have "(\<exists>x \<in> A. fe_name x = f) \<longleftrightarrow> f \<in> fe_name ` A" for A by auto
    from this [of "set (entry_set ?xs)"] this [of "set ?xs"]
    show ?thesis by (simp only: entry_set_names)
  qed
  have members: "(\<exists>x \<in> set (entry_set ?xs). fe_name x = f)
      \<longleftrightarrow> f \<in> set (zip_files Z) \<and> (\<exists>n. child_of (fe_name e) f n)" for f
    unfolding names using named kept by blast
  have "\<forall>x \<in> set (entry_set ?xs). child_of (fe_name e) (fe_name x) (fe_file_name x)"
    using named(2) entry_set_subset [of ?xs] by blast
  moreover have "\<forall>f. (\<exists>x \<in> set (entry_set ?xs). fe_name x = f)
      \<longleftrightarrow> f \<in> set (zip_files Z) \<and> (\<exists>n. child_of (fe_name e) f n)"
    using members by (rule allI)
  ultimately show ?thesis
    using es entry_set_sorted [of ?xs] by (intro exI [of _ "entry_set ?xs"] conjI)
qed

lemma store_contract:
  "file_store (zipfs_exists Z) (zipfs_get_file Z) (zipfs_get_files Z) (zipfs_open_file Z)"
proof
  show "\<exists>b. zipfs_exists Z p = Inr b" for p by (simp add: exists_target)
  show "zipfs_exists Z p = Inr True \<longleftrightarrow> (\<exists>e. zipfs_get_file Z p = Inr e)" for p
    using get_file_target [of p] by (auto simp: exists_target split: option.splits)
  show "\<exists>s. zipfs_open_file Z (fe_name e) = Inr s" if "zipfs_get_file Z p = Inr e" "is_file e" for p e
    using fixed_name lookup_name(1) [OF that(1)] by (simp add: zipfs_open_file_def has_file)
  show "\<exists>es. zipfs_get_files Z (fe_name e) = Inr es" if "zipfs_get_file Z p = Inr e" "is_dir e" for p e
    using lookup_again [OF that(1)] listing_total that(2) by blast
qed

end

sublocale zip_archive \<subseteq> store: file_store "zipfs_exists Z" "zipfs_get_file Z" "zipfs_get_files Z" "zipfs_open_file Z"
  by (rule store_contract)

section \<open>An archive held in memory\<close>

text \<open>
  A reader over a list of entries: the files are the entries whose names are in normal form
  and whose directory mark agrees with the name; a path is found at its first position.
\<close>

definition entry_ok :: "zip_entry \<Rightarrow> bool" where
  "entry_ok e \<longleftrightarrow>
     zip_fix_path (ze_name e) = Inr (ze_name e) \<and>
     (ze_is_directory e \<longleftrightarrow> ze_name e \<noteq> [] \<and> last (ze_name e) = CHR ''/'')"

fun position_of :: "string \<Rightarrow> zip_entry list \<Rightarrow> nat" where
  "position_of p [] = 0"
| "position_of p (e # es) = (if ze_name e = p then 0 else Suc (position_of p es))"

definition zip_of :: "zip_entry list \<Rightarrow> zip_reader" where
  "zip_of es =
     (let es' = filter entry_ok es
      in \<lparr>zip_has_file = (\<lambda>p. p \<in> set (map ze_name es')),
          zip_find_by_path = (\<lambda>p. position_of p es'),
          zip_get_entry = (\<lambda>i. es' ! i),
          zip_files = map ze_name es'\<rparr>)"

lemma position_of_nth:
  "p \<in> ze_name ` set es \<Longrightarrow> es ! position_of p es \<in> set es \<and> ze_name (es ! position_of p es) = p"
  by (induction es) auto

lemma zip_of_ok: "zip_ok (zip_of es)"
proof -
  have "ze_name (zip_entry_of (zip_of es) p) = p \<and> entry_ok (zip_entry_of (zip_of es) p)"
    if "p \<in> set (zip_files (zip_of es))" for p
    using that position_of_nth [of p "filter entry_ok es"]
    by (auto simp: zip_of_def zip_entry_of_def Let_def)
  then show ?thesis
    unfolding zip_ok_def entry_ok_def by (metis (no_types, lifting) select_convs(1,4) zip_of_def)
qed

interpretation memory_zip: zip_archive "zip_of es" for es
  by unfold_locales (rule zip_of_ok)

text \<open>
  Listing a directory of a well-formed archive: \<^verbatim>\<open>get_files\<close> returns exactly the entries
  one level below it, ordered by name, each with its name relative to the directory and
  without the slash that marks a directory.
\<close>

theorem zip_listing_children:
  assumes "zip_ok Z" and "zipfs_get_file Z p = Inr e" "is_dir e"
  shows "\<exists>es. zipfs_get_files Z p = Inr es \<and> sorted_wrt (<) (map fe_name es)
     \<and> (\<forall>f. (\<exists>x \<in> set es. fe_name x = f) \<longleftrightarrow> f \<in> set (zip_files Z) \<and> (\<exists>n. child_of (fe_name e) f n))
     \<and> (\<forall>x \<in> set es. child_of (fe_name e) (fe_name x) (fe_file_name x))"
  by (rule zip_archive.listing_member [OF zip_archive.intro]) (rule assms)+

text \<open>
  C38. The zip file system keeps the contract its clients rely on: \<^verbatim>\<open>exists\<close> never throws and
  says whether \<^verbatim>\<open>get_file\<close> succeeds, a regular file can be opened and a directory listed
  under the name that its entry carries.
\<close>

theorem zip_store_contract:
  assumes "zip_ok Z"
  shows "file_store (fs_exists (zipfilesystem Z)) (fs_get_file (zipfilesystem Z))
           (fs_get_files (zipfilesystem Z)) (fs_open_file (zipfilesystem Z))"
  using zip_archive.intro [OF assms] unfolding zipfilesystem_def ifilesystem.simps
  by (rule zip_archive.store_contract)

definition sample_zip :: "zip_entry list" where
  "sample_zip =
     (let s = \<lparr>is_data = ''x'', is_good = True\<rparr>
      in [\<lparr>ze_name = ''www/'', ze_is_directory = True, ze_last_modified = 0, ze_uncompressed_size = 0, ze_stream = s\<rparr>,
          \<lparr>ze_name = ''www/a.txt'', ze_is_directory = False, ze_last_modified = 0, ze_uncompressed_size = 1, ze_stream = s\<rparr>])"

lemma sample_root:
  "case zipfs_get_file (zip_of sample_zip) ''/www'' of Inl _ \<Rightarrow> False | Inr e \<Rightarrow> is_dir e"
  by code_simp

theorem zip_listing_children_witness:
  "\<exists>es. zipfs_get_files (zip_of sample_zip) ''/www'' = Inr es \<and> sorted_wrt (<) (map fe_name es)"
proof -
  obtain e where "zipfs_get_file (zip_of sample_zip) ''/www'' = Inr e" "is_dir e"
    using sample_root by (auto split: sum.splits)
  then show ?thesis using zip_listing_children [OF zip_of_ok] by blast
qed

theorem zip_store_contract_witness:
  "file_store (fs_exists (zipfilesystem (zip_of sample_zip))) (fs_get_file (zipfilesystem (zip_of sample_zip)))
     (fs_get_files (zipfilesystem (zip_of sample_zip))) (fs_open_file (zipfilesystem (zip_of sample_zip)))"
  by (rule zip_store_contract [OF zip_of_ok])

end
