(* ===== verification/Connection.thy ===== *)
theory Connection imports Routing_Table Attributes Uri Filesystem
begin

text \<open>
  The state of one HTTP connection and everything a request can observe or change in it:
  the fields of \<^verbatim>\<open>http_connection\<close> (\<^verbatim>\<open>src/handler.cpp\<close>), the wrappers of
  \<^verbatim>\<open>http/mw/connection_forward.h\<close> that middleware puts around it, the closures that wait for
  the completion queue, and what the application supplies. The accessors and helpers of
  \<^verbatim>\<open>http/connection.h\<close> and \<^verbatim>\<open>src/http/connection.cpp\<close> follow.
\<close>

section \<open>Messages\<close>

record client_info =
  ci_remote_ip :: string
  ci_remote_port :: "32 word"
  ci_local_ip :: string
  ci_local_port :: "32 word"
  ci_encrypted :: bool

record request =
  rq_method :: string
  rq_resource :: string
  rq_protocol :: string
  rq_headers :: "(string \<times> string) list"
  rq_client :: client_info

record response =
  rs_status :: int
  rs_message :: string
  rs_headers :: "(string \<times> string) list"
  rs_content :: string

definition empty_response :: response where
  "empty_response = \<lparr>rs_status = 0, rs_message = [], rs_headers = [], rs_content = []\<rparr>"

text \<open>What was handed to the stream: a message, with the hint to buffer it, or the status that ends the call.\<close>

datatype wire =
    W_write response bool
  | W_finish
  | W_write_finish response

section \<open>Objects and closures\<close>

text \<open>
  A connection object is \<^verbatim>\<open>http_connection\<close> itself or a wrapper around another one; wrappers
  have an identity, which the mutable fields of the wrapper are stored under.
\<close>

datatype connection =
    Http
  | Rewrite_con connection string nat
  | Mime_con connection string nat

fun object_id :: "connection \<Rightarrow> nat" where
  "object_id Http = 0"
| "object_id (Rewrite_con _ _ i) = i"
| "object_id (Mime_con _ _ i) = i"

text \<open>
  A callable of type \<^verbatim>\<open>void(connection_ptr, bool)\<close>: the default argument of \<^verbatim>\<open>end\<close>, a function
  of the application, or one of the two lambdas of \<^verbatim>\<open>filesystem_route_handler.cpp\<close>. A
  \<^verbatim>\<open>std::function\<close> may be empty, so it is an option.
\<close>

datatype 'k closure =
    Nop_cb
  | User_cb 'k
  | Fs_serve filesystem_route_handler
  | Fs_sent

text \<open>
  The callable of a read: empty, a function of the application, the lambda of \<^verbatim>\<open>skip_body\<close>, or
  \<^verbatim>\<open>read_body_helper\<close> bound to a callable and a buffer.
\<close>

datatype 'k body_cb =
    Body_none
  | Body_user 'k
  | Body_skip "'k closure option"
  | Body_helper "'k body_cb" "nat option"

text \<open>What a write calls when it is done: a callable, or \<^verbatim>\<open>helper::handle_send\<close> of a stream.\<close>

datatype 'k done_cb =
    Done_cb "'k closure option"
  | Done_stream nat

datatype 'k pending =
    P_read "'k body_cb"
  | P_write "'k done_cb"
  | P_finish "'k done_cb"
  | P_write_finish "'k done_cb"

record 'k stream_helper =
  sh_body :: istream
  sh_cb :: "'k closure option"

datatype attr_type = Route_params_t | User_t nat
datatype attr = Route_params_attr route_params | User_attr nat

record ('k, 'u) world =
  w_attributes :: "(attr_type, attr) attribute_map"
  w_request :: request
  w_req_headers :: "(string \<times> string) list"
  w_resp :: response
  w_read_locked :: bool
  w_write_locked :: bool
  w_read_done :: bool
  w_headers_sent :: bool
  w_finished :: bool
  w_started :: bool
  w_pending :: "'k pending list"
  w_wire :: "wire list"
  w_helpers :: "nat \<Rightarrow> 'k stream_helper option"
  w_buffers :: "nat \<Rightarrow> string option"
  w_next :: nat
  w_parsed :: "nat \<Rightarrow> uri option"
  w_type_set :: "nat \<Rightarrow> bool"
  w_log :: "string list"
  w_user :: 'u

text \<open>
  What the application and third-party code supply: the string helpers, the functions that
  numbers and closures stand for, the file systems, and how the date library prints the
  parts of a date that is given as a number of days since the epoch.
\<close>

record date_lib =
  dt_weekday :: "int \<Rightarrow> string"
  dt_day :: "int \<Rightarrow> string"
  dt_month :: "int \<Rightarrow> string"
  dt_year :: "int \<Rightarrow> string"
  dt_date :: "int \<Rightarrow> string"

record ('k, 'u) env =
  e_ttl :: ttl
  e_date :: date_lib
  e_fs :: "nat \<Rightarrow> ifilesystem"
  e_done :: "'k \<Rightarrow> connection \<Rightarrow> bool \<Rightarrow> ('k, 'u) world act"
  e_body :: "'k \<Rightarrow> connection \<Rightarrow> bool \<Rightarrow> string \<Rightarrow> ('k, 'u) world act"
  e_notfound :: "nat \<Rightarrow> connection \<Rightarrow> ('k, 'u) world act"
  e_error :: "nat \<Rightarrow> connection \<Rightarrow> string \<Rightarrow> exc option \<Rightarrow> ('k, 'u) world act"
  e_handler :: "nat \<Rightarrow> connection \<Rightarrow> ('k, 'u) world act"
  e_mw :: "nat \<Rightarrow> connection \<Rightarrow> (connection \<Rightarrow> ('k, 'u) world act) \<Rightarrow> ('k, 'u) world act"
  e_rewrite :: "nat \<Rightarrow> connection \<Rightarrow> ('k, 'u) world \<Rightarrow> ('k, 'u) world \<times> string result"

section \<open>Accessors\<close>

text \<open>
  \<^verbatim>\<open>connection_forward\<close> hands every accessor on to the wrapped connection; only the wrapper
  of the rewriting middleware answers \<^verbatim>\<open>get_resource\<close> itself. Ports travel as 32-bit numbers
  and are narrowed to \<^verbatim>\<open>uint16_t\<close>.
\<close>

definition get_client_ip :: "('k, 'u) world \<Rightarrow> string" where
  "get_client_ip w = ci_remote_ip (rq_client (w_request w))"

definition get_client_port :: "('k, 'u) world \<Rightarrow> 16 word" where
  "get_client_port w = ucast (ci_remote_port (rq_client (w_request w)))"

definition get_server_ip :: "('k, 'u) world \<Rightarrow> string" where
  "get_server_ip w = ci_local_ip (rq_client (w_request w))"

definition get_server_port :: "('k, 'u) world \<Rightarrow> 16 word" where
  "get_server_port w = ucast (ci_local_port (rq_client (w_request w)))"

definition is_encrypted :: "('k, 'u) world \<Rightarrow> bool" where
  "is_encrypted w = ci_encrypted (rq_client (w_request w))"

definition get_method :: "('k, 'u) world \<Rightarrow> string" where
  "get_method w = rq_method (w_request w)"

definition is_get :: "('k, 'u) world \<Rightarrow> bool" where
  "is_get w \<longleftrightarrow> get_method w = ''GET''"

definition is_post :: "('k, 'u) world \<Rightarrow> bool" where
  "is_post w \<longleftrightarrow> get_method w = ''POST''"

fun get_resource :: "connection \<Rightarrow> ('k, 'u) world \<Rightarrow> string" where
  "get_resource Http w = rq_resource (w_request w)"
| "get_resource (Rewrite_con c r i) w = r"
| "get_resource (Mime_con c t i) w = get_resource c w"

definition get_protocol :: "('k, 'u) world \<Rightarrow> string" where
  "get_protocol w = rq_protocol (w_request w)"

definition get_headers :: "('k, 'u) world \<Rightarrow> (string \<times> string) list" where
  "get_headers w = w_req_headers w"

definition is_headers_done :: "('k, 'u) world \<Rightarrow> bool" where
  "is_headers_done w = w_headers_sent w"

definition is_body_read :: "('k, 'u) world \<Rightarrow> bool" where
  "is_body_read w = w_read_done w"

definition is_finished :: "('k, 'u) world \<Rightarrow> bool" where
  "is_finished w = w_finished w"

definition route_params_of :: "('k, 'u) world \<Rightarrow> route_params option" where
  "route_params_of w =
     (case get_attribute (w_attributes w) Route_params_t of
        Some (Route_params_attr ps) \<Rightarrow> Some ps
      | _ \<Rightarrow> None)"

definition set_route_params :: "route_params \<Rightarrow> ('k, 'u) world \<Rightarrow> ('k, 'u) world" where
  "set_route_params ps w =
     w\<lparr>w_attributes := set_attribute Route_params_t (Some (Route_params_attr ps)) (w_attributes w)\<rparr>"

lemma route_params_set [simp]: "route_params_of (set_route_params ps w) = Some ps"
  by (simp add: route_params_of_def set_route_params_def)

text \<open>\<^verbatim>\<open>get_parsed_uri\<close> parses the resource once per object; a failed parse leaves the cache empty.\<close>

definition get_parsed_uri :: "connection \<Rightarrow> ('k, 'u) world \<Rightarrow> ('k, 'u) world \<times> uri result" where
  "get_parsed_uri con w =
     (case w_parsed w (object_id con) of
        Some u \<Rightarrow> (w, Inr u)
      | None \<Rightarrow>
          (case parse_uri (get_resource con w) of
             Inl e \<Rightarrow> (w, Inl e)
           | Inr u \<Rightarrow> (w\<lparr>w_parsed := (w_parsed w)(object_id con \<mapsto> u)\<rparr>, Inr u)))"

definition has_header :: "ttl \<Rightarrow> ('k, 'u) world \<Rightarrow> string \<Rightarrow> bool" where
  "has_header T w key \<longleftrightarrow> mm_count (ttl_to_lower T key) (get_headers w) \<noteq> 0"

definition get_header :: "ttl \<Rightarrow> ('k, 'u) world \<Rightarrow> string \<Rightarrow> string" where
  "get_header T w key =
     (let k = ttl_to_lower T key
      in if mm_count k (get_headers w) \<noteq> 0
         then (case map_of (get_headers w) k of Some v \<Rightarrow> v | None \<Rightarrow> [])
         else [])"

section \<open>Status and headers of the response\<close>

definition set_status :: "int \<Rightarrow> string \<Rightarrow> ('k, 'u) world act" where
  "set_status code message =
     modify (\<lambda>w. let r = (w_resp w)\<lparr>rs_status := code\<rparr>
       in w\<lparr>w_resp := (if message \<noteq> [] then r\<lparr>rs_message := message\<rparr> else r)\<rparr>)"

fun header_replace :: "string \<Rightarrow> string \<Rightarrow> (string \<times> string) list \<Rightarrow> (string \<times> string) list option" where
  "header_replace key v [] = None"
| "header_replace key v (h # hs) =
     (if fst h = key then Some ((key, v) # hs) else map_option ((#) h) (header_replace key v hs))"

definition put_header :: "string \<Rightarrow> string \<Rightarrow> bool \<Rightarrow> (string \<times> string) list \<Rightarrow> (string \<times> string) list" where
  "put_header key v replace hs =
     (case (if replace then header_replace key v hs else None) of
        Some hs' \<Rightarrow> hs'
      | None \<Rightarrow> hs @ [(key, v)])"

definition base_set_header :: "ttl \<Rightarrow> string \<Rightarrow> string \<Rightarrow> bool \<Rightarrow> ('k, 'u) world act" where
  "base_set_header T pkey v replace =
     modify (\<lambda>w. w\<lparr>w_resp := (w_resp w)\<lparr>rs_headers :=
       put_header (ttl_to_lower T pkey) v replace (rs_headers (w_resp w))\<rparr>\<rparr>)"

text \<open>The wrapper of the mime middleware notes that a content type was set.\<close>

fun set_header :: "ttl \<Rightarrow> connection \<Rightarrow> string \<Rightarrow> string \<Rightarrow> bool \<Rightarrow> ('k, 'u) world act" where
  "set_header T Http key v replace = base_set_header T key v replace"
| "set_header T (Rewrite_con c r i) key v replace = set_header T c key v replace"
| "set_header T (Mime_con c t i) key v replace =
     seq (set_header T c key v replace)
       (if map lower_char key = ''content-type''
        then modify (\<lambda>w. w\<lparr>w_type_set := (w_type_set w)(i := True)\<rparr>)
        else skip)"

text \<open>The wrapper's \<^verbatim>\<open>set_header()\<close>, called before the response is sent.\<close>

definition mime_set_header :: "ttl \<Rightarrow> connection \<Rightarrow> string \<Rightarrow> nat \<Rightarrow> ('k, 'u) world act" where
  "mime_set_header T c t i =
     read_state (\<lambda>w. if w_type_set w i then skip
       else seq (set_header T c ''Content-Type'' t False)
              (modify (\<lambda>w. w\<lparr>w_type_set := (w_type_set w)(i := True)\<rparr>)))"

section \<open>Properties\<close>

lemma header_replace_None: "header_replace k v hs = None \<longleftrightarrow> k \<notin> fst ` set hs"
  by (induction hs) auto

lemma header_replace_Some:
  "header_replace k v hs = Some hs' \<Longrightarrow>
     \<exists>a u b. hs = a @ (k, u) # b \<and> hs' = a @ (k, v) # b \<and> k \<notin> fst ` set a"
proof (induction hs arbitrary: hs')
  case (Cons h hs)
  show ?case
  proof (cases "fst h = k")
    case True
    then have "h # hs = [] @ (k, snd h) # hs \<and> hs' = [] @ (k, v) # hs \<and> k \<notin> fst ` set []"
      using Cons.prems by (cases h) auto
    then show ?thesis by blast
  next
    case False
    then obtain hs'' where "header_replace k v hs = Some hs''" "hs' = h # hs''"
      using Cons.prems by auto
    moreover obtain a u b where "hs = a @ (k, u) # b" "hs'' = a @ (k, v) # b" "k \<notin> fst ` set a"
      using Cons.IH calculation(1) by blast
    ultimately have "h # hs = (h # a) @ (k, u) # b \<and> hs' = (h # a) @ (k, v) # b \<and> k \<notin> fst ` set (h # a)"
      using False by auto
    then show ?thesis by blast
  qed
qed simp

text \<open>
  Setting a header with \<^verbatim>\<open>replace\<close> leaves exactly one change: the first header of that
  (lower-cased) name gets the value in place, or a new one is added at the end; without
  \<^verbatim>\<open>replace\<close> it is always added, so the name can occur twice. The status, the message and
  the content are untouched.
\<close>

theorem set_header_effect:
  fixes w :: "('k, 'u) world"
  defines "hs \<equiv> rs_headers (w_resp w)"
  shows "\<exists>w'. set_header T Http key v replace w = (w', Go)
    \<and> w' = w\<lparr>w_resp := (w_resp w)\<lparr>rs_headers := rs_headers (w_resp w')\<rparr>\<rparr>
    \<and> (if replace \<and> ttl_to_lower T key \<in> fst ` set hs
       then \<exists>a u b. hs = a @ (ttl_to_lower T key, u) # b \<and> ttl_to_lower T key \<notin> fst ` set a
              \<and> rs_headers (w_resp w') = a @ (ttl_to_lower T key, v) # b
       else rs_headers (w_resp w') = hs @ [(ttl_to_lower T key, v)])"
proof -
  let ?k = "ttl_to_lower T key"
  have "if replace \<and> ?k \<in> fst ` set hs
       then \<exists>a u b. hs = a @ (?k, u) # b \<and> ?k \<notin> fst ` set a \<and> put_header ?k v replace hs = a @ (?k, v) # b
       else put_header ?k v replace hs = hs @ [(?k, v)]"
  proof (cases "header_replace ?k v hs")
    case None
    then show ?thesis using header_replace_None [of ?k v hs] by (simp add: put_header_def)
  next
    case (Some hs')
    then have "?k \<in> fst ` set hs" using header_replace_None [of ?k v hs] by simp
    then show ?thesis using header_replace_Some [OF Some] Some by (simp add: put_header_def) blast
  qed
  then show ?thesis
    unfolding hs_def by (cases "replace \<and> ?k \<in> fst ` set hs") (auto simp: base_set_header_def act_simps hs_def)
qed

lemma get_header_map: "get_header T w key = (case map_of (w_req_headers w) (ttl_to_lower T key) of Some v \<Rightarrow> v | None \<Rightarrow> [])"
  using mm_count_map_of [of "ttl_to_lower T key" "w_req_headers w"]
  by (auto simp: get_header_def get_headers_def Let_def split: option.splits)

text \<open>The cache of parsed URIs is right when every entry is what parsing the object's resource yields.\<close>

definition cache_ok :: "connection \<Rightarrow> ('k, 'u) world \<Rightarrow> bool" where
  "cache_ok con w \<longleftrightarrow>
     (case w_parsed w (object_id con) of None \<Rightarrow> True | Some u \<Rightarrow> parse_uri (get_resource con w) = Inr u)"

lemma get_parsed_uri_ok:
  "cache_ok con w \<Longrightarrow> snd (get_parsed_uri con w) = parse_uri (get_resource con w)"
  by (auto simp: get_parsed_uri_def cache_ok_def split: option.splits sum.splits)

lemma get_resource_update [simp]:
  "get_resource con (w\<lparr>w_parsed := p\<rparr>) = get_resource con w"
  "get_resource con (w\<lparr>w_attributes := a\<rparr>) = get_resource con w"
  "get_resource con (w\<lparr>w_resp := r\<rparr>) = get_resource con w"
  "get_resource con (w\<lparr>w_next := n\<rparr>) = get_resource con w"
  "get_resource con (w\<lparr>w_log := l\<rparr>) = get_resource con w"
  by (induction con) simp_all

lemma get_parsed_uri_cached:
  assumes "cache_ok con w"
  shows "cache_ok con (fst (get_parsed_uri con w))"
  using assms by (auto simp: get_parsed_uri_def cache_ok_def split: option.splits sum.splits)

end
