(* ===== verification/Http_Connection.thy ===== *)
theory Http_Connection imports Connection
begin

text \<open>
  The operations of \<^verbatim>\<open>http_connection\<close> (\<^verbatim>\<open>src/handler.cpp\<close>) that write, and
  \<^verbatim>\<open>router::handle_exception\<close>, which every callback runs under. An operation locks its mutex,
  starts an asynchronous call and leaves the mutex locked for the completion to release; a
  second operation of the same direction waits until then (\<open>Hang\<close>).

  An operation takes a callable twice: as data, to be stored with the call it starts, and as
  \<open>notify\<close>, what calling it now does; \<open>catch\<close> is what the surrounding handler for all
  exceptions does. The theories above instantiate both.
\<close>

section \<open>The two mutexes\<close>

definition lock_read :: "('k, 'u) world act" where
  "lock_read = read_state (\<lambda>w. if w_read_locked w then block else modify (\<lambda>w. w\<lparr>w_read_locked := True\<rparr>))"

definition unlock_read :: "('k, 'u) world act" where
  "unlock_read = read_state (\<lambda>w. if w_read_locked w then modify (\<lambda>w. w\<lparr>w_read_locked := False\<rparr>) else undefined_act)"

definition lock_write :: "('k, 'u) world act" where
  "lock_write = read_state (\<lambda>w. if w_write_locked w then block else modify (\<lambda>w. w\<lparr>w_write_locked := True\<rparr>))"

definition unlock_write :: "('k, 'u) world act" where
  "unlock_write = read_state (\<lambda>w. if w_write_locked w then modify (\<lambda>w. w\<lparr>w_write_locked := False\<rparr>) else undefined_act)"

definition issue :: "'k pending \<Rightarrow> ('k, 'u) world act" where
  "issue p = modify (\<lambda>w. w\<lparr>w_pending := w_pending w @ [p]\<rparr>)"

definition transmit :: "(response \<Rightarrow> wire) \<Rightarrow> ('k, 'u) world act" where
  "transmit f = modify (\<lambda>w. w\<lparr>w_wire := w_wire w @ [f (w_resp w)]\<rparr>)"

section \<open>Writing\<close>

text \<open>
  The callback that runs because the body was not read yet is not followed by a \<^verbatim>\<open>return\<close>:
  the write goes ahead, now without the mutex.
\<close>

definition early_write :: "(exc \<Rightarrow> ('k, 'u) world act) \<Rightarrow> (bool \<Rightarrow> ('k, 'u) world act) \<Rightarrow> ('k, 'u) world act" where
  "early_write catch notify =
     read_state (\<lambda>w. if \<not> w_read_done w then seq unlock_write (try_catch (notify False) catch) else skip)"

definition base_send_body ::
    "(exc \<Rightarrow> ('k, 'u) world act) \<Rightarrow> (bool \<Rightarrow> ('k, 'u) world act) \<Rightarrow> string \<Rightarrow> 'k done_cb \<Rightarrow> bool \<Rightarrow> ('k, 'u) world act" where
  "base_send_body catch notify body cb can_buffer =
     seq lock_write (seq (early_write catch notify)
       (read_state (\<lambda>w.
          seq (modify (\<lambda>w. let r = (if w_headers_sent w then empty_response else w_resp w)
                 in w\<lparr>w_resp := r\<lparr>rs_content := body\<rparr>\<rparr>))
         (seq (transmit (\<lambda>r. W_write r (can_buffer \<and> w_headers_sent w)))
              (issue (P_write cb))))))"

definition base_end ::
    "(exc \<Rightarrow> ('k, 'u) world act) \<Rightarrow> (bool \<Rightarrow> ('k, 'u) world act) \<Rightarrow> string \<Rightarrow> 'k closure option \<Rightarrow> ('k, 'u) world act" where
  "base_end catch notify body cb =
     seq lock_write (seq (early_write catch notify)
       (read_state (\<lambda>w.
          if w_headers_sent w \<and> body = [] then
            seq (modify (\<lambda>w. w\<lparr>w_finished := True\<rparr>))
           (seq (transmit (\<lambda>_. W_finish)) (issue (P_finish (Done_cb cb))))
          else
            seq (modify (\<lambda>w. w\<lparr>w_finished := True, w_resp := (w_resp w)\<lparr>rs_content := body\<rparr>\<rparr>))
           (seq (transmit W_write_finish) (issue (P_write_finish (Done_cb cb)))))))"

text \<open>
  \<^verbatim>\<open>send_body(std::istream&)\<close>: a helper object on the heap sends the stream in chunks of
  65536 bytes; reading fewer bytes than asked for makes the stream fail. The branch that
  calls the callback and deletes the helper is \<open>stream_finish\<close>; it is also what the early
  callback of \<^verbatim>\<open>send_body\<close> amounts to, which passes \<open>False\<close>.
\<close>

definition chunk_size :: nat where
  "chunk_size = 65536"

definition stream_finish ::
    "(exc \<Rightarrow> ('k, 'u) world act) \<Rightarrow> ('k closure option \<Rightarrow> bool \<Rightarrow> ('k, 'u) world act) \<Rightarrow> nat \<Rightarrow> bool \<Rightarrow> ('k, 'u) world act" where
  "stream_finish catch run h ok =
     read_state (\<lambda>w. case w_helpers w h of
       None \<Rightarrow> undefined_act
     | Some sh \<Rightarrow> seq (try_catch (run (sh_cb sh) ok) catch)
                    (modify (\<lambda>w. w\<lparr>w_helpers := (w_helpers w)(h := None)\<rparr>)))"

definition read_chunk :: "istream \<Rightarrow> string \<times> istream" where
  "read_chunk s =
     (take chunk_size (is_data s),
      \<lparr>is_data = drop chunk_size (is_data s), is_good = chunk_size \<le> length (is_data s)\<rparr>)"

definition handle_send ::
    "(exc \<Rightarrow> ('k, 'u) world act) \<Rightarrow> ('k closure option \<Rightarrow> bool \<Rightarrow> ('k, 'u) world act) \<Rightarrow> nat \<Rightarrow> bool \<Rightarrow> ('k, 'u) world act" where
  "handle_send catch run h ok =
     read_state (\<lambda>w. case w_helpers w h of
       None \<Rightarrow> undefined_act
     | Some sh \<Rightarrow>
         if \<not> is_good (sh_body sh) \<or> \<not> ok then stream_finish catch run h ok
         else (let (buf, rest) = read_chunk (sh_body sh)
               in seq (modify (\<lambda>w. w\<lparr>w_helpers := (w_helpers w)(h \<mapsto> sh\<lparr>sh_body := rest\<rparr>)\<rparr>))
                      (base_send_body catch (stream_finish catch run h) buf (Done_stream h) False)))"

lemma handle_send_not_ok: "handle_send catch run h False = stream_finish catch run h False"
  by (auto simp: handle_send_def stream_finish_def fun_eq_iff act_simps split: option.split)

definition base_send_stream ::
    "(exc \<Rightarrow> ('k, 'u) world act) \<Rightarrow> ('k closure option \<Rightarrow> bool \<Rightarrow> ('k, 'u) world act) \<Rightarrow> istream \<Rightarrow> 'k closure option \<Rightarrow> ('k, 'u) world act" where
  "base_send_stream catch run body cb =
     read_state (\<lambda>w.
       seq (modify (\<lambda>w. w\<lparr>w_helpers := (w_helpers w)(w_next w \<mapsto> \<lparr>sh_body = body, sh_cb = cb\<rparr>),
                         w_next := w_next w + 1\<rparr>))
           (handle_send catch run (w_next w) True))"

section \<open>Dispatch through the wrappers\<close>

text \<open>
  A wrapper forwards to the object it wraps and so to \<^verbatim>\<open>http_connection\<close> in the end; the
  wrapper of the mime middleware first sets its content type. The callback is always handed
  the innermost object, not the wrapper the operation was called on.
\<close>

fun prepare_body :: "ttl \<Rightarrow> connection \<Rightarrow> ('k, 'u) world act" where
  "prepare_body T Http = skip"
| "prepare_body T (Rewrite_con c r i) = prepare_body T c"
| "prepare_body T (Mime_con c t i) = seq (mime_set_header T c t i) (prepare_body T c)"

definition con_end ::
    "ttl \<Rightarrow> (exc \<Rightarrow> ('k, 'u) world act) \<Rightarrow> (bool \<Rightarrow> ('k, 'u) world act) \<Rightarrow> connection \<Rightarrow> string \<Rightarrow> 'k closure option \<Rightarrow> ('k, 'u) world act" where
  "con_end T catch notify con body cb = seq (prepare_body T con) (base_end catch notify body cb)"

definition con_send_body ::
    "ttl \<Rightarrow> (exc \<Rightarrow> ('k, 'u) world act) \<Rightarrow> (bool \<Rightarrow> ('k, 'u) world act) \<Rightarrow> connection \<Rightarrow> string \<Rightarrow> 'k closure option \<Rightarrow> bool \<Rightarrow> ('k, 'u) world act" where
  "con_send_body T catch notify con body cb can_buffer =
     seq (prepare_body T con) (base_send_body catch notify body (Done_cb cb) can_buffer)"

definition con_send_stream ::
    "ttl \<Rightarrow> (exc \<Rightarrow> ('k, 'u) world act) \<Rightarrow> ('k closure option \<Rightarrow> bool \<Rightarrow> ('k, 'u) world act) \<Rightarrow> connection \<Rightarrow> istream \<Rightarrow> 'k closure option \<Rightarrow> ('k, 'u) world act" where
  "con_send_stream T catch run con body cb = seq (prepare_body T con) (base_send_stream catch run body cb)"

section \<open>Exceptions become responses\<close>

text \<open>\<^verbatim>\<open>con->end()\<close> with its default argument: a callback that does nothing.\<close>

definition end_quietly :: "ttl \<Rightarrow> connection \<Rightarrow> ('k, 'u) world act" where
  "end_quietly T con = con_end T throw (\<lambda>_. skip) con [] (Some Nop_cb)"

definition call_notfound :: "('k, 'u) env \<Rightarrow> routing_info \<Rightarrow> connection \<Rightarrow> ('k, 'u) world act" where
  "call_notfound E info con =
     (case ri_notfound info of Some f \<Rightarrow> e_notfound E f con | None \<Rightarrow> set_status 404 [])"

definition call_error ::
    "('k, 'u) env \<Rightarrow> routing_info \<Rightarrow> connection \<Rightarrow> string \<Rightarrow> exc option \<Rightarrow> string \<Rightarrow> ('k, 'u) world act" where
  "call_error E info con what ptr status =
     (case ri_error info of Some f \<Rightarrow> e_error E f con what ptr | None \<Rightarrow> set_status 500 status)"

definition with_info :: "route_params \<Rightarrow> (routing_info \<Rightarrow> ('k, 'u) world act) \<Rightarrow> ('k, 'u) world act" where
  "with_info ps f = (case rp_info ps of None \<Rightarrow> undefined_act | Some info \<Rightarrow> f info)"

definition debug_header :: "('k, 'u) env \<Rightarrow> routing_info \<Rightarrow> connection \<Rightarrow> string \<Rightarrow> ('k, 'u) world act" where
  "debug_header E info con text =
     (if ri_debug_mode info then set_header (e_ttl E) con ''X-Exception'' text False else skip)"

definition respond_exception :: "('k, 'u) env \<Rightarrow> connection \<Rightarrow> route_params \<Rightarrow> exc \<Rightarrow> ('k, 'u) world act" where
  "respond_exception E con ps e =
     (case e of
        Http_exception code msg \<Rightarrow>
          if code = 404 then with_info ps (\<lambda>info. call_notfound E info con)
          else if code = 500 then with_info ps (\<lambda>info. call_error E info con msg (Some e) msg)
          else set_status code msg
      | Std_exception what \<Rightarrow>
          with_info ps (\<lambda>info.
            seq (debug_header E info con (''std::exception('' @ what @ '')''))
                (call_error E info con what (Some e) ''Internal error''))
      | _ \<Rightarrow>
          with_info ps (\<lambda>info.
            seq (debug_header E info con ''unknown'')
                (call_error E info con ''Internal error'' (Some e) ''Internal error'')))"

definition handle_exception :: "('k, 'u) env \<Rightarrow> connection \<Rightarrow> exc \<Rightarrow> ('k, 'u) world act" where
  "handle_exception E con e =
     read_state (\<lambda>w. case route_params_of w of
       None \<Rightarrow> throw e
     | Some ps \<Rightarrow>
         seq (respond_exception E con ps e)
             (read_state (\<lambda>w. if is_finished w then skip else end_quietly (e_ttl E) con)))"

end
