(* ===== verification/Fs_Route.thy ===== *)
theory Fs_Route imports Http_Connection
begin

text \<open>
  \<^verbatim>\<open>src/http/route/filesystem_route_handler.cpp\<close>: the two formatting functions and the
  lambda that answers a request once its body was skipped. The calendar is the date
  library's; the arithmetic on seconds is modelled.
\<close>

section \<open>Formatting\<close>

definition pad2 :: "int \<Rightarrow> string" where
  "pad2 i = (let s = dec_int i in replicate (2 - length s) (CHR ''0'') @ s)"

definition days_of :: "int \<Rightarrow> int" where
  "days_of t = t div 86400"

definition hours_of :: "int \<Rightarrow> int" where
  "hours_of t = (t mod 86400) div 3600"

definition minutes_of :: "int \<Rightarrow> int" where
  "minutes_of t = (t mod 3600) div 60"

definition seconds_of :: "int \<Rightarrow> int" where
  "seconds_of t = t mod 60"

definition last_modified :: "date_lib \<Rightarrow> int \<Rightarrow> string" where
  "last_modified D t =
     (let d = days_of t
      in dt_weekday D d @ '', '' @ dt_day D d @ '' '' @ dt_month D d @ '' '' @ dt_year D d @ '' ''
         @ dec_int (hours_of t) @ '':'' @ dec_int (minutes_of t) @ '':'' @ dec_int (seconds_of t) @ '' GMT'')"

text \<open>The loop of \<^verbatim>\<open>format_size\<close>; the size is a signed 64-bit number.\<close>

function size_loop :: "int \<Rightarrow> nat \<Rightarrow> int \<times> nat" where
  "size_loop sz mul = (if 1024 \<le> sz then size_loop (sz div 1024) (mul + 1) else (sz, mul))"
  by auto
termination by (relation "measure (\<lambda>(s, _). nat s)") auto

declare size_loop.simps [simp del]

definition size_ext :: string where
  "size_ext = ''KMGTPEZY''"

definition format_size :: "64 word \<Rightarrow> string result" where
  "format_size n =
     (let (sz, mul) = size_loop (sint n) 0
      in if mul \<noteq> 0 then ebind (char_at size_ext (mul - 1)) (\<lambda>c. Inr (dec_int sz @ [c]))
         else Inr (dec_int sz))"

section \<open>Answering a request\<close>

definition listing_row :: "date_lib \<Rightarrow> fs_entry \<Rightarrow> string result" where
  "listing_row D e =
     (if fe_type e = Fs_unknown then Inr [] else
      ebind (format_size (if is_dir e then 0 else of_nat (fe_size e))) (\<lambda>size.
      Inr (''<tr><td>'' @ (if is_dir e then ''[DIR ]'' else ''[FILE]'')
        @ ''</td><td><a href='' @ [CHR 0x22] @ ''./'' @ fe_file_name e @ [CHR 0x22] @ ''>''
        @ fe_file_name e @ ''</a></td><td>''
        @ dt_date D (days_of (fe_lmodified e)) @ '' '' @ pad2 (hours_of (fe_lmodified e)) @ '':''
        @ pad2 (minutes_of (fe_lmodified e)) @ ''</td><td>'' @ size @ ''</td></tr>'')))"

definition listing_page :: "date_lib \<Rightarrow> string \<Rightarrow> fs_entry list \<Rightarrow> string result" where
  "listing_page D resource es =
     ebind (emap (listing_row D) es) (\<lambda>rows.
     Inr (''<!DOCTYPE html><html><head><meta charset='' @ [CHR 0x22] @ ''utf-8'' @ [CHR 0x22]
        @ ''><title>Index of '' @ resource @ ''</title></head><body><h1>Index of '' @ resource @ ''</h1>''
        @ ''<table><tr><th></th><th>Name</th><th>Last modified</th><th>Size</th></tr>''
        @ ''<tr><td colspan=4><hr></td><tr>'' @ concat rows @ ''</table></body></html>''))"

definition notfound_exception :: exc where
  "notfound_exception = Http_exception 404 ''Not found''"

definition servererror_exception :: exc where
  "servererror_exception = Http_exception 500 ''Servererror''"

definition fs_sent :: "('k, 'u) env \<Rightarrow> connection \<Rightarrow> ('k, 'u) world act" where
  "fs_sent E con = end_quietly (e_ttl E) con"

definition serve_file :: "('k, 'u) env \<Rightarrow> connection \<Rightarrow> fs_entry \<Rightarrow> istream \<Rightarrow> ('k, 'u) world act" where
  "serve_file E con p stream =
     seq (set_status 200 ''OK'')
    (seq (set_header (e_ttl E) con ''Content-Length'' (dec_nat (fe_size p)) False)
    (seq (set_header (e_ttl E) con ''Last-Modified'' (last_modified (e_date E) (fe_lmodified p)) False)
         (con_send_stream (e_ttl E) (handle_exception E Http) (\<lambda>_ _. fs_sent E Http) con stream (Some Fs_sent))))"

definition serve_listing :: "('k, 'u) env \<Rightarrow> connection \<Rightarrow> fs_entry list \<Rightarrow> ('k, 'u) world act" where
  "serve_listing E con es =
     read_state (\<lambda>w. attempt (listing_page (e_date E) (get_resource con w) es) (\<lambda>page.
       con_end (e_ttl E) (handle_exception E Http) (\<lambda>_. skip) con page (Some Nop_cb)))"

definition serve_entry ::
    "('k, 'u) env \<Rightarrow> filesystem_route_handler \<Rightarrow> connection \<Rightarrow> fs_entry \<Rightarrow> ('k, 'u) world act" where
  "serve_entry E fh con p =
     (if is_file p then
        read_state (\<lambda>w.
          if last_modified (e_date E) (fe_lmodified p) = get_header (e_ttl E) w ''If-Modified-Since'' then
            seq (set_status 304 ''Not modified'')
           (seq (set_header (e_ttl E) con ''Last-Modified'' (last_modified (e_date E) (fe_lmodified p)) False)
                (end_quietly (e_ttl E) con))
          else attempt (fs_open_file (e_fs E (fh_fs fh)) (fe_name p)) (\<lambda>stream.
            if is_good stream then serve_file E con p stream else throw notfound_exception))
      else if fh_allow_listing fh \<and> is_dir p then
        seq (set_status 200 ''OK'')
            (attempt (fs_get_files (e_fs E (fh_fs fh)) (fe_name p)) (serve_listing E con))
      else throw notfound_exception)"

definition fs_serve ::
    "('k, 'u) env \<Rightarrow> filesystem_route_handler \<Rightarrow> connection \<Rightarrow> ('k, 'u) world act" where
  "fs_serve E fh con =
     read_state (\<lambda>w. case route_params_of w of
       None \<Rightarrow> throw (Std_exception ''Missing route_params attribute'')
     | Some ps \<Rightarrow>
         if \<not> has_route_param ps ''fs_path'' then throw (Std_exception ''Missing fs_path param'')
         else (let fs = e_fs E (fh_fs fh); p = fh_path fh @ get_route_param ps ''fs_path''
               in attempt (fs_exists fs p) (\<lambda>ex.
                    if ex then attempt (fs_get_file fs p) (serve_entry E fh con)
                    else throw notfound_exception)))"

section \<open>Properties\<close>

lemma size_loop_result:
  assumes "size_loop s m = (v, k)" "0 \<le> s"
  shows "m \<le> k \<and> 0 \<le> v \<and> v < 1024 \<and> v * 1024 ^ (k - m) \<le> s \<and> s < (v + 1) * 1024 ^ (k - m)
    \<and> (m < k \<longrightarrow> 1 \<le> v)"
  using assms
proof (induction s m rule: size_loop.induct)
  case (1 s m)
  show ?case
  proof (cases "1024 \<le> s")
    case True
    then have IH: "m + 1 \<le> k" "0 \<le> v" "v < 1024" "v * 1024 ^ (k - (m + 1)) \<le> s div 1024"
      "s div 1024 < (v + 1) * 1024 ^ (k - (m + 1))" "m + 1 < k \<longrightarrow> 1 \<le> v"
      using "1.IH" "1.prems" size_loop.simps [of s m] by auto
    obtain j where j: "k = m + 1 + j" using IH(1) le_Suc_ex by blast
    have pw: "(1024::int) ^ (k - m) = 1024 * 1024 ^ j" "(1024::int) ^ (k - (m + 1)) = 1024 ^ j"
      by (simp_all add: j)
    have "v * 1024 ^ (k - m) \<le> s" "s < (v + 1) * 1024 ^ (k - m)"
      using IH(4,5) unfolding pw by (simp_all add: algebra_simps)
    moreover have "1 \<le> v"
    proof (cases "j = 0")
      case True
      have "s div 1024 < v + 1" using IH(5) unfolding pw True by simp
      then show ?thesis using \<open>1024 \<le> s\<close> by linarith
    qed (use IH(6) j in simp)
    ultimately show ?thesis using IH by simp
  next
    case False
    then show ?thesis using "1.prems" size_loop.simps [of s m] by simp
  qed
qed

lemma size_loop_bound:
  assumes "size_loop (sint (n :: 64 word)) 0 = (v, m)"
  shows "m \<le> 6 \<and> (0 \<le> sint n \<longrightarrow> 0 \<le> v \<and> v < 1024 \<and> v * 1024 ^ m \<le> sint n \<and> sint n < (v + 1) * 1024 ^ m
    \<and> (0 < m \<longrightarrow> 1 \<le> v))"
proof (cases "0 \<le> sint n")
  case True
  have r: "0 \<le> v" "v < 1024" "v * 1024 ^ m \<le> sint n" "sint n < (v + 1) * 1024 ^ m" "0 < m \<longrightarrow> 1 \<le> v"
    using size_loop_result [OF assms True] by simp_all
  have "m \<le> 6"
  proof (rule ccontr)
    assume "\<not> m \<le> 6"
    then have "(1024::int) ^ 7 \<le> 1024 ^ m" by (intro power_increasing) auto
    also have "\<dots> \<le> v * 1024 ^ m" using r(5) \<open>\<not> m \<le> 6\<close> by simp
    also have "\<dots> \<le> sint n" by (rule r(3))
    also have "\<dots> < 2 ^ 63" using sint_lt [of n] by simp
    finally show False by simp
  qed
  then show ?thesis using r by simp
next
  case False
  then show ?thesis using assms size_loop.simps [of "sint n" 0] by simp
qed

lemma format_size_eq:
  "size_loop (sint n) 0 = (v, m) \<Longrightarrow>
     format_size n = Inr (dec_int v @ (if m = 0 then [] else [size_ext ! (m - 1)]))"
  using size_loop_bound [of n v m] by (auto simp: format_size_def char_at_def size_ext_def)

lemma format_size_total: "\<exists>s. format_size n = Inr s"
  using format_size_eq [of n] by (cases "size_loop (sint n) 0") blast

lemma listing_page_total: "\<exists>page. listing_page D resource es = Inr page"
proof -
  have row: "\<exists>r. listing_row D e = Inr r" for e
    using format_size_total [of "if is_dir e then 0 else of_nat (fe_size e)"] by (auto simp: listing_row_def)
  have "\<exists>rs. emap (listing_row D) es = Inr rs"
  proof (induction es)
    case (Cons e es)
    then show ?case using row [of e] by auto
  qed simp
  then show ?thesis by (auto simp: listing_page_def)
qed

text \<open>The value and the unit of the loop, read off for each number of divisions.\<close>

lemma size_loop_value:
  assumes "size_loop (sint (n :: 64 word)) 0 = (v, m)"
  shows "m = 0 \<Longrightarrow> v = sint n \<and> sint n < 1024"
    and "m \<noteq> 0 \<Longrightarrow> v = sint n div 1024 ^ m \<and> 1 \<le> v \<and> v < 1024 \<and> 1024 \<le> sint n"
proof -
  have small: "\<not> 1024 \<le> sint n \<Longrightarrow> v = sint n \<and> m = 0"
    using assms size_loop.simps [of "sint n" 0] by simp
  show "m = 0 \<Longrightarrow> v = sint n \<and> sint n < 1024"
    using size_loop_bound [OF assms] small by fastforce
  assume m: "m \<noteq> 0"
  then have big: "1024 \<le> sint n" using small by blast
  have b: "v * 1024 ^ m \<le> sint n" "sint n < (v + 1) * 1024 ^ m" "1 \<le> v" "v < 1024"
    using size_loop_bound [OF assms] big m by simp_all
  have "sint n div 1024 ^ m = v"
    using b(1,2) by (intro int_div_pos_eq [of _ _ _ "sint n - v * 1024 ^ m"]) (simp_all add: algebra_simps)
  then show "v = sint n div 1024 ^ m \<and> 1 \<le> v \<and> v < 1024 \<and> 1024 \<le> sint n" using b big by simp
qed

text \<open>
  C40. \<^verbatim>\<open>format_size\<close> prints every 64-bit size in the right unit. Below 1024 (and for the sizes
  that turn negative in the signed variable of the loop) it prints the number itself with no
  suffix. From 1024 on it prints the quotient, rounded down, by a power of 1024 followed by
  the letter of that power, K for the first and E for the sixth, and the quotient lies
  between 1 and 1023, which fixes the power. The table of suffixes is never indexed out of
  range, so no size makes it throw.
\<close>

theorem format_size_bounds:
  "\<exists>v sfx. format_size n = Inr (dec_int v @ sfx)
     \<and> (if sint n < 1024 then v = sint n \<and> sfx = []
        else 1 \<le> v \<and> v < 1024
          \<and> (\<exists>u. v = sint n div u
             \<and> (sfx, u) \<in> {(''K'', 2 ^ 10), (''M'', 2 ^ 20), (''G'', 2 ^ 30),
                            (''T'', 2 ^ 40), (''P'', 2 ^ 50), (''E'', 2 ^ 60)}))"
proof -
  obtain v m where loop: "size_loop (sint n) 0 = (v, m)" by fastforce
  show ?thesis
  proof (cases "m = 0")
    case True
    then show ?thesis using format_size_eq [OF loop] size_loop_value(1) [OF loop] by auto
  next
    case False
    note val = size_loop_value(2) [OF loop False]
    have "m \<in> {1, 2, 3, 4, 5, 6}" using size_loop_bound [OF loop] False by auto
    then have "([size_ext ! (m - 1)], 1024 ^ m) \<in> {(''K'', 2 ^ 10 :: int), (''M'', 2 ^ 20), (''G'', 2 ^ 30),
                            (''T'', 2 ^ 40), (''P'', 2 ^ 50), (''E'', 2 ^ 60)}"
      by (elim insertE emptyE) (simp_all add: size_ext_def)
    then show ?thesis
      using val False by (intro exI [of _ v] exI [of _ "[size_ext ! (m - 1)]"])
         (auto simp: format_size_eq [OF loop] simp del: power_numeral_even power_numeral_odd power_numeral)
  qed
qed

theorem format_size_bounds_witness:
  "format_size 600 = Inr ''600'' \<and> format_size 3145728 = Inr ''3M''"
proof -
  have val: "sint (600 :: 64 word) = 600" "sint (3145728 :: 64 word) = 3145728" by simp_all
  have dec: "dec_int 600 = ''600''" "dec_int 3 = ''3''" by code_simp+
  have "format_size 600 = Inr ''600''"
    using format_size_bounds [of 600, unfolded val] dec by auto
  moreover have "format_size 3145728 = Inr ''3M''"
    using format_size_bounds [of 3145728, unfolded val] dec by auto
  ultimately show ?thesis by simp
qed

end
