(* ===== verification/Http_Api.thy ===== *)
theory Http_Api imports Fs_Route
begin

text \<open>
  The operations of \<^verbatim>\<open>http_connection\<close> as a request handler calls them, what running a
  callable does, and the loop of \<^verbatim>\<open>handler::async_task\<close> that completes one pending call after
  the other. Then the safety of the phase in which a response is written, and the defects of
  the paths that lack a \<^verbatim>\<open>return\<close>.
\<close>

section \<open>Running callables\<close>

definition run_closure :: "('k, 'u) env \<Rightarrow> 'k closure option \<Rightarrow> connection \<Rightarrow> bool \<Rightarrow> ('k, 'u) world act" where
  "run_closure E cl con ok =
     (case cl of
        None \<Rightarrow> skip
      | Some Nop_cb \<Rightarrow> skip
      | Some (User_cb k) \<Rightarrow> e_done E k con ok
      | Some (Fs_serve fh) \<Rightarrow> fs_serve E fh con
      | Some Fs_sent \<Rightarrow> fs_sent E con)"

definition catch_all :: "('k, 'u) env \<Rightarrow> exc \<Rightarrow> ('k, 'u) world act" where
  "catch_all E e = handle_exception E Http e"

section \<open>Writing\<close>

definition http_send_body ::
    "('k, 'u) env \<Rightarrow> connection \<Rightarrow> string \<Rightarrow> 'k closure option \<Rightarrow> bool \<Rightarrow> ('k, 'u) world act" where
  "http_send_body E con body cb can_buffer =
     con_send_body (e_ttl E) (catch_all E) (run_closure E cb Http) con body cb can_buffer"

definition http_send_stream ::
    "('k, 'u) env \<Rightarrow> connection \<Rightarrow> istream \<Rightarrow> 'k closure option \<Rightarrow> ('k, 'u) world act" where
  "http_send_stream E con body cb =
     con_send_stream (e_ttl E) (catch_all E) (\<lambda>cl. run_closure E cl Http) con body cb"

definition http_end ::
    "('k, 'u) env \<Rightarrow> connection \<Rightarrow> string \<Rightarrow> 'k closure option \<Rightarrow> ('k, 'u) world act" where
  "http_end E con body cb = con_end (e_ttl E) (catch_all E) (run_closure E cb Http) con body cb"

definition run_done :: "('k, 'u) env \<Rightarrow> 'k done_cb \<Rightarrow> bool \<Rightarrow> ('k, 'u) world act" where
  "run_done E cb ok =
     (case cb of
        Done_cb cl \<Rightarrow> run_closure E cl Http ok
      | Done_stream h \<Rightarrow> handle_send (catch_all E) (\<lambda>cl. run_closure E cl Http) h ok)"

section \<open>Reading\<close>

text \<open>
  What a read callable does when there is no more content (\<open>ok\<close> is false), then in general. A
  bound \<^verbatim>\<open>read_body_helper\<close> collects in its buffer and reads again, or hands the buffer over
  and deletes it.
\<close>

fun run_body_end :: "('k, 'u) env \<Rightarrow> 'k body_cb \<Rightarrow> string \<Rightarrow> ('k, 'u) world act" where
  "run_body_end E Body_none str = skip"
| "run_body_end E (Body_user k) str = e_body E k Http False str"
| "run_body_end E (Body_skip cl) str = run_closure E cl Http False"
| "run_body_end E (Body_helper f None) str = try_catch (run_body_end E f []) (catch_all E)"
| "run_body_end E (Body_helper f (Some b)) str =
     read_state (\<lambda>w. case w_buffers w b of
       None \<Rightarrow> undefined_act
     | Some buf \<Rightarrow> seq (try_catch (run_body_end E f buf) (catch_all E))
                     (modify (\<lambda>w. w\<lparr>w_buffers := (w_buffers w)(b := None)\<rparr>)))"

definition base_read_body :: "('k, 'u) env \<Rightarrow> 'k body_cb \<Rightarrow> ('k, 'u) world act" where
  "base_read_body E cb =
     seq lock_read
    (seq (read_state (\<lambda>w. if w_read_done w
                          then seq unlock_read (try_catch (run_body_end E cb []) (catch_all E))
                          else skip))
         (issue (P_read cb)))"

definition append_buffer :: "nat option \<Rightarrow> string \<Rightarrow> ('k, 'u) world act" where
  "append_buffer b str =
     (case b of None \<Rightarrow> skip
      | Some i \<Rightarrow> read_state (\<lambda>w. case w_buffers w i of
            None \<Rightarrow> undefined_act
          | Some buf \<Rightarrow> modify (\<lambda>w. w\<lparr>w_buffers := (w_buffers w)(i \<mapsto> buf @ str)\<rparr>)))"

definition run_body :: "('k, 'u) env \<Rightarrow> 'k body_cb \<Rightarrow> bool \<Rightarrow> string \<Rightarrow> ('k, 'u) world act" where
  "run_body E cb ok str =
     (if \<not> ok then run_body_end E cb str else
      (case cb of
         Body_none \<Rightarrow> skip
       | Body_user k \<Rightarrow> e_body E k Http ok str
       | Body_skip cl \<Rightarrow> run_closure E cl Http ok
       | Body_helper f b \<Rightarrow> seq (append_buffer b str) (base_read_body E cb)))"

definition http_read_body :: "('k, 'u) env \<Rightarrow> connection \<Rightarrow> 'k body_cb \<Rightarrow> ('k, 'u) world act" where
  "http_read_body E con cb = base_read_body E cb"

definition http_read_body_full :: "('k, 'u) env \<Rightarrow> connection \<Rightarrow> 'k body_cb \<Rightarrow> ('k, 'u) world act" where
  "http_read_body_full E con cb =
     read_state (\<lambda>w.
       seq (modify (\<lambda>w. w\<lparr>w_buffers := (w_buffers w)(w_next w \<mapsto> []), w_next := w_next w + 1\<rparr>))
           (base_read_body E (Body_helper cb (Some (w_next w)))))"

definition http_skip_body :: "('k, 'u) env \<Rightarrow> connection \<Rightarrow> 'k closure option \<Rightarrow> ('k, 'u) world act" where
  "http_skip_body E con cb = base_read_body E (Body_helper (Body_skip cb) None)"

section \<open>The completion queue\<close>

definition complete :: "('k, 'u) env \<Rightarrow> 'k pending \<Rightarrow> bool \<Rightarrow> string \<Rightarrow> ('k, 'u) world act" where
  "complete E p ok content =
     (case p of
        P_read cb \<Rightarrow>
          seq (modify (\<lambda>w. w\<lparr>w_read_done := \<not> ok\<rparr>))
         (seq unlock_read (try_catch (run_body E cb ok (if ok then content else [])) (catch_all E)))
      | P_write cb \<Rightarrow>
          seq (modify (\<lambda>w. w\<lparr>w_headers_sent := True\<rparr>))
         (seq unlock_write (try_catch (run_done E cb ok) (catch_all E)))
      | P_finish cb \<Rightarrow>
          seq unlock_write (try_catch (run_done E cb ok) (catch_all E))
      | P_write_finish cb \<Rightarrow>
          seq (modify (\<lambda>w. w\<lparr>w_headers_sent := True\<rparr>))
         (seq unlock_write (try_catch (run_done E cb ok) (catch_all E))))"

definition log_exception :: "string \<Rightarrow> exc \<Rightarrow> ('k, 'u) world act" where
  "log_exception prefix e =
     (if is_std_exception e then modify (\<lambda>w. w\<lparr>w_log := w_log w @ [prefix @ exception_what e]\<rparr>)
      else throw e)"

text \<open>One turn of the loop: the \<open>i\<close>-th pending call completes. An exception that leaves it ends the process.\<close>

definition remove_nth :: "nat \<Rightarrow> 'a list \<Rightarrow> 'a list" where
  "remove_nth i xs = take i xs @ drop (Suc i) xs"

definition async_step :: "('k, 'u) env \<Rightarrow> nat \<Rightarrow> bool \<Rightarrow> string \<Rightarrow> ('k, 'u) world act" where
  "async_step E i ok content =
     read_state (\<lambda>w.
       if i < length (w_pending w)
       then seq (modify (\<lambda>w. w\<lparr>w_pending := remove_nth i (w_pending w)\<rparr>))
              (try_catch (complete E (w_pending w ! i) ok content)
                 (log_exception ''exception processing callback: ''))
       else skip)"

section \<open>Safety of the response phase\<close>

text \<open>
  The state after the request body was read. At most one write is pending, and exactly then
  the write mutex is locked; nothing reads. \<open>H\<close> are the stream helpers that a caller further
  up the stack still holds: they and those of pending writes are not freed.
\<close>

fun stream_of :: "'k pending \<Rightarrow> nat set" where
  "stream_of (P_write (Done_stream h)) = {h}"
| "stream_of (P_finish (Done_stream h)) = {h}"
| "stream_of (P_write_finish (Done_stream h)) = {h}"
| "stream_of _ = {}"

fun is_read :: "'k pending \<Rightarrow> bool" where
  "is_read (P_read _) = True"
| "is_read _ = False"

definition params_ok :: "('k, 'u) world \<Rightarrow> bool" where
  "params_ok w \<longleftrightarrow> (\<forall>ps. route_params_of w = Some ps \<longrightarrow> rp_info ps \<noteq> None)"

definition responding :: "nat set \<Rightarrow> ('k, 'u) world \<Rightarrow> bool" where
  "responding H w \<longleftrightarrow>
     w_read_done w \<and> \<not> w_read_locked w \<and> params_ok w \<and>
     (\<forall>p \<in> set (w_pending w). \<not> is_read p \<and> stream_of p \<inter> H = {}) \<and>
     length (w_pending w) = (if w_write_locked w then 1 else 0) \<and>
     (\<forall>h \<in> H \<union> \<Union> (stream_of ` set (w_pending w)). w_helpers w h \<noteq> None \<and> h < w_next w)"

definition safe :: "('k, 'u) world act \<Rightarrow> bool" where
  "safe a \<longleftrightarrow> (\<forall>H w. responding H w \<longrightarrow> responding H (fst (a w)) \<and> meaningful (snd (a w)))"

lemma safeI: "(\<And>H w. responding H w \<Longrightarrow> responding H (fst (a w)) \<and> meaningful (snd (a w))) \<Longrightarrow> safe a"
  by (simp add: safe_def)

lemma safeD: "safe a \<Longrightarrow> responding H w \<Longrightarrow> a w = (w', f) \<Longrightarrow> responding H w' \<and> meaningful f"
  unfolding safe_def by (metis fst_conv snd_conv)

lemma responding_mono: "responding H w \<Longrightarrow> H' \<subseteq> H \<Longrightarrow> responding H' w"
  unfolding responding_def by blast

lemma safe_basic [intro, simp]: "safe skip" "safe block" "e \<noteq> Undefined_behaviour \<Longrightarrow> safe (throw e)"
  by (auto simp: safe_def act_simps meaningful_def split: exc.split)

lemma safe_seq [intro]:
  fixes a b :: "('k, 'u) world act"
  assumes "safe a" "safe b"
  shows "safe (seq a b)"
proof (rule safeI)
  fix H and w :: "('k, 'u) world"
  assume w: "responding H w"
  obtain w' f where a: "a w = (w', f)" by fastforce
  have m: "responding H w'" "meaningful f" using safeD [OF assms(1) w a] by auto
  show "responding H (fst (seq a b w)) \<and> meaningful (snd (seq a b w))"
    using a m assms(2) unfolding safe_def by (cases f) (auto simp: act_simps)
qed

lemma safe_try_catch:
  fixes a :: "('k, 'u) world act"
  assumes "safe a" "\<And>e. e \<noteq> Undefined_behaviour \<Longrightarrow> safe (h e)"
  shows "safe (try_catch a h)"
proof (rule safeI)
  fix H and w :: "('k, 'u) world"
  assume w: "responding H w"
  obtain w' f where a: "a w = (w', f)" by fastforce
  have m: "responding H w'" "meaningful f" using safeD [OF assms(1) w a] by auto
  show "responding H (fst (try_catch a h w)) \<and> meaningful (snd (try_catch a h w))"
  proof (cases f)
    case (Throw e)
    then have "safe (h e)" using assms(2) m by (auto simp: meaningful_def)
    then show ?thesis using a m Throw by (simp add: act_simps safe_def)
  qed (use a m in \<open>auto simp: act_simps\<close>)
qed

lemma safe_read_state: "(\<And>w. safe (f w)) \<Longrightarrow> safe (read_state f)"
  by (simp add: safe_def act_simps)

lemma safe_attempt: "r \<noteq> Inl Undefined_behaviour \<Longrightarrow> (\<And>x. safe (f x)) \<Longrightarrow> safe (attempt r f)"
  by (cases r) auto

lemma safe_modify:
  assumes "\<And>w. w_read_done (f w) = w_read_done w" "\<And>w. w_read_locked (f w) = w_read_locked w"
    "\<And>w. w_write_locked (f w) = w_write_locked w" "\<And>w. w_pending (f w) = w_pending w"
    "\<And>w. w_helpers (f w) = w_helpers w" "\<And>w. w_next (f w) = w_next w"
    "\<And>w. params_ok w \<Longrightarrow> params_ok (f w)"
  shows "safe (modify f)"
  using assms by (simp add: safe_def act_simps responding_def meaningful_def)

lemma params_ok_update [simp]:
  "params_ok (w\<lparr>w_resp := r\<rparr>) = params_ok w" "params_ok (w\<lparr>w_type_set := t\<rparr>) = params_ok w"
  "params_ok (w\<lparr>w_pending := p\<rparr>) = params_ok w" "params_ok (w\<lparr>w_wire := x\<rparr>) = params_ok w"
  "params_ok (w\<lparr>w_helpers := s\<rparr>) = params_ok w" "params_ok (w\<lparr>w_next := n\<rparr>) = params_ok w"
  "params_ok (w\<lparr>w_finished := b\<rparr>) = params_ok w" "params_ok (w\<lparr>w_headers_sent := b\<rparr>) = params_ok w"
  "params_ok (w\<lparr>w_write_locked := b\<rparr>) = params_ok w" "params_ok (w\<lparr>w_log := l\<rparr>) = params_ok w"
  by (simp_all add: params_ok_def route_params_of_def)

text \<open>What the application promises: its functions, called in this phase, keep to it.\<close>

definition env_safe :: "('k, 'u) env \<Rightarrow> bool" where
  "env_safe E \<longleftrightarrow>
     (\<forall>k con ok. safe (e_done E k con ok)) \<and>
     (\<forall>f con. safe (e_notfound E f con)) \<and>
     (\<forall>f con what ptr. safe (e_error E f con what ptr))"

text \<open>The file systems throw exceptions, but do nothing undefined.\<close>

definition fs_defined :: "ifilesystem \<Rightarrow> bool" where
  "fs_defined F \<longleftrightarrow>
     (\<forall>p. fs_exists F p \<noteq> Inl Undefined_behaviour \<and> fs_get_file F p \<noteq> Inl Undefined_behaviour \<and>
          fs_get_files F p \<noteq> Inl Undefined_behaviour \<and> fs_open_file F p \<noteq> Inl Undefined_behaviour)"

lemma safe_set_status [simp]: "safe (set_status c m)"
  unfolding set_status_def by (rule safe_modify) (simp_all add: Let_def)

lemma safe_set_header [simp]: "safe (set_header T con k v r)"
proof (induction con)
  case Http
  show ?case by (simp add: base_set_header_def) (rule safe_modify, simp_all)
next
  case (Mime_con c t i)
  then show ?case by (auto intro!: safe_seq safe_modify)
qed simp

lemma safe_prepare_body [simp]: "safe (prepare_body T con)"
  by (induction con)
     (auto simp: mime_set_header_def intro!: safe_seq safe_read_state safe_modify)

lemma responding_lock_write:
  assumes "responding H w"
  shows "lock_write w = (if w_write_locked w then (w, Hang) else (w\<lparr>w_write_locked := True\<rparr>, Go))"
  by (simp add: lock_write_def act_simps)

text \<open>A write in this phase: the mutex is taken, the call is issued, and nothing is called early.\<close>

lemma base_send_body_eq:
  assumes "w_read_done w"
  shows "base_send_body catch notify body cb b w =
    (if w_write_locked w then (w, Hang) else
     (w\<lparr>w_write_locked := True,
        w_resp := (if w_headers_sent w then empty_response else w_resp w)\<lparr>rs_content := body\<rparr>,
        w_pending := w_pending w @ [P_write cb],
        w_wire := w_wire w @ [W_write ((if w_headers_sent w then empty_response else w_resp w)\<lparr>rs_content := body\<rparr>)
                               (b \<and> w_headers_sent w)]\<rparr>, Go))"
  using assms by (simp add: base_send_body_def lock_write_def early_write_def transmit_def issue_def act_simps)

lemma base_end_eq:
  assumes "w_read_done w"
  shows "base_end catch notify body cb w =
    (if w_write_locked w then (w, Hang) else
     if w_headers_sent w \<and> body = [] then
       (w\<lparr>w_write_locked := True, w_finished := True,
          w_pending := w_pending w @ [P_finish (Done_cb cb)], w_wire := w_wire w @ [W_finish]\<rparr>, Go)
     else
       (w\<lparr>w_write_locked := True, w_finished := True, w_resp := (w_resp w)\<lparr>rs_content := body\<rparr>,
          w_pending := w_pending w @ [P_write_finish (Done_cb cb)],
          w_wire := w_wire w @ [W_write_finish ((w_resp w)\<lparr>rs_content := body\<rparr>)]\<rparr>, Go))"
  using assms by (simp add: base_end_def lock_write_def early_write_def transmit_def issue_def act_simps)

lemma safe_base_end [simp]: "safe (base_end catch notify body cb)"
proof (rule safeI)
  fix H and w :: "('a, 'b) world"
  assume w: "responding H w"
  then have "w_read_done w" by (simp add: responding_def)
  then show "responding H (fst (base_end catch notify body cb w)) \<and> meaningful (snd (base_end catch notify body cb w))"
    using w by (auto simp: base_end_eq responding_def meaningful_def)
qed

lemma safe_send_body [simp]: "safe (base_send_body catch notify body (Done_cb cb) b)"
proof (rule safeI)
  fix H and w :: "('a, 'b) world"
  assume w: "responding H w"
  then have "w_read_done w" by (simp add: responding_def)
  then show "responding H (fst (base_send_body catch notify body (Done_cb cb) b w))
      \<and> meaningful (snd (base_send_body catch notify body (Done_cb cb) b w))"
    using w by (auto simp: base_send_body_eq responding_def meaningful_def)
qed

lemma safe_end_quietly [simp]: "safe (end_quietly T con)"
  by (simp add: end_quietly_def con_end_def safe_seq)

lemma params_ok_info: "params_ok w \<Longrightarrow> route_params_of w = Some ps \<Longrightarrow> \<exists>info. rp_info ps = Some info"
  by (auto simp: params_ok_def)

lemma safe_respond_exception:
  assumes "env_safe E" "rp_info ps = Some info"
  shows "safe (respond_exception E con ps e)"
  using assms
  by (auto simp: respond_exception_def with_info_def call_notfound_def call_error_def debug_header_def env_safe_def
      intro!: safe_seq split: exc.split option.split)

lemma safe_handle_exception:
  assumes "env_safe E" "e \<noteq> Undefined_behaviour"
  shows "safe (handle_exception E con e)"
proof (rule safeI)
  fix H and w :: "('a, 'b) world"
  assume w: "responding H w"
  show "responding H (fst (handle_exception E con e w)) \<and> meaningful (snd (handle_exception E con e w))"
  proof (cases "route_params_of w")
    case None
    then show ?thesis
      using w assms(2) by (auto simp: handle_exception_def act_simps meaningful_def split: exc.split)
  next
    case (Some ps)
    then obtain info where "rp_info ps = Some info"
      using w params_ok_info [of w ps] by (auto simp: responding_def)
    then have "safe (seq (respond_exception E con ps e)
        (read_state (\<lambda>w. if is_finished w then skip else end_quietly (e_ttl E) con)))"
      using safe_respond_exception [OF assms(1)] by (auto intro!: safe_seq safe_read_state)
    then show ?thesis using w Some by (simp add: handle_exception_def act_simps safe_def)
  qed
qed

lemma safe_catch_all: "env_safe E \<Longrightarrow> e \<noteq> Undefined_behaviour \<Longrightarrow> safe (catch_all E e)"
  unfolding catch_all_def by (rule safe_handle_exception)

text \<open>An operation that is given a stream helper and disposes of it.\<close>

definition safe_with :: "nat \<Rightarrow> ('k, 'u) world act \<Rightarrow> bool" where
  "safe_with h a \<longleftrightarrow>
     (\<forall>H w. h \<notin> H \<longrightarrow> responding (insert h H) w \<longrightarrow> responding H (fst (a w)) \<and> meaningful (snd (a w)))"

lemma safe_stream_finish:
  fixes run :: "'k closure option \<Rightarrow> bool \<Rightarrow> ('k, 'u) world act"
  assumes "\<And>cl. safe (run cl ok)" "\<And>e. e \<noteq> Undefined_behaviour \<Longrightarrow> safe (catch e)"
  shows "safe_with h (stream_finish catch run h ok)"
  unfolding safe_with_def
proof (intro allI impI)
  fix H and w :: "('k, 'u) world"
  assume h: "h \<notin> H" and w: "responding (insert h H) w"
  then obtain sh where sh: "w_helpers w h = Some sh" by (auto simp: responding_def)
  let ?a = "try_catch (run (sh_cb sh) ok) catch"
  obtain w' f where a: "?a w = (w', f)" by fastforce
  have "safe ?a" using assms by (rule safe_try_catch)
  then have m: "responding (insert h H) w'" "meaningful f" using safeD w a by blast+
  then have weak: "responding H w'" by (auto intro: responding_mono)
  have "responding H (w'\<lparr>w_helpers := (w_helpers w')(h := None)\<rparr>)"
    using m(1) h unfolding responding_def by auto
  then show "responding H (fst (stream_finish catch run h ok w)) \<and> meaningful (snd (stream_finish catch run h ok w))"
    using a sh m(2) weak by (cases f) (auto simp: stream_finish_def seq_def read_state_def modify_def meaningful_def)
qed

lemma safe_handle_send:
  fixes run :: "'k closure option \<Rightarrow> bool \<Rightarrow> ('k, 'u) world act"
  assumes "\<And>cl. safe (run cl ok)" "\<And>e. e \<noteq> Undefined_behaviour \<Longrightarrow> safe (catch e)"
  shows "safe_with h (handle_send catch run h ok)"
  unfolding safe_with_def
proof (intro allI impI)
  fix H and w :: "('k, 'u) world"
  assume h: "h \<notin> H" and w: "responding (insert h H) w"
  then obtain sh where sh: "w_helpers w h = Some sh" by (auto simp: responding_def)
  show "responding H (fst (handle_send catch run h ok w)) \<and> meaningful (snd (handle_send catch run h ok w))"
  proof (cases "\<not> is_good (sh_body sh) \<or> \<not> ok")
    case True
    then have "handle_send catch run h ok w = stream_finish catch run h ok w"
      using sh by (simp add: handle_send_def act_simps)
    moreover have "safe_with h (stream_finish catch run h ok)" using assms by (rule safe_stream_finish)
    ultimately show ?thesis using h w by (simp add: safe_with_def)
  next
    case False
    let ?w = "w\<lparr>w_helpers := (w_helpers w)(h \<mapsto> sh\<lparr>sh_body := snd (read_chunk (sh_body sh))\<rparr>)\<rparr>"
    have eq: "handle_send catch run h ok w =
        base_send_body catch (stream_finish catch run h) (fst (read_chunk (sh_body sh))) (Done_stream h) False ?w"
      using False sh by (simp add: handle_send_def act_simps Let_def split: prod.split)
    have "w_read_done ?w" using w by (simp add: responding_def)
    then show ?thesis
      using h w unfolding eq by (auto simp: base_send_body_eq responding_def meaningful_def)
  qed
qed

lemma safe_send_stream:
  assumes "\<And>cl. safe (run cl True)" "\<And>e. e \<noteq> Undefined_behaviour \<Longrightarrow> safe (catch e)"
  shows "safe (base_send_stream catch run body cb)"
proof (rule safeI)
  fix H and w :: "('a, 'b) world"
  assume w: "responding H w"
  let ?h = "w_next w"
  let ?w = "w\<lparr>w_helpers := (w_helpers w)(?h \<mapsto> \<lparr>sh_body = body, sh_cb = cb\<rparr>), w_next := ?h + 1\<rparr>"
  have fresh: "?h \<notin> H" using w by (force simp: responding_def)
  have "stream_of p \<inter> insert ?h H = {}" if "p \<in> set (w_pending w)" for p
    using that w by (force simp: responding_def)
  then have "responding (insert ?h H) ?w"
    using w by (auto simp: responding_def less_Suc_eq)
  then show "responding H (fst (base_send_stream catch run body cb w))
      \<and> meaningful (snd (base_send_stream catch run body cb w))"
    using safe_handle_send [of run True catch ?h] assms fresh
    by (simp add: base_send_stream_def act_simps safe_with_def)
qed

lemma safe_fs_serve:
  assumes "env_safe E" "\<And>i. fs_defined (e_fs E i)"
  shows "safe (fs_serve E fh con)"
proof -
  have catch: "safe (handle_exception E Http e)" if "e \<noteq> Undefined_behaviour" for e
    using safe_handle_exception [OF assms(1) that] .
  have served: "safe (serve_file E con p s)" for p s
    unfolding serve_file_def con_send_stream_def
    by (intro safe_seq safe_send_stream catch) (auto simp: fs_sent_def)
  have listing: "safe (serve_listing E con es)" for es
    unfolding serve_listing_def con_end_def
    by (intro safe_read_state safe_attempt safe_seq safe_prepare_body safe_base_end)
       (metis listing_page_total sum.distinct(1))
  have entry: "safe (serve_entry E fh con p)" for p
    unfolding serve_entry_def
    using assms(2) [of "fh_fs fh"] served listing
    by (auto simp: fs_defined_def notfound_exception_def intro!: safe_read_state safe_seq safe_attempt)
  show ?thesis
    unfolding fs_serve_def Let_def
    using assms(2) [of "fh_fs fh"] entry
    by (auto simp: fs_defined_def notfound_exception_def intro!: safe_read_state safe_attempt split: option.split)
qed

lemma safe_run_closure:
  assumes "env_safe E" "\<And>i. fs_defined (e_fs E i)"
  shows "safe (run_closure E cl con ok)"
  using assms safe_fs_serve [OF assms]
  by (auto simp: run_closure_def fs_sent_def env_safe_def split: option.split closure.split)

lemma safe_run_done:
  assumes "env_safe E" "\<And>i. fs_defined (e_fs E i)"
    and "responding (H \<union> stream_of p) w" "stream_of p \<inter> H = {}"
    and "p = P_write cb \<or> p = P_finish cb \<or> p = P_write_finish cb"
  shows "responding H (fst (run_done E cb ok w)) \<and> meaningful (snd (run_done E cb ok w))"
proof (cases cb)
  case (Done_cb cl)
  then have "stream_of p = {}" using assms(5) by auto
  then have "responding H w" using assms(3) by simp
  then show ?thesis
    using Done_cb safe_run_closure [OF assms(1,2), of cl Http ok] by (simp add: run_done_def safe_def)
next
  case (Done_stream h)
  then have "stream_of p = {h}" using assms(5) by auto
  then have w: "responding (insert h H) w" "h \<notin> H" using assms(3,4) by simp_all
  have "safe_with h (handle_send (catch_all E) (\<lambda>cl. run_closure E cl Http) h ok)"
    by (rule safe_handle_send) (simp_all add: safe_run_closure assms(1,2) safe_catch_all)
  then show ?thesis using w Done_stream by (simp add: run_done_def safe_with_def)
qed

lemma complete_write_eq:
  assumes "w_write_locked w" "w_pending w = [p]"
    and p: "p = P_write cb \<or> p = P_finish cb \<or> p = P_write_finish cb"
  shows "\<exists>b. complete E p ok content (w\<lparr>w_pending := []\<rparr>) =
    try_catch (run_done E cb ok) (catch_all E)
      (w\<lparr>w_pending := [], w_write_locked := False, w_headers_sent := b\<rparr>)"
proof (cases "p = P_finish cb")
  case True
  have "w\<lparr>w_pending := [], w_write_locked := False, w_headers_sent := w_headers_sent w\<rparr>
      = w\<lparr>w_pending := [], w_write_locked := False\<rparr>" by simp
  then show ?thesis
    using assms(1) True
    by (intro exI [of _ "w_headers_sent w"]) (simp add: complete_def unlock_write_def act_simps del: world.unfold_congs)
next
  case False
  then have "complete E p ok content (w\<lparr>w_pending := []\<rparr>) =
    try_catch (run_done E cb ok) (catch_all E)
      (w\<lparr>w_pending := [], w_headers_sent := True, w_write_locked := False\<rparr>)"
    using assms(1) p by (auto simp: complete_def unlock_write_def seq_def modify_def read_state_def)
  moreover have "w\<lparr>w_pending := [], w_headers_sent := True, w_write_locked := False\<rparr>
      = w\<lparr>w_pending := [], w_write_locked := False, w_headers_sent := True\<rparr>" by (cases w) simp
  ultimately show ?thesis by (intro exI [of _ True]) simp
qed

lemma safe_async_step:
  fixes E :: "('k, 'u) env"
  assumes "env_safe E" "\<And>i. fs_defined (e_fs E i)"
  shows "safe (async_step E i ok content)"
proof (rule safeI)
  fix H and w :: "('k, 'u) world"
  assume w: "responding H w"
  show "responding H (fst (async_step E i ok content w)) \<and> meaningful (snd (async_step E i ok content w))"
  proof (cases "i < length (w_pending w)")
    case False
    then show ?thesis using w by (simp add: async_step_def act_simps meaningful_def)
  next
    case True
    then have locked: "w_write_locked w" and one: "length (w_pending w) = 1"
      using w by (auto simp: responding_def split: if_splits)
    then obtain p where p: "w_pending w = [p]" "i = 0" using True by (cases "w_pending w") auto
    then have "\<not> is_read p" using w by (simp add: responding_def)
    then obtain cb where cb: "p = P_write cb \<or> p = P_finish cb \<or> p = P_write_finish cb"
      by (cases p) auto
    obtain b where eq: "complete E p ok content (w\<lparr>w_pending := []\<rparr>) =
      try_catch (run_done E cb ok) (catch_all E)
        (w\<lparr>w_pending := [], w_write_locked := False, w_headers_sent := b\<rparr>)"
      using complete_write_eq [OF locked p(1) cb] by blast
    let ?w = "w\<lparr>w_pending := [], w_write_locked := False, w_headers_sent := b\<rparr>"
    have disj: "stream_of p \<inter> H = {}" using w p by (simp add: responding_def)
    have "responding (H \<union> stream_of p) ?w"
      using w p by (auto simp: responding_def)
    then have run: "responding H (fst (run_done E cb ok ?w)) \<and> meaningful (snd (run_done E cb ok ?w))"
      by (rule safe_run_done [OF assms _ disj cb])
    have log: "safe (log_exception m e :: ('k, 'u) world act)" if "e \<noteq> Undefined_behaviour" for m e
      using that by (auto simp: log_exception_def intro!: safe_modify)
    obtain w1 f1 where r: "run_done E cb ok ?w = (w1, f1)" by fastforce
    have caught: "responding H (fst (try_catch (run_done E cb ok) (catch_all E) ?w))
        \<and> meaningful (snd (try_catch (run_done E cb ok) (catch_all E) ?w))"
    proof (cases f1)
      case (Throw e)
      then have "safe (catch_all E e)" using run r safe_catch_all [OF assms(1)] by (auto simp: meaningful_def)
      then have "responding H (fst (catch_all E e w1)) \<and> meaningful (snd (catch_all E e w1))"
        using run r unfolding safe_def by simp blast
      then show ?thesis using r Throw by (simp add: try_catch_def)
    qed (use run r in \<open>auto simp: try_catch_def\<close>)
    obtain w2 f2 where c: "complete E p ok content (w\<lparr>w_pending := []\<rparr>) = (w2, f2)" by fastforce
    have c2: "responding H w2" "meaningful f2" using caught c eq by simp_all
    have step: "async_step E i ok content w =
        (case f2 of Throw e \<Rightarrow> log_exception ''exception processing callback: '' e w2 | f \<Rightarrow> (w2, f))"
      using p c by (auto simp: async_step_def read_state_def seq_def modify_def try_catch_def remove_nth_def
          split: flow.split)
    show ?thesis
    proof (cases f2)
      case (Throw e)
      then have "safe (log_exception ''exception processing callback: '' e :: ('k, 'u) world act)"
        using c2(2) log by (auto simp: meaningful_def)
      then show ?thesis using step Throw c2 by (simp add: safe_def)
    qed (use step c2 in auto)
  qed
qed

text \<open>
  C4. Once the request body was read, writing is safe: whatever sequence of \<^verbatim>\<open>send_body\<close> (of a
  string or a stream), \<^verbatim>\<open>end\<close>, completions (successful or not) and exceptions in callbacks
  follows, at most one write is pending and the write mutex is locked exactly while it is, no
  mutex is unlocked twice and no freed helper is used. The functions of the application must
  keep to this themselves, the file systems may throw but do nothing undefined.
\<close>

theorem response_phase_safe:
  assumes "env_safe E" "\<And>i. fs_defined (e_fs E i)"
  shows "safe (http_send_body E con body cb b) \<and> safe (http_send_stream E con s cb)
    \<and> safe (http_end E con body cb) \<and> safe (async_step E i ok content)"
proof (intro conjI)
  show "safe (http_send_body E con body cb b)"
    unfolding http_send_body_def con_send_body_def by (intro safe_seq safe_prepare_body safe_send_body)
  show "safe (http_send_stream E con s cb)"
    unfolding http_send_stream_def con_send_stream_def
    by (intro safe_seq safe_prepare_body safe_send_stream safe_run_closure safe_catch_all assms)
  show "safe (http_end E con body cb)"
    unfolding http_end_def con_end_def by (intro safe_seq safe_prepare_body safe_base_end)
  show "safe (async_step E i ok content)" by (rule safe_async_step [OF assms])
qed

text \<open>An environment to evaluate in: callbacks write their name to the log.\<close>

definition log_line :: "string \<Rightarrow> ('k, 'u) world act" where
  "log_line s = modify (\<lambda>w. w\<lparr>w_log := w_log w @ [s]\<rparr>)"

definition empty_fs :: ifilesystem where
  "empty_fs =
     \<lparr>fs_exists = (\<lambda>_. Inr False), fs_get_file = (\<lambda>_. Inl (Std_exception ''file not found'')),
      fs_get_files = (\<lambda>_. Inl (Std_exception ''file not found'')),
      fs_open_file = (\<lambda>_. Inl (Std_exception ''file not found''))\<rparr>"

definition zero_date :: date_lib where
  "zero_date =
     \<lparr>dt_weekday = (\<lambda>_. ''Thu''), dt_day = (\<lambda>_. ''01''), dt_month = (\<lambda>_. ''Jan''),
      dt_year = (\<lambda>_. ''1970''), dt_date = (\<lambda>_. ''1970-01-01'')\<rparr>"

definition demo_env :: "(string, unit) env" where
  "demo_env =
     \<lparr>e_ttl = ttl_ref, e_date = zero_date, e_fs = (\<lambda>_. empty_fs),
      e_done = (\<lambda>k con ok. log_line (k @ (if ok then ''+'' else ''-''))),
      e_body = (\<lambda>k con ok str. log_line (k @ (if ok then ''+'' else ''-'') @ str)),
      e_notfound = (\<lambda>_ _. skip), e_error = (\<lambda>_ _ _ _. skip),
      e_handler = (\<lambda>n con. if n = 0 then throw (Http_exception 403 ''Forbidden'') else log_line (''handler'')),
      e_mw = (\<lambda>_ con next. next con), e_rewrite = (\<lambda>_ con w. (w, Inr []))\<rparr>"

definition demo_request :: request where
  "demo_request =
     \<lparr>rq_method = ''GET'', rq_resource = ''/a'', rq_protocol = ''HTTP/1.1'', rq_headers = [],
      rq_client = \<lparr>ci_remote_ip = ''::1'', ci_remote_port = 80, ci_local_ip = ''::1'',
                   ci_local_port = 80, ci_encrypted = False\<rparr>\<rparr>"

definition new_connection :: "'u \<Rightarrow> request \<Rightarrow> ('k, 'u) world" where
  "new_connection u rq =
     \<lparr>w_attributes = no_attributes, w_request = rq, w_req_headers = [], w_resp = empty_response,
      w_read_locked = False, w_write_locked = False, w_read_done = False, w_headers_sent = False,
      w_finished = False, w_started = False, w_pending = [], w_wire = [], w_helpers = (\<lambda>_. None),
      w_buffers = (\<lambda>_. None), w_next = 1, w_parsed = (\<lambda>_. None), w_type_set = (\<lambda>_. False),
      w_log = [], w_user = u\<rparr>"

lemma safe_log_line [simp]: "safe (log_line s)"
  unfolding log_line_def by (rule safe_modify) simp_all

lemma demo_env_safe: "env_safe demo_env" "fs_defined (e_fs demo_env i)"
  by (simp_all add: env_safe_def demo_env_def fs_defined_def empty_fs_def)

theorem response_phase_safe_witness:
  "safe (http_end demo_env Http ''x'' (Some (User_cb ''done'')))
   \<and> responding {} ((new_connection () demo_request :: (string, unit) world)\<lparr>w_read_done := True\<rparr>)"
  using response_phase_safe [OF demo_env_safe]
  by (simp add: responding_def new_connection_def params_ok_def route_params_of_def)

end
