(* ===== verification/Http_Flow.thy ===== *)
theory Http_Flow imports Http_Api
begin

text \<open>
  What sequences of operations and completions on one connection add up to: sending a stream
  in chunks, collecting a request body, and the paths on which the code goes on after it has
  already reported a failure.
\<close>

section \<open>Sending a stream\<close>

fun writes_done :: "('k, 'u) env \<Rightarrow> nat \<Rightarrow> ('k, 'u) world act" where
  "writes_done E 0 = skip"
| "writes_done E (Suc n) = seq (async_step E 0 True []) (writes_done E n)"

function chunks :: "string \<Rightarrow> string list" where
  "chunks d = (if length d < chunk_size then [d] else take chunk_size d # chunks (drop chunk_size d))"
  by auto
termination by (relation "measure length") (auto simp: chunk_size_def)

declare chunks.simps [simp del]

lemma concat_chunks: "concat (chunks d) = d"
  by (induction d rule: chunks.induct) (subst chunks.simps, simp)

lemma chunks_not_Nil [simp]: "chunks d \<noteq> []"
  by (subst chunks.simps) simp

lemma length_chunks: "length (chunks d) = length d div chunk_size + 1"
proof (induction d rule: chunks.induct)
  case (1 d)
  show ?case
  proof (cases "length d < chunk_size")
    case False
    then have "length d div chunk_size = (length d - chunk_size) div chunk_size + 1"
      using le_div_geq [of chunk_size "length d"] by (simp add: chunk_size_def)
    then show ?thesis using 1 False by (subst chunks.simps) simp
  qed (subst chunks.simps, simp)
qed

lemma chunks_bound: "c \<in> set (chunks d) \<Longrightarrow> length c \<le> chunk_size"
proof (induction d rule: chunks.induct)
  case (1 d)
  then show ?case using chunks.simps [of d] by (auto split: if_splits)
qed

lemma chunks_hd_tl:
  "hd (chunks d) = take chunk_size d"
  "tl (chunks d) = (if length d < chunk_size then [] else chunks (drop chunk_size d))"
  by (subst chunks.simps, simp)+

definition content_only :: "string \<Rightarrow> response" where
  "content_only c = empty_response\<lparr>rs_content := c\<rparr>"

text \<open>One completion while the helper still has data to send.\<close>

lemma stream_step:
  assumes w: "w_pending w = [P_write (Done_stream h)]" "w_write_locked w" "w_read_done w"
    and sh: "w_helpers w h = Some \<lparr>sh_body = \<lparr>is_data = d, is_good = True\<rparr>, sh_cb = cb\<rparr>"
  shows "async_step E 0 True x w =
    (w\<lparr>w_headers_sent := True,
       w_helpers := (w_helpers w)(h \<mapsto> \<lparr>sh_body = snd (read_chunk \<lparr>is_data = d, is_good = True\<rparr>), sh_cb = cb\<rparr>),
       w_resp := content_only (take chunk_size d),
       w_wire := w_wire w @ [W_write (content_only (take chunk_size d)) False]\<rparr>, Go)"
proof -
  have "complete E (P_write (Done_stream h)) True x (w\<lparr>w_pending := []\<rparr>) =
    (w\<lparr>w_headers_sent := True,
       w_helpers := (w_helpers w)(h \<mapsto> \<lparr>sh_body = snd (read_chunk \<lparr>is_data = d, is_good = True\<rparr>), sh_cb = cb\<rparr>),
       w_resp := content_only (take chunk_size d),
       w_wire := w_wire w @ [W_write (content_only (take chunk_size d)) False]\<rparr>, Go)"
    using w sh
    by (simp add: complete_def unlock_write_def run_done_def handle_send_def read_chunk_def
        base_send_body_eq act_simps content_only_def)
  then show ?thesis
    using w by (simp add: async_step_def remove_nth_def act_simps)
qed

text \<open>The state after the callback ran in \<open>w\<close> and the helper was deleted.\<close>

definition after_stream :: "('k, 'u) env \<Rightarrow> 'k closure option \<Rightarrow> nat \<Rightarrow> ('k, 'u) world \<Rightarrow> ('k, 'u) world" where
  "after_stream E cb h w =
     (let w1 = fst (run_closure E cb Http True w) in w1\<lparr>w_helpers := (w_helpers w1)(h := None)\<rparr>)"

text \<open>
  Between two writes: the body was read, something was sent, no write is pending. The callback
  of the stream runs in such a state.
\<close>

definition between_writes :: "('k, 'u) world \<Rightarrow> bool" where
  "between_writes w \<longleftrightarrow> w_read_done w \<and> w_headers_sent w \<and> \<not> w_write_locked w \<and> w_pending w = []"

text \<open>The completion after the last chunk runs the callback and deletes the helper.\<close>

lemma stream_last:
  assumes w: "w_pending w = [P_write (Done_stream h)]" "w_write_locked w" "w_read_done w"
    and sh: "w_helpers w h = Some \<lparr>sh_body = \<lparr>is_data = d, is_good = False\<rparr>, sh_cb = cb\<rparr>"
    and cb: "\<And>w'. between_writes w' \<Longrightarrow> snd (run_closure E cb Http True w') = Go"
  shows "\<exists>w'. async_step E 0 True x w = (after_stream E cb h w', Go)
    \<and> w_wire w' = w_wire w \<and> between_writes w'"
proof -
  let ?w = "w\<lparr>w_pending := [], w_headers_sent := True, w_write_locked := False\<rparr>"
  have idle: "between_writes ?w" using w by (simp add: between_writes_def)
  obtain w1 where r: "run_closure E cb Http True ?w = (w1, Go)"
    using cb [OF idle] by (cases "run_closure E cb Http True ?w") simp
  have "complete E (P_write (Done_stream h)) True x (w\<lparr>w_pending := []\<rparr>) =
      (w1\<lparr>w_helpers := (w_helpers w1)(h := None)\<rparr>, Go)"
    using w sh r
    by (simp add: complete_def unlock_write_def run_done_def handle_send_def stream_finish_def act_simps)
  then show ?thesis
    using w r idle by (intro exI [of _ ?w]) (simp add: async_step_def remove_nth_def act_simps after_stream_def)
qed

lemma stream_loop:
  assumes "w_pending w = [P_write (Done_stream h)]" "w_write_locked w" "w_read_done w"
    and "w_helpers w h = Some \<lparr>sh_body = \<lparr>is_data = d, is_good = g\<rparr>, sh_cb = cb\<rparr>"
    and cb: "\<And>w'. between_writes w' \<Longrightarrow> snd (run_closure E cb Http True w') = Go"
  shows "\<exists>w'. writes_done E (Suc (if g then length (chunks d) else 0)) w = (after_stream E cb h w', Go)
    \<and> w_wire w' = w_wire w @ (if g then map (\<lambda>c. W_write (content_only c) False) (chunks d) else [])
    \<and> between_writes w'"
  using assms(1-4)
proof (induction d arbitrary: g w rule: chunks.induct)
  case (1 d)
  show ?case
  proof (cases g)
    case False
    then have "w_helpers w h = Some \<lparr>sh_body = \<lparr>is_data = d, is_good = False\<rparr>, sh_cb = cb\<rparr>"
      using "1.prems"(4) by simp
    from stream_last [OF "1.prems"(1-3) this cb]
    obtain w' where "async_step E 0 True [] w = (after_stream E cb h w', Go)" "w_wire w' = w_wire w" "between_writes w'"
      by blast
    then show ?thesis using False by (intro exI [of _ w']) (simp add: act_simps)
  next
    case True
    define w2 where "w2 = w\<lparr>w_headers_sent := True,
       w_helpers := (w_helpers w)(h \<mapsto> \<lparr>sh_body = snd (read_chunk \<lparr>is_data = d, is_good = True\<rparr>), sh_cb = cb\<rparr>),
       w_resp := content_only (take chunk_size d),
       w_wire := w_wire w @ [W_write (content_only (take chunk_size d)) False]\<rparr>"
    have step: "async_step E 0 True [] w = (w2, Go)"
      using stream_step [OF "1.prems"(1-3)] "1.prems"(4) True by (simp add: w2_def)
    let ?g = "chunk_size \<le> length d"
    have w2: "w_pending w2 = [P_write (Done_stream h)]" "w_write_locked w2" "w_read_done w2"
      "w_helpers w2 h = Some \<lparr>sh_body = \<lparr>is_data = drop chunk_size d, is_good = ?g\<rparr>, sh_cb = cb\<rparr>"
      using "1.prems" by (simp_all add: w2_def read_chunk_def)
    have n: "length (chunks d) = Suc (if ?g then length (chunks (drop chunk_size d)) else 0)"
      by (subst chunks.simps) auto
    have wire: "w_wire w2 = w_wire w @ [W_write (content_only (take chunk_size d)) False]"
      by (simp add: w2_def)
    have all: "chunks d = take chunk_size d # (if ?g then chunks (drop chunk_size d) else [])"
      by (subst chunks.simps) auto
    have "\<exists>w'. writes_done E (length (chunks d)) w2 = (after_stream E cb h w', Go)
      \<and> w_wire w' = w_wire w2 @ (if ?g then map (\<lambda>c. W_write (content_only c) False) (chunks (drop chunk_size d)) else [])
      \<and> between_writes w'"
    proof (cases ?g)
      case True
      then show ?thesis using "1.IH" [of w2 ?g] w2 unfolding n by auto
    next
      case False
      then have "w_helpers w2 h = Some \<lparr>sh_body = \<lparr>is_data = drop chunk_size d, is_good = False\<rparr>, sh_cb = cb\<rparr>"
        using w2(4) by simp
      from stream_last [OF w2(1-3) this cb]
      obtain w' where "async_step E 0 True [] w2 = (after_stream E cb h w', Go)" "w_wire w' = w_wire w2" "between_writes w'"
        by blast
      then show ?thesis unfolding n using False by (intro exI [of _ w']) (simp add: act_simps)
    qed
    then obtain w' where w': "writes_done E (length (chunks d)) w2 = (after_stream E cb h w', Go)"
      "w_wire w' = w_wire w2 @ (if ?g then map (\<lambda>c. W_write (content_only c) False) (chunks (drop chunk_size d)) else [])"
      "between_writes w'"
      by blast
    have "writes_done E (Suc (length (chunks d))) w = writes_done E (length (chunks d)) w2"
      using step by (simp add: seq_def)
    moreover have "w_wire w' = w_wire w @ map (\<lambda>c. W_write (content_only c) False) (chunks d)"
      unfolding w'(2) wire all by simp
    ultimately show ?thesis using True w'(1,3) by (intro exI [of _ w']) simp
  qed
qed

lemma send_stream_result:
  assumes idle: "w_read_done w" "\<not> w_write_locked w" "w_pending w = []"
    and cb: "\<And>w'. between_writes w' \<Longrightarrow> snd (run_closure E cb Http True w') = Go"
  shows "\<exists>w' c cs. seq (base_send_stream catch run \<lparr>is_data = d, is_good = True\<rparr> cb)
        (writes_done E (length d div chunk_size + 1)) w = (after_stream E cb (w_next w) w', Go)
    \<and> w_wire w' = w_wire w
        @ W_write ((if w_headers_sent w then empty_response else w_resp w)\<lparr>rs_content := c\<rparr>) False
        # map (\<lambda>c. W_write (content_only c) False) cs
    \<and> concat (c # cs) = d \<and> (\<forall>x \<in> set (c # cs). length x \<le> chunk_size) \<and> between_writes w'"
proof -
  let ?h = "w_next w" and ?rest = "drop chunk_size d" and ?g = "chunk_size \<le> length d"
  let ?r = "(if w_headers_sent w then empty_response else w_resp w)\<lparr>rs_content := take chunk_size d\<rparr>"
  define w1 where "w1 = w\<lparr>w_write_locked := True, w_resp := ?r,
     w_pending := [P_write (Done_stream ?h)], w_wire := w_wire w @ [W_write ?r False],
     w_helpers := (w_helpers w)(?h \<mapsto> \<lparr>sh_body = \<lparr>is_data = ?rest, is_good = ?g\<rparr>, sh_cb = cb\<rparr>),
     w_next := ?h + 1\<rparr>"
  have first: "base_send_stream catch run \<lparr>is_data = d, is_good = True\<rparr> cb w = (w1, Go)"
    using idle
    by (simp add: base_send_stream_def handle_send_def read_chunk_def
        base_send_body_eq act_simps w1_def)
  have w1: "w_pending w1 = [P_write (Done_stream ?h)]" "w_write_locked w1" "w_read_done w1"
    "w_helpers w1 ?h = Some \<lparr>sh_body = \<lparr>is_data = ?rest, is_good = ?g\<rparr>, sh_cb = cb\<rparr>"
    using idle(1) by (simp_all add: w1_def)
  have all: "chunks d = take chunk_size d # (if ?g then chunks ?rest else [])"
    by (subst chunks.simps) auto
  have n: "length d div chunk_size + 1 = Suc (if ?g then length (chunks ?rest) else 0)"
    by (simp only: length_chunks [symmetric] all) simp
  obtain w' where w': "writes_done E (length d div chunk_size + 1) w1 = (after_stream E cb ?h w', Go)"
    "w_wire w' = w_wire w1 @ (if ?g then map (\<lambda>c. W_write (content_only c) False) (chunks ?rest) else [])"
    "between_writes w'"
    using stream_loop [OF w1 cb] unfolding n by blast
  let ?cs = "if ?g then chunks ?rest else []"
  have "concat (take chunk_size d # ?cs) = d" by (simp only: all [symmetric] concat_chunks)
  moreover have "\<forall>x \<in> set (take chunk_size d # ?cs). length x \<le> chunk_size"
    using chunks_bound [of _ d] by (simp only: all [symmetric] Ball_def) simp
  moreover have "w_wire w' = w_wire w @ W_write ?r False # map (\<lambda>c. W_write (content_only c) False) ?cs"
    using w'(2) by (simp add: w1_def)
  moreover have "seq (base_send_stream catch run \<lparr>is_data = d, is_good = True\<rparr> cb)
      (writes_done E (length d div chunk_size + 1)) w = (after_stream E cb ?h w', Go)"
    using first w'(1) by (simp add: seq_def)
  ultimately show ?thesis using w'(3) by blast
qed

text \<open>
  C6. Sending a stream on an idle connection whose body was read: after one completion more
  than there are chunks, the messages handed to the stream carry the whole content in order,
  in pieces of at most 65536 bytes, only the first of them with the status and headers that
  were set before; then the callback has run once, with success and no write pending, and the
  helper is deleted.
\<close>

theorem send_stream_complete:
  assumes idle: "w_read_done w" "\<not> w_write_locked w" "w_pending w = []"
    and cb: "\<And>w'. between_writes w' \<Longrightarrow> snd (run_closure E cb Http True w') = Go"
  shows "\<exists>w' c cs. seq (http_send_stream E Http \<lparr>is_data = d, is_good = True\<rparr> cb)
        (writes_done E (length d div chunk_size + 1)) w = (after_stream E cb (w_next w) w', Go)
    \<and> w_wire w' = w_wire w
        @ W_write ((if w_headers_sent w then empty_response else w_resp w)\<lparr>rs_content := c\<rparr>) False
        # map (\<lambda>c. W_write (content_only c) False) cs
    \<and> concat (c # cs) = d \<and> (\<forall>x \<in> set (c # cs). length x \<le> chunk_size)"
proof -
  have "http_send_stream E Http \<lparr>is_data = d, is_good = True\<rparr> cb
      = base_send_stream (catch_all E) (\<lambda>cl. run_closure E cl Http) \<lparr>is_data = d, is_good = True\<rparr> cb"
    by (simp add: http_send_stream_def con_send_stream_def)
  then show ?thesis using send_stream_result [OF idle cb] by metis
qed

lemma demo_callback_goes: "snd (run_closure demo_env (Some (User_cb k)) Http True w) = Go"
  by (simp add: run_closure_def demo_env_def log_line_def act_simps)

theorem send_stream_complete_witness:
  "\<exists>w' c cs. seq (http_send_stream demo_env Http \<lparr>is_data = ''data'', is_good = True\<rparr> (Some (User_cb ''sent'')))
        (writes_done demo_env (length ''data'' div chunk_size + 1))
        ((new_connection () demo_request)\<lparr>w_read_done := True\<rparr>) = (w', Go) \<and> concat (c # cs) = ''data''"
proof -
  let ?w = "(new_connection () demo_request :: (string, unit) world)\<lparr>w_read_done := True\<rparr>"
  have "w_read_done ?w" "\<not> w_write_locked ?w" "w_pending ?w = []" by (simp_all add: new_connection_def)
  from send_stream_complete [OF this demo_callback_goes]
  show ?thesis by meson
qed

section \<open>Collecting a request body\<close>

fun reads_done :: "('k, 'u) env \<Rightarrow> string list \<Rightarrow> ('k, 'u) world act" where
  "reads_done E [] = skip"
| "reads_done E (c # cs) = seq (async_step E 0 True c) (reads_done E cs)"

lemma read_step:
  assumes "w_pending w = [P_read (Body_helper f (Some b))]" "w_read_locked w" "\<not> w_read_done w"
    "w_buffers w b = Some buf"
  shows "async_step E 0 True c w = (w\<lparr>w_buffers := (w_buffers w)(b \<mapsto> buf @ c)\<rparr>, Go)"
proof -
  have "complete E (P_read (Body_helper f (Some b))) True c (w\<lparr>w_pending := []\<rparr>)
      = (w\<lparr>w_buffers := (w_buffers w)(b \<mapsto> buf @ c)\<rparr>, Go)"
    using assms
    by (cases w) (simp add: complete_def unlock_read_def run_body_def append_buffer_def base_read_body_def
        lock_read_def issue_def act_simps)
  then show ?thesis using assms by (simp add: async_step_def remove_nth_def act_simps)
qed

lemma read_loop:
  assumes "w_pending w = [P_read (Body_helper f (Some b))]" "w_read_locked w" "\<not> w_read_done w"
    "w_buffers w b = Some buf"
  shows "reads_done E cs w = (w\<lparr>w_buffers := (w_buffers w)(b \<mapsto> buf @ concat cs)\<rparr>, Go)"
  using assms
proof (induction cs arbitrary: w buf)
  case Nil
  then have "(w_buffers w)(b \<mapsto> buf) = w_buffers w" by (simp add: fun_upd_idem)
  then show ?case by (simp add: skip_def del: fun_upd_apply)
next
  case (Cons c cs)
  let ?w = "w\<lparr>w_buffers := (w_buffers w)(b \<mapsto> buf @ c)\<rparr>"
  have "reads_done E (c # cs) w = reads_done E cs ?w"
    using read_step [OF Cons.prems] by (simp add: seq_def)
  also have "\<dots> = (?w\<lparr>w_buffers := (w_buffers ?w)(b \<mapsto> (buf @ c) @ concat cs)\<rparr>, Go)"
    using Cons.prems by (intro Cons.IH) simp_all
  finally show ?case by (simp del: fun_upd_apply)
qed

text \<open>
  C15. \<^verbatim>\<open>read_body_full\<close> collects the body: when the stream delivers the parts \<open>cs\<close> and then its
  end, the callback runs exactly then, once, with their concatenation, and afterwards the
  buffer is freed. (The flag it is called with is false, the one of the last read.)
\<close>

theorem read_body_full_collects:
  fixes w :: "('k, 'u) world" and cs :: "string list"
  defines "w' \<equiv> w\<lparr>w_read_done := True, w_next := w_next w + 1,
       w_buffers := (w_buffers w)(w_next w \<mapsto> concat cs)\<rparr>"
  assumes "\<not> w_read_done w" "\<not> w_read_locked w" "w_pending w = []"
    and cb: "e_body E k Http False (concat cs) w' = (w1, Go)"
  shows "seq (http_read_body_full E Http (Body_user k)) (seq (reads_done E cs) (async_step E 0 False x)) w
    = (w1\<lparr>w_buffers := (w_buffers w1)(w_next w := None)\<rparr>, Go)"
proof -
  let ?b = "w_next w" and ?cb = "Body_helper (Body_user k) (Some (w_next w))"
  let ?w = "w\<lparr>w_read_locked := True, w_pending := [P_read ?cb], w_next := ?b + 1,
      w_buffers := (w_buffers w)(?b \<mapsto> [])\<rparr>"
  have start: "http_read_body_full E Http (Body_user k) w = (?w, Go)"
    using assms(2-4) by (simp add: http_read_body_full_def base_read_body_def lock_read_def issue_def act_simps)
  let ?v = "?w\<lparr>w_buffers := (w_buffers ?w)(?b \<mapsto> concat cs)\<rparr>"
  have loop: "reads_done E cs ?w = (?v, Go)"
    using read_loop [of ?w "Body_user k" ?b "[]" E cs] assms(2) by simp
  have "?v\<lparr>w_pending := [], w_read_done := True, w_read_locked := False\<rparr> = w'"
    using assms(3,4) by (cases w) (simp add: w'_def)
  then have "complete E (P_read ?cb) False x (?v\<lparr>w_pending := []\<rparr>)
      = (w1\<lparr>w_buffers := (w_buffers w1)(?b := None)\<rparr>, Go)"
    using cb assms(3,4)
    by (cases w) (simp add: complete_def unlock_read_def run_body_def act_simps w'_def)
  then have "async_step E 0 False x ?v = (w1\<lparr>w_buffers := (w_buffers w1)(?b := None)\<rparr>, Go)"
    by (simp add: async_step_def remove_nth_def act_simps)
  then show ?thesis using start loop by (simp add: seq_def)
qed

theorem read_body_full_collects_witness:
  "\<exists>w1. seq (http_read_body_full demo_env Http (Body_user ''cb''))
      (seq (reads_done demo_env [''ab'', ''c'']) (async_step demo_env 0 False [])) (new_connection () demo_request)
    = (w1, Go) \<and> w_log w1 = [''cb-abc'']"
proof -
  let ?w = "new_connection () demo_request :: (string, unit) world"
  have idle: "\<not> w_read_done ?w" "\<not> w_read_locked ?w" "w_pending ?w = []"
    by (simp_all add: new_connection_def)
  have "e_body demo_env ''cb'' Http False (concat [''ab'', ''c'']) v = (v\<lparr>w_log := w_log v @ [''cb-abc'']\<rparr>, Go)" for v
    by (simp add: demo_env_def log_line_def act_simps)
  from read_body_full_collects [OF idle this]
  show ?thesis by (simp add: new_connection_def)
qed

section \<open>Going on after a failure was reported\<close>

text \<open>
  Calling \<^verbatim>\<open>send_body\<close> before the request body was read reports the failure to the callback
  and then sends all the same, no longer holding the mutex: the write is handed to the stream
  and its completion unlocks a mutex that is not locked, which is undefined behaviour. The
  same happens in \<^verbatim>\<open>end\<close>.
\<close>

theorem send_before_read_undefined:
  assumes "\<not> w_read_done w" "\<not> w_write_locked w" "w_pending w = []"
    and cb: "e_done E k Http False w = (w1, Go)"
    and quiet: "\<not> w_write_locked w1" "w_pending w1 = []"
  shows "\<exists>w2 w3. http_send_body E Http body (Some (User_cb k)) b w = (w2, Go)
      \<and> length (w_wire w2) = length (w_wire w1) + 1
      \<and> snd (async_step E 0 ok x w2) = Undefined
    \<and> http_end E Http body (Some (User_cb k)) w = (w3, Go)
      \<and> length (w_wire w3) = length (w_wire w1) + 1
      \<and> snd (async_step E 0 ok x w3) = Undefined"
proof -
  have same: "w\<lparr>w_write_locked := False\<rparr> = w" using assms(2) by (cases w) simp
  have cb': "run_closure E (Some (User_cb k)) Http False w = (w1, Go)"
    using cb by (simp add: run_closure_def)
  let ?r = "(if w_headers_sent w1 then empty_response else w_resp w1)\<lparr>rs_content := body\<rparr>"
  let ?w2 = "w1\<lparr>w_resp := ?r, w_wire := w_wire w1 @ [W_write ?r (b \<and> w_headers_sent w1)],
      w_pending := [P_write (Done_cb (Some (User_cb k)))]\<rparr>"
  have send: "http_send_body E Http body (Some (User_cb k)) b w = (?w2, Go)"
    using assms(1,2) cb' quiet
    by (simp add: http_send_body_def con_send_body_def base_send_body_def lock_write_def early_write_def
        unlock_write_def transmit_def issue_def act_simps same)
  moreover have "snd (async_step E 0 ok x ?w2) = Undefined"
    using quiet by (simp add: async_step_def remove_nth_def complete_def unlock_write_def act_simps)
  moreover define w3 where "w3 = fst (http_end E Http body (Some (User_cb k)) w)"
  have "http_end E Http body (Some (User_cb k)) w = (w3, Go) \<and> length (w_wire w3) = length (w_wire w1) + 1
      \<and> snd (async_step E 0 ok x w3) = Undefined"
    using assms(1,2) cb' quiet
    by (cases "w_headers_sent w1 \<and> body = []")
       (auto simp: w3_def http_end_def con_end_def base_end_def lock_write_def early_write_def
        unlock_write_def transmit_def issue_def act_simps same async_step_def remove_nth_def complete_def)
  ultimately show ?thesis by (intro exI [of _ ?w2] exI [of _ w3]) simp
qed

theorem send_before_read_undefined_witness:
  "\<exists>w2. http_send_body demo_env Http ''x'' (Some (User_cb ''cb'')) False (new_connection () demo_request) = (w2, Go)
      \<and> snd (async_step demo_env 0 True [] w2) = Undefined"
proof -
  let ?w = "new_connection () demo_request :: (string, unit) world"
  let ?w1 = "?w\<lparr>w_log := [''cb-'']\<rparr>"
  have idle: "\<not> w_read_done ?w" "\<not> w_write_locked ?w" "w_pending ?w = []"
    and quiet: "\<not> w_write_locked ?w1" "w_pending ?w1 = []"
    by (simp_all add: new_connection_def)
  have "e_done demo_env ''cb'' Http False ?w = (?w1, Go)"
    by (simp add: demo_env_def log_line_def act_simps new_connection_def)
  from send_before_read_undefined [OF idle this quiet] show ?thesis by blast
qed

text \<open>
  Reading the whole body a second time, after it was read, calls the callback and frees
  the buffer, then issues the read all the same without holding the mutex: its completion is
  undefined, whether it succeeds or not.
\<close>

theorem read_twice_undefined:
  assumes "w_read_done w" "\<not> w_read_locked w" "w_pending w = []"
    and cb: "\<And>v. e_body E k Http False [] v = (v\<lparr>w_user := f (w_user v)\<rparr>, Go)"
  shows "\<exists>w2. http_read_body_full E Http (Body_user k) w = (w2, Go)
      \<and> w_user w2 = f (w_user w) \<and> w_buffers w2 (w_next w) = None
      \<and> w_pending w2 = [P_read (Body_helper (Body_user k) (Some (w_next w)))]
      \<and> snd (async_step E 0 ok x w2) = Undefined"
proof -
  define w2 where "w2 = fst (http_read_body_full E Http (Body_user k) w)"
  show ?thesis
    using assms
    by (intro exI [of _ w2])
       (simp add: w2_def http_read_body_full_def base_read_body_def lock_read_def unlock_read_def issue_def
         act_simps async_step_def remove_nth_def complete_def)
qed

definition quiet_env :: "(string, nat) env" where
  "quiet_env =
     \<lparr>e_ttl = ttl_ref, e_date = zero_date, e_fs = (\<lambda>_. empty_fs),
      e_done = (\<lambda>k con ok. skip),
      e_body = (\<lambda>k con ok str. modify (\<lambda>w. w\<lparr>w_user := w_user w + 1\<rparr>)),
      e_notfound = (\<lambda>_ _. skip), e_error = (\<lambda>_ _ _ _. skip),
      e_handler = (\<lambda>n con. skip), e_mw = (\<lambda>_ con next. next con), e_rewrite = (\<lambda>_ con w. (w, Inr []))\<rparr>"

theorem read_twice_undefined_witness:
  "\<exists>w2. http_read_body_full quiet_env Http (Body_user ''cb'') ((new_connection 0 demo_request)\<lparr>w_read_done := True\<rparr>)
     = (w2, Go) \<and> w_user w2 = 1 \<and> snd (async_step quiet_env 0 True ''x'' w2) = Undefined"
proof -
  let ?w = "(new_connection 0 demo_request :: (string, nat) world)\<lparr>w_read_done := True\<rparr>"
  have idle: "w_read_done ?w" "\<not> w_read_locked ?w" "w_pending ?w = []" by (simp_all add: new_connection_def)
  have "e_body quiet_env ''cb'' Http False [] v = (v\<lparr>w_user := Suc (w_user v)\<rparr>, Go)" for v
    by (simp add: quiet_env_def act_simps)
  from read_twice_undefined [OF idle this] show ?thesis by (fastforce simp: new_connection_def)
qed

end
