(* ===== verification/Router.thy ===== *)
theory Router imports Http_Flow
begin

text \<open>
  \<^verbatim>\<open>http::router\<close> at work (\<^verbatim>\<open>src/http/router.cpp\<close>) with the middleware of \<^verbatim>\<open>src/http/mw\<close>: a
  request runs through the global middleware, is matched against the routes of its method,
  runs through the middleware of the route and reaches the handler; exceptions on the way
  become responses.
\<close>

section \<open>Middleware\<close>

text \<open>\<^verbatim>\<open>std::match_results::format\<close> with the ECMAScript rules; \<open>n\<close> is the number of groups.\<close>

definition submatch :: "string \<Rightarrow> captures \<Rightarrow> nat \<Rightarrow> nat \<Rightarrow> string" where
  "submatch whole caps n i = (if i = 0 then whole else if i \<le> n then capture_str caps i else [])"

definition digit_of :: "char \<Rightarrow> nat" where
  "digit_of c = of_char c - 48"

function match_format :: "string \<Rightarrow> captures \<Rightarrow> nat \<Rightarrow> string \<Rightarrow> string" where
  "match_format whole caps n [] = []"
| "match_format whole caps n (c # fmt) =
     (if c \<noteq> CHR ''$'' \<or> fmt = [] then c # match_format whole caps n fmt
      else (let x = hd fmt; xs = tl fmt
            in if x = CHR ''$'' then x # match_format whole caps n xs
               else if x = CHR ''&'' then whole @ match_format whole caps n xs
               else if x = CHR 0x60 \<or> x = CHR 0x27 then match_format whole caps n xs
               else if is_digit x then
                 (if xs \<noteq> [] \<and> is_digit (hd xs)
                  then submatch whole caps n (10 * digit_of x + digit_of (hd xs)) @ match_format whole caps n (tl xs)
                  else submatch whole caps n (digit_of x) @ match_format whole caps n xs)
               else c # match_format whole caps n fmt))"
  by pat_completeness auto
termination
  by (relation "measure (\<lambda>(_, _, _, s). length s)") (auto simp: neq_Nil_conv)

definition run_rewrite :: "('k, 'u) env \<Rightarrow> rewrite_fn \<Rightarrow> connection \<Rightarrow> ('k, 'u) world \<Rightarrow> ('k, 'u) world \<times> string result" where
  "run_rewrite E fn con w =
     (case fn of
        User_rewrite f \<Rightarrow> e_rewrite E f con w
      | Regex_rewrite r n fmt \<Rightarrow>
          (w, Inr (case regex_match r (get_resource con w) of
                     None \<Rightarrow> []
                   | Some caps \<Rightarrow> match_format (get_resource con w) caps n fmt)))"

text \<open>\<^verbatim>\<open>std::make_shared\<close> of a wrapper: a new object.\<close>

definition new_object :: "(nat \<Rightarrow> ('k, 'u) world act) \<Rightarrow> ('k, 'u) world act" where
  "new_object f = read_state (\<lambda>w. seq (modify (\<lambda>w. w\<lparr>w_next := w_next w + 1\<rparr>)) (f (w_next w)))"

definition rewrite_on_request ::
    "('k, 'u) env \<Rightarrow> rewrite_fn \<Rightarrow> connection \<Rightarrow> (connection \<Rightarrow> ('k, 'u) world act) \<Rightarrow> ('k, 'u) world act" where
  "rewrite_on_request E fn con next w =
     (case run_rewrite E fn con w of
        (w', Inl e) \<Rightarrow> throw e w'
      | (w', Inr res) \<Rightarrow>
          if res \<noteq> [] then new_object (\<lambda>i. next (Rewrite_con con res i)) w' else next con w')"

definition request_line :: "connection \<Rightarrow> ('k, 'u) world \<Rightarrow> string" where
  "request_line con w =
     get_method w @ '' '' @ get_resource con w @ '' '' @ get_protocol w @ '' ''
     @ (if is_encrypted w then ''tls'' else ''plain'') @ '' ''
     @ get_client_ip w @ '':'' @ dec_nat (unat (get_client_port w))"

definition logger_on_request ::
    "connection \<Rightarrow> (connection \<Rightarrow> ('k, 'u) world act) \<Rightarrow> ('k, 'u) world act" where
  "logger_on_request con next =
     seq (modify (\<lambda>w. w\<lparr>w_log := w_log w @ [request_line con w]\<rparr>)) (next con)"

definition mime_on_request ::
    "mime \<Rightarrow> connection \<Rightarrow> (connection \<Rightarrow> ('k, 'u) world act) \<Rightarrow> ('k, 'u) world act" where
  "mime_on_request m con next w =
     (case get_parsed_uri con w of
        (w', Inl e) \<Rightarrow> throw e w'
      | (w', Inr u) \<Rightarrow>
          if ext u \<noteq> [] \<and> has_type m (ext u)
          then new_object (\<lambda>i. next (Mime_con con (get_type m (ext u)) i)) w'
          else next con w')"

definition run_mw ::
    "('k, 'u) env \<Rightarrow> middleware \<Rightarrow> connection \<Rightarrow> (connection \<Rightarrow> ('k, 'u) world act) \<Rightarrow> ('k, 'u) world act" where
  "run_mw E m con next =
     (case m of
        Rewrite_mw fn \<Rightarrow> rewrite_on_request E fn con next
      | Logger_mw \<Rightarrow> logger_on_request con next
      | Mime_mw t \<Rightarrow> mime_on_request t con next
      | User_mw f \<Rightarrow> e_mw E f con next)"

section \<open>Routing\<close>

definition run_handler :: "('k, 'u) env \<Rightarrow> route_handler \<Rightarrow> connection \<Rightarrow> ('k, 'u) world act" where
  "run_handler E h con =
     (case h of
        Function_handler _ _ f \<Rightarrow> e_handler E f con
      | Filesystem_handler fh \<Rightarrow> http_skip_body E con (Some (Fs_serve fh)))"

fun mw_helper_local ::
    "('k, 'u) env \<Rightarrow> route_handler \<Rightarrow> middleware list \<Rightarrow> connection \<Rightarrow> ('k, 'u) world act" where
  "mw_helper_local E h [] con = run_handler E h con"
| "mw_helper_local E h (m # ms) con = run_mw E m con (mw_helper_local E h ms)"

text \<open>The search of \<^verbatim>\<open>do_routing\<close>: the first entry whose expression matches the whole path.\<close>

fun first_match :: "string \<Rightarrow> route_entry list \<Rightarrow> (route_entry \<times> captures) option" where
  "first_match p [] = None"
| "first_match p (e # es) =
     (case regex_match (re_regex e) p of
        Some caps \<Rightarrow> Some (e, caps)
      | None \<Rightarrow> first_match p es)"

definition current_params :: "('k, 'u) world \<Rightarrow> route_params" where
  "current_params w = (case route_params_of w of Some ps \<Rightarrow> ps | None \<Rightarrow> no_params)"

definition capture_params :: "string list \<Rightarrow> captures \<Rightarrow> (string \<Rightarrow> string option) \<Rightarrow> string \<Rightarrow> string option" where
  "capture_params keys caps m = fold (\<lambda>i m. m(keys ! i \<mapsto> capture_str caps (i + 1))) [0..<length keys] m"

definition dispatch ::
    "('k, 'u) env \<Rightarrow> routing_info \<Rightarrow> connection \<Rightarrow> route_entry \<Rightarrow> captures \<Rightarrow> ('k, 'u) world act" where
  "dispatch E info con e caps =
     seq (modify (\<lambda>w. set_route_params (current_params w) w))
     (if re_groups e + 1 \<noteq> length (re_keys e) + 1 then
        seq (debug_header E info con ''Regex size check failed'')
            (call_error E info con ''Internal error'' None ''Internal error'')
      else
        seq (modify (\<lambda>w. let ps = current_params w in set_route_params
              \<lparr>rp_params = capture_params (re_keys e) caps (rp_params ps),
               rp_info = Some info, rp_entry = Some e\<rparr> w))
            (try_catch (mw_helper_local E (re_handler e) (re_middleware e) con) (handle_exception E con)))"

definition do_routing :: "('k, 'u) env \<Rightarrow> routing_info \<Rightarrow> connection \<Rightarrow> ('k, 'u) world act" where
  "do_routing E info con w =
     (case get_parsed_uri con w of
        (w', Inl e) \<Rightarrow> throw e w'
      | (w', Inr u) \<Rightarrow>
          (case ri_routes info (get_method w') of
             None \<Rightarrow> call_notfound E info con w'
           | Some entries \<Rightarrow>
               (case first_match (path u) entries of
                  None \<Rightarrow> call_notfound E info con w'
                | Some (e, caps) \<Rightarrow> dispatch E info con e caps w')))"

fun mw_helper_global ::
    "('k, 'u) env \<Rightarrow> routing_info \<Rightarrow> (pos \<times> middleware) list \<Rightarrow> connection \<Rightarrow> ('k, 'u) world act" where
  "mw_helper_global E info [] con = do_routing E info con"
| "mw_helper_global E info (m # ms) con = run_mw E (snd m) con (mw_helper_global E info ms)"

definition on_request :: "('k, 'u) env \<Rightarrow> routing_info \<Rightarrow> connection \<Rightarrow> ('k, 'u) world act" where
  "on_request E info con =
     seq (modify (set_route_params \<lparr>rp_params = Map.empty, rp_info = Some info, rp_entry = None\<rparr>))
         (try_catch (mw_helper_global E info (ri_middleware info) con) (handle_exception E con))"

section \<open>The start of a request\<close>

text \<open>
  \<^verbatim>\<open>http_connection::start\<close>: the two continuations, of accepting the call and of the first
  read. The headers are entered under their lower-cased names.
\<close>

definition on_accepted :: "bool \<Rightarrow> ('k, 'u) world act" where
  "on_accepted ok = (if ok then modify (\<lambda>w. w\<lparr>w_started := True\<rparr>) else skip)"

definition on_initial_read :: "('k, 'u) env \<Rightarrow> routing_info \<Rightarrow> bool \<Rightarrow> request \<Rightarrow> ('k, 'u) world act" where
  "on_initial_read E info ok rq =
     (if \<not> ok then skip else
      seq (modify (\<lambda>w. w\<lparr>w_request := rq,
             w_req_headers := fold (\<lambda>(k, v). mm_insert (ttl_to_lower (e_ttl E) k) v) (rq_headers rq) (w_req_headers w)\<rparr>))
          (try_catch (on_request E info Http) (log_exception ''exception processing http request: '')))"

text \<open>What the destructor warns about.\<close>

definition drop_warnings :: "('k, 'u) world \<Rightarrow> string list" where
  "drop_warnings w =
     (if w_started w then
        (if \<not> w_read_done w then [''con dropped without reading content''] else [])
        @ (if \<not> w_headers_sent w then [''con dropped without sending headers''] else [])
        @ (if \<not> w_finished w then [''con dropped without finishing''] else [])
      else [])"

end
