(* ===== verification/Ws_Queue.thy ===== *)
theory Ws_Queue imports Uri "HOL-Library.List_Lexorder" "HOL-Library.Char_ord"
begin

text \<open>
  Websocket connections and the queue of responses in front of the stream: the fields of
  \<^verbatim>\<open>ws_connection\<close> (\<^verbatim>\<open>src/handler.cpp\<close>) and the operations that add to the queue. The state
  holds all connections and the groups of the hub, because handlers of one connection send
  to others.
\<close>

section \<open>Messages and state\<close>

datatype ws_type = Ws_text | Ws_binary | Ws_close

record ws_message =
  wm_type :: ws_type
  wm_content :: string

text \<open>A response carries headers (the first one) or a message; an absent message reads as an empty text.\<close>

record ws_response =
  wr_headers :: "(string \<times> string) list"
  wr_message :: ws_message

text \<open>A callback to run when a message was written: the lambda that does nothing, or the application's.\<close>

datatype 'k ws_cb = Ws_nop | Ws_user 'k

text \<open>The calls of the completion queue: a connection, its first message, a later one, a write, the end.\<close>

datatype ws_pending = Wp_accept | Wp_request | Wp_read | Wp_write | Wp_finish

text \<open>
  \<open>wc_group\<close> is the attribute the hub attaches: absent, present with an expired pointer, or
  naming a group (groups are never removed from the hub). \<open>wc_parsed\<close> is the resource once it
  was parsed.
\<close>

record 'k ws_con =
  wc_done :: bool
  wc_resource :: string
  wc_protocol :: string
  wc_client_ip :: string
  wc_client_port :: "32 word"
  wc_server_ip :: string
  wc_server_port :: "32 word"
  wc_encrypted :: bool
  wc_req_headers :: "(string \<times> string) list"
  wc_resp_headers :: "(string \<times> string) list"
  wc_queue :: "(ws_response \<times> 'k ws_cb option) list"
  wc_locked :: bool
  wc_pending :: "ws_pending list"
  wc_wire :: "ws_response list"
  wc_group :: "string option option"
  wc_parsed :: "uri option"

text \<open>
  The members of a group are in the order of their addresses, which is the order of the
  numbers. \<open>ww_names\<close> is the order in which the hub's unordered map of groups is traversed.
\<close>

record group =
  g_cons :: "nat list"
  g_handler :: "nat option"
  g_name :: string

record ('k, 'u) ws_world =
  ww_con :: "nat \<Rightarrow> 'k ws_con"
  ww_groups :: "string \<Rightarrow> group option"
  ww_names :: "string list"
  ww_log :: "string list"
  ww_user :: 'u

definition upd_con :: "nat \<Rightarrow> ('k ws_con \<Rightarrow> 'k ws_con) \<Rightarrow> ('k, 'u) ws_world \<Rightarrow> ('k, 'u) ws_world" where
  "upd_con c f w = w\<lparr>ww_con := (ww_con w)(c := f (ww_con w c))\<rparr>"

lemma upd_con_simps [simp]:
  "ww_con (upd_con c f w) d = (if d = c then f (ww_con w c) else ww_con w d)"
  "ww_groups (upd_con c f w) = ww_groups w" "ww_names (upd_con c f w) = ww_names w" "ww_log (upd_con c f w) = ww_log w"
  "ww_user (upd_con c f w) = ww_user w"
  by (simp_all add: upd_con_def)

lemma upd_con_twice [simp]: "upd_con c f (upd_con c g w) = upd_con c (f \<circ> g) w"
  by (simp add: upd_con_def)

section \<open>Queueing\<close>

text \<open>
  The mutex of the queue is held by a \<^verbatim>\<open>std::unique_lock\<close>: it is released however the section
  ends, except that a thread which waits for ever keeps what it holds.
\<close>

definition release :: "nat \<Rightarrow> ('k, 'u) ws_world act" where
  "release c = modify (upd_con c (\<lambda>x. x\<lparr>wc_locked := False\<rparr>))"

definition locked :: "nat \<Rightarrow> ('k, 'u) ws_world act \<Rightarrow> ('k, 'u) ws_world act" where
  "locked c a w =
     (if wc_locked (ww_con w c) then (w, Hang)
      else (case a (upd_con c (\<lambda>x. x\<lparr>wc_locked := True\<rparr>) w) of
              (w', Go) \<Rightarrow> release c w'
            | (w', Throw e) \<Rightarrow> (fst (release c w'), Throw e)
            | (w', f) \<Rightarrow> (w', f)))"

text \<open>\<^verbatim>\<open>stream.Write\<close> of the first element of the queue.\<close>

definition write_front :: "nat \<Rightarrow> ('k, 'u) ws_world act" where
  "write_front c =
     read_state (\<lambda>w. case wc_queue (ww_con w c) of
       [] \<Rightarrow> undefined_act
     | (m, cb) # q \<Rightarrow> modify (upd_con c (\<lambda>x. x\<lparr>wc_wire := wc_wire x @ [m], wc_pending := wc_pending x @ [Wp_write]\<rparr>)))"

definition queue_response :: "nat \<Rightarrow> ws_response \<Rightarrow> 'k ws_cb option \<Rightarrow> ('k, 'u) ws_world act" where
  "queue_response c msg cb =
     locked c
      (seq (modify (upd_con c (\<lambda>x. x\<lparr>wc_queue := wc_queue x @ [(msg, cb)]\<rparr>)))
           (read_state (\<lambda>w. if length (wc_queue (ww_con w c)) = 1 then write_front c else skip)))"

definition send_message_cb :: "nat \<Rightarrow> bool \<Rightarrow> string \<Rightarrow> 'k ws_cb option \<Rightarrow> ('k, 'u) ws_world act" where
  "send_message_cb c bin buf cb =
     read_state (\<lambda>w. if wc_done (ww_con w c) then skip
       else queue_response c
         \<lparr>wr_headers = [], wr_message = \<lparr>wm_type = (if bin then Ws_binary else Ws_text), wm_content = buf\<rparr>\<rparr> cb)"

definition send_message :: "nat \<Rightarrow> bool \<Rightarrow> string \<Rightarrow> ('k, 'u) ws_world act" where
  "send_message c bin buf = send_message_cb c bin buf None"

definition ws_close :: "nat \<Rightarrow> ('k, 'u) ws_world act" where
  "ws_close c =
     read_state (\<lambda>w. if wc_done (ww_con w c) then skip
       else queue_response c \<lparr>wr_headers = [], wr_message = \<lparr>wm_type = Ws_close, wm_content = []\<rparr>\<rparr> (Some Ws_nop))"

definition ws_set_header :: "(string \<Rightarrow> string) \<Rightarrow> nat \<Rightarrow> string \<Rightarrow> string \<Rightarrow> bool \<Rightarrow> ('k, 'u) ws_world act" where
  "ws_set_header lower c pkey v replace =
     modify (upd_con c (\<lambda>x. x\<lparr>wc_resp_headers :=
       mm_insert (lower pkey) v
         (if replace then mm_erase (lower pkey) (wc_resp_headers x) else wc_resp_headers x)\<rparr>))"

definition ws_client_port :: "'k ws_con \<Rightarrow> 16 word" where
  "ws_client_port x = ucast (wc_client_port x)"

definition ws_server_port :: "'k ws_con \<Rightarrow> 16 word" where
  "ws_server_port x = ucast (wc_server_port x)"

definition ws_client_ip :: "'k ws_con \<Rightarrow> string" where
  "ws_client_ip x = wc_client_ip x"

definition ws_server_ip :: "'k ws_con \<Rightarrow> string" where
  "ws_server_ip x = wc_server_ip x"

definition ws_is_encrypted :: "'k ws_con \<Rightarrow> bool" where
  "ws_is_encrypted x = wc_encrypted x"

definition ws_resource :: "'k ws_con \<Rightarrow> string" where
  "ws_resource x = wc_resource x"

definition ws_protocol :: "'k ws_con \<Rightarrow> string" where
  "ws_protocol x = wc_protocol x"

definition ws_headers :: "'k ws_con \<Rightarrow> (string \<times> string) list" where
  "ws_headers x = wc_req_headers x"

text \<open>\<^verbatim>\<open>src/websocket/connection.cpp\<close>: the request as the application reads it.\<close>

definition ws_has_header :: "(string \<Rightarrow> string) \<Rightarrow> 'k ws_con \<Rightarrow> string \<Rightarrow> bool" where
  "ws_has_header lower x key \<longleftrightarrow> mm_count (lower key) (wc_req_headers x) \<noteq> 0"

definition ws_get_header :: "(string \<Rightarrow> string) \<Rightarrow> 'k ws_con \<Rightarrow> string \<Rightarrow> string" where
  "ws_get_header lower x key =
     (let k = lower key
      in if mm_count k (wc_req_headers x) \<noteq> 0
         then (case map_of (wc_req_headers x) k of Some v \<Rightarrow> v | None \<Rightarrow> [])
         else [])"

text \<open>\<^verbatim>\<open>get_parsed_uri\<close> of connection \<open>c\<close>, for what the caller does with it.\<close>

definition ws_parsed_uri :: "nat \<Rightarrow> (uri \<Rightarrow> ('k, 'u) ws_world act) \<Rightarrow> ('k, 'u) ws_world act" where
  "ws_parsed_uri c f =
     read_state (\<lambda>w. case wc_parsed (ww_con w c) of
       Some u \<Rightarrow> f u
     | None \<Rightarrow> attempt (parse_uri (wc_resource (ww_con w c))) (\<lambda>u.
         seq (modify (upd_con c (\<lambda>x. x\<lparr>wc_parsed := Some u\<rparr>))) (f u)))"

section \<open>What queueing does\<close>

lemma queue_response_eq:
  assumes "\<not> wc_locked (ww_con w c)"
  shows "queue_response c msg cb w =
    (upd_con c (\<lambda>x. x\<lparr>wc_queue := wc_queue x @ [(msg, cb)],
       wc_wire := wc_wire x @ (if wc_queue x = [] then [msg] else []),
       wc_pending := wc_pending x @ (if wc_queue x = [] then [Wp_write] else []),
       wc_locked := False\<rparr>) w, Go)"
proof (cases "wc_queue (ww_con w c)")
  case Nil
  then show ?thesis
    using assms by (simp add: queue_response_def locked_def act_simps write_front_def release_def upd_con_def)
next
  case (Cons m q)
  then show ?thesis
    using assms by (simp add: queue_response_def locked_def act_simps write_front_def release_def upd_con_def)
qed

lemma queue_response_locked: "wc_locked (ww_con w c) \<Longrightarrow> queue_response c msg cb w = (w, Hang)"
  by (simp add: queue_response_def locked_def)

end
