(* ===== verification/Hub.thy ===== *)
theory Hub imports Ws_Queue
begin

text \<open>
  \<^verbatim>\<open>src/websocket/hub.cpp\<close>: connections are in groups, each with a handler; the hub passes the
  events of a connection to the handler of its group and sends a message to all members of
  one. The mutex of a group is only held around operations that call nobody, so a single
  thread never sees it locked; two threads are the subject of \<open>Lock_Order\<close>.
\<close>

section \<open>Handlers\<close>

text \<open>What the application supplies: handlers are numbers, callbacks have the type \<open>'k\<close>.\<close>

record ('k, 'u) ws_env =
  we_lower :: "string \<Rightarrow> string"
  we_cb :: "'k \<Rightarrow> ('k, 'u) ws_world act"
  we_connect :: "nat \<Rightarrow> nat \<Rightarrow> ('k, 'u) ws_world act"
  we_message :: "nat \<Rightarrow> nat \<Rightarrow> bool \<Rightarrow> string \<Rightarrow> ('k, 'u) ws_world act"
  we_disconnect :: "nat \<Rightarrow> nat \<Rightarrow> ('k, 'u) ws_world act"

definition call_handler :: "(nat \<Rightarrow> ('k, 'u) ws_world act) \<Rightarrow> nat option \<Rightarrow> ('k, 'u) ws_world act" where
  "call_handler f h = (case h of None \<Rightarrow> skip | Some i \<Rightarrow> f i)"

section \<open>The hub\<close>

definition set_insert :: "nat \<Rightarrow> nat list \<Rightarrow> nat list" where
  "set_insert c xs = (if c \<in> set xs then xs else insort c xs)"

definition empty_group :: "string \<Rightarrow> nat option \<Rightarrow> group" where
  "empty_group n h = \<lparr>g_cons = [], g_handler = h, g_name = n\<rparr>"

definition new_hub :: "('k, 'u) ws_world \<Rightarrow> ('k, 'u) ws_world" where
  "new_hub w = w\<lparr>ww_groups := [[] \<mapsto> empty_group [] None], ww_names := [[]]\<rparr>"

text \<open>\<^verbatim>\<open>_groups.at(name)\<close>, and a change of the group an entry points to.\<close>

definition at_group :: "string \<Rightarrow> (group \<Rightarrow> ('k, 'u) ws_world act) \<Rightarrow> ('k, 'u) ws_world act" where
  "at_group n f =
     read_state (\<lambda>w. case ww_groups w n of
       None \<Rightarrow> throw (Std_exception ''_Map_base::at'')
     | Some g \<Rightarrow> f g)"

definition upd_group :: "string \<Rightarrow> (group \<Rightarrow> group) \<Rightarrow> ('k, 'u) ws_world \<Rightarrow> ('k, 'u) ws_world" where
  "upd_group n f w = w\<lparr>ww_groups := (ww_groups w)(n := map_option f (ww_groups w n))\<rparr>"

text \<open>\<^verbatim>\<open>attr->group.lock()\<close>, for a connection that has the attribute.\<close>

definition group_of :: "('k, 'u) ws_world \<Rightarrow> nat \<Rightarrow> (string \<times> group) option" where
  "group_of w c =
     (case wc_group (ww_con w c) of
        Some (Some n) \<Rightarrow> map_option (Pair n) (ww_groups w n)
      | _ \<Rightarrow> None)"

definition hub_close_all :: "('k, 'u) ws_world act" where
  "hub_close_all =
     read_state (\<lambda>w. for_each (ww_names w) (\<lambda>n.
       at_group n (\<lambda>g.
         seq (for_each (g_cons g) ws_close)
             (modify (upd_group n (\<lambda>g. g\<lparr>g_cons := []\<rparr>))))))"

definition hub_on_connect :: "('k, 'u) ws_env \<Rightarrow> nat \<Rightarrow> ('k, 'u) ws_world act" where
  "hub_on_connect E c =
     at_group [] (\<lambda>g.
       seq (modify (upd_con c (\<lambda>x. x\<lparr>wc_group := Some (Some [])\<rparr>)))
      (seq (modify (upd_group [] (\<lambda>g. g\<lparr>g_cons := set_insert c (g_cons g)\<rparr>)))
           (call_handler (\<lambda>h. we_connect E h c) (g_handler g))))"

definition hub_on_message :: "('k, 'u) ws_env \<Rightarrow> nat \<Rightarrow> bool \<Rightarrow> string \<Rightarrow> ('k, 'u) ws_world act" where
  "hub_on_message E c bin msg =
     at_group [] (\<lambda>d.
       read_state (\<lambda>w.
         let hdl = (case group_of w c of Some (n, g) \<Rightarrow> g_handler g | None \<Rightarrow> g_handler d)
         in call_handler (\<lambda>h. we_message E h c bin msg) hdl))"

definition hub_on_disconnect :: "('k, 'u) ws_env \<Rightarrow> nat \<Rightarrow> ('k, 'u) ws_world act" where
  "hub_on_disconnect E c =
     at_group [] (\<lambda>d.
       read_state (\<lambda>w. case group_of w c of
         Some (n, g) \<Rightarrow>
           seq (case g_handler g of
                  Some h \<Rightarrow> we_disconnect E h c
                | None \<Rightarrow> call_handler (\<lambda>h. we_disconnect E h c) (g_handler d))
          (seq (modify (upd_group n (\<lambda>g. g\<lparr>g_cons := remove1 c (g_cons g)\<rparr>)))
               (modify (upd_con c (\<lambda>x. x\<lparr>wc_group := Some None\<rparr>))))
       | None \<Rightarrow> call_handler (\<lambda>h. we_disconnect E h c) (g_handler d)))"

definition set_default_handler :: "nat option \<Rightarrow> ('k, 'u) ws_world act" where
  "set_default_handler h = at_group [] (\<lambda>_. modify (upd_group [] (\<lambda>g. g\<lparr>g_handler := h\<rparr>)))"

definition set_connection_group :: "nat \<Rightarrow> string \<Rightarrow> ('k, 'u) ws_world act" where
  "set_connection_group c gname =
     read_state (\<lambda>w.
       if ww_groups w gname = None
       then modify (\<lambda>w. w\<lparr>ww_log := ww_log w
              @ [''Tried to set not existing group '' @ gname @ '' on connection'']\<rparr>)
       else
         seq (case group_of w c of
                Some (n, g) \<Rightarrow> modify (upd_group n (\<lambda>g. g\<lparr>g_cons := remove1 c (g_cons g)\<rparr>))
              | None \<Rightarrow> skip)
        (seq (modify (upd_con c (\<lambda>x. x\<lparr>wc_group := Some (Some gname)\<rparr>)))
             (modify (upd_group gname (\<lambda>g. g\<lparr>g_cons := set_insert c (g_cons g)\<rparr>)))))"

definition get_connection_group :: "('k, 'u) ws_world \<Rightarrow> nat \<Rightarrow> string" where
  "get_connection_group w c = (case group_of w c of Some (n, g) \<Rightarrow> g_name g | None \<Rightarrow> [])"

definition add_group :: "string \<Rightarrow> nat option \<Rightarrow> ('k, 'u) ws_world act" where
  "add_group n h =
     at_group [] (\<lambda>d.
       let h' = (if h = None then g_handler d else h)
       in modify (\<lambda>w. if ww_groups w n = None
            then w\<lparr>ww_groups := (ww_groups w)(n \<mapsto> empty_group n h'), ww_names := ww_names w @ [n]\<rparr>
            else w))"

definition broadcast :: "string \<Rightarrow> bool \<Rightarrow> string \<Rightarrow> ('k, 'u) ws_world act" where
  "broadcast gname bin msg =
     read_state (\<lambda>w. case ww_groups w gname of
       None \<Rightarrow> skip
     | Some g \<Rightarrow> for_each (g_cons g) (\<lambda>c. send_message c bin msg))"

definition broadcast_con :: "nat \<Rightarrow> bool \<Rightarrow> string \<Rightarrow> ('k, 'u) ws_world act" where
  "broadcast_con c bin msg =
     read_state (\<lambda>w. case group_of w c of
       None \<Rightarrow> skip
     | Some (n, g) \<Rightarrow> for_each (g_cons g) (\<lambda>c. send_message c bin msg))"

definition get_group_connections :: "('k, 'u) ws_world \<Rightarrow> string \<Rightarrow> nat list" where
  "get_group_connections w gname = (case ww_groups w gname of None \<Rightarrow> [] | Some g \<Rightarrow> g_cons g)"

definition get_group_connections_con :: "('k, 'u) ws_world \<Rightarrow> nat \<Rightarrow> nat list" where
  "get_group_connections_con w c = (case group_of w c of None \<Rightarrow> [] | Some (n, g) \<Rightarrow> g_cons g)"

definition close_group :: "string \<Rightarrow> ('k, 'u) ws_world act" where
  "close_group gname = read_state (\<lambda>w. for_each (get_group_connections w gname) ws_close)"

section \<open>Membership\<close>

text \<open>
  Members of a group are listed once, in order, under the group's own name, and a connection
  that is a member of a group names it in its attribute; so it is in one group at most.
\<close>

definition members_ok :: "('k, 'u) ws_world \<Rightarrow> bool" where
  "members_ok w \<longleftrightarrow>
     (\<forall>n g. ww_groups w n = Some g \<longrightarrow>
        g_name g = n \<and> sorted (g_cons g) \<and> distinct (g_cons g) \<and>
        (\<forall>c \<in> set (g_cons g). wc_group (ww_con w c) = Some (Some n))) \<and>
     ww_groups w [] \<noteq> None"

lemma set_insert_props [simp]:
  "set (set_insert c xs) = insert c (set xs)"
  "distinct xs \<Longrightarrow> distinct (set_insert c xs)"
  "sorted xs \<Longrightarrow> sorted (set_insert c xs)"
  by (auto simp: set_insert_def distinct_insort sorted_insort set_insort_key)

lemma upd_group_simps [simp]:
  "ww_con (upd_group n f w) = ww_con w" "ww_names (upd_group n f w) = ww_names w"
  "ww_user (upd_group n f w) = ww_user w"
  "ww_groups (upd_group n f w) m = (if m = n then map_option f (ww_groups w n) else ww_groups w m)"
  by (simp_all add: upd_group_def)

lemma members_single:
  "members_ok w \<Longrightarrow> ww_groups w n = Some g \<Longrightarrow> c \<in> set (g_cons g) \<Longrightarrow> group_of w c = Some (n, g)"
  by (auto simp: members_ok_def group_of_def)

lemma group_of_Some:
  "group_of w c = Some (n, g) \<Longrightarrow> wc_group (ww_con w c) = Some (Some n) \<and> ww_groups w n = Some g"
  by (auto simp: group_of_def split: option.splits)

text \<open>Leaving a group: the two writes that \<open>on_disconnect\<close> and \<open>set_connection_group\<close> share.\<close>

definition leave :: "nat \<Rightarrow> string \<Rightarrow> ('k, 'u) ws_world \<Rightarrow> ('k, 'u) ws_world" where
  "leave c n = upd_group n (\<lambda>g. g\<lparr>g_cons := remove1 c (g_cons g)\<rparr>)"

lemma leave_not_member:
  assumes "members_ok w" "\<And>m. wc_group (ww_con w c) = Some (Some m) \<Longrightarrow> m = n"
  shows "ww_groups (leave c n w) m = Some g \<Longrightarrow> c \<notin> set (g_cons g)"
  using assms by (auto simp: leave_def members_ok_def split: if_splits)

lemma members_leave:
  assumes "members_ok w"
  shows "members_ok (leave c n w)"
  using assms unfolding members_ok_def leave_def
  by (auto simp: sorted_remove1 dest: notin_set_remove1 set_remove1_subset [THEN subsetD] split: if_splits)

text \<open>Operations that touch neither groups nor attributes keep the invariant.\<close>

definition same_members :: "('k, 'u) ws_world \<Rightarrow> ('k, 'u) ws_world \<Rightarrow> bool" where
  "same_members w w' \<longleftrightarrow> ww_groups w' = ww_groups w \<and> (\<forall>c. wc_group (ww_con w' c) = wc_group (ww_con w c))"

lemma same_membersD: "same_members w w' \<Longrightarrow> members_ok w \<Longrightarrow> members_ok w'"
  by (simp add: same_members_def members_ok_def)

lemma queue_response_members: "same_members w (fst (queue_response c m cb w))"
  by (cases "wc_locked (ww_con w c)") (simp_all add: queue_response_locked queue_response_eq same_members_def)

lemma send_message_members: "same_members w (fst (send_message c b m w))"
  using queue_response_members [of w c]
  by (simp add: send_message_def send_message_cb_def act_simps) (simp add: same_members_def)

lemma send_message_cb_members: "same_members w (fst (send_message_cb c b m cb w))"
  using queue_response_members [of w c]
  by (simp add: send_message_cb_def act_simps) (simp add: same_members_def)

lemma set_header_members: "same_members w (fst (ws_set_header lower c k v r w))"
  by (auto simp: ws_set_header_def act_simps same_members_def)

lemma ws_close_members: "same_members w (fst (ws_close c w))"
  using queue_response_members [of w c]
  by (simp add: ws_close_def act_simps) (simp add: same_members_def)

lemma keeps_send [intro]: "keeps members_ok (send_message c b m)"
  using send_message_members same_membersD by (fastforce simp: keeps_def)

lemma keeps_close [intro]: "keeps members_ok (ws_close c)"
  using ws_close_members same_membersD by (fastforce simp: keeps_def)

lemma keeps_for_each: "(\<And>x. keeps P (f x)) \<Longrightarrow> keeps P (for_each xs f)"
  by (induction xs) auto

lemma keeps_at_group: "(\<And>w g. P w \<Longrightarrow> ww_groups w n = Some g \<Longrightarrow> P (fst (f g w))) \<Longrightarrow> keeps P (at_group n f)"
  by (auto simp: keeps_def at_group_def act_simps split: option.split)

lemma keeps_call_handler [intro]: "(\<And>i. keeps P (f i)) \<Longrightarrow> keeps P (call_handler f h)"
  by (auto simp: call_handler_def split: option.split)

lemma members_upd_handler:
  "members_ok w \<Longrightarrow> members_ok (upd_group n (\<lambda>g. g\<lparr>g_handler := h\<rparr>) w)"
  by (auto simp: members_ok_def)

lemma members_clear: "members_ok w \<Longrightarrow> members_ok (upd_group n (\<lambda>g. g\<lparr>g_cons := []\<rparr>) w)"
  by (auto simp: members_ok_def)

lemma members_join:
  assumes "members_ok w" "\<And>m g. ww_groups w m = Some g \<Longrightarrow> c \<in> set (g_cons g) \<Longrightarrow> m = n"
  shows "members_ok (upd_group n (\<lambda>g. g\<lparr>g_cons := set_insert c (g_cons g)\<rparr>)
     (upd_con c (\<lambda>x. x\<lparr>wc_group := Some (Some n)\<rparr>) w))"
  using assms unfolding members_ok_def by (auto split: if_splits)

lemma members_expire:
  assumes "members_ok w" "\<And>m g. ww_groups w m = Some g \<Longrightarrow> c \<notin> set (g_cons g)"
  shows "members_ok (upd_con c (\<lambda>x. x\<lparr>wc_group := Some None\<rparr>) w)"
  using assms unfolding members_ok_def by auto

lemma keeps_set_connection_group: "keeps members_ok (set_connection_group c n)"
  unfolding keeps_def
proof (intro allI impI)
  fix w :: "('a, 'b) ws_world"
  assume w: "members_ok w"
  show "members_ok (fst (set_connection_group c n w))"
  proof (cases "ww_groups w n = None")
    case True
    then show ?thesis using w by (simp add: set_connection_group_def act_simps members_ok_def)
  next
    case False
    let ?w = "case group_of w c of Some (m, g) \<Rightarrow> leave c m w | None \<Rightarrow> w"
    have gone: "c \<notin> set (g_cons g)" if "ww_groups ?w m = Some g" for m g
    proof (cases "group_of w c")
      case None
      then show ?thesis using that members_single [OF w, of m g c] by auto
    next
      case (Some p)
      obtain k h where p: "p = (k, h)" by (cases p)
      have attr: "wc_group (ww_con w c) = Some (Some k)" using group_of_Some Some p by blast
      show ?thesis using that Some p leave_not_member [OF w, of c k m g] attr by simp
    qed
    have "members_ok ?w" using w members_leave by (auto split: option.split)
    then have "members_ok (upd_group n (\<lambda>g. g\<lparr>g_cons := set_insert c (g_cons g)\<rparr>)
        (upd_con c (\<lambda>x. x\<lparr>wc_group := Some (Some n)\<rparr>) ?w))"
      using gone by (intro members_join) auto
    then show ?thesis
      using False by (auto simp: set_connection_group_def act_simps leave_def split: option.splits)
  qed
qed

lemma keepsD: "keeps P a \<Longrightarrow> P w \<Longrightarrow> P (fst (a w))"
  by (simp add: keeps_def)

lemma keeps_close_all: "keeps members_ok hub_close_all"
proof -
  have one: "keeps members_ok (seq (for_each xs ws_close) (modify (upd_group n (\<lambda>g. g\<lparr>g_cons := []\<rparr>))))"
    for xs n
    by (intro keeps_seq keeps_for_each keeps_close keeps_modify members_clear)
  have "keeps members_ok (at_group n (\<lambda>g. seq (for_each (g_cons g) ws_close)
      (modify (upd_group n (\<lambda>g. g\<lparr>g_cons := []\<rparr>)))))" for n
    using one by (intro keeps_at_group) (auto simp: keeps_def)
  then show ?thesis unfolding hub_close_all_def by (intro keeps_read_state keeps_for_each)
qed

lemma keeps_broadcast: "keeps members_ok (broadcast n b m)" "keeps members_ok (broadcast_con c b m)"
  unfolding broadcast_def broadcast_con_def
  by (auto intro!: keeps_read_state keeps_for_each split: option.split)

lemma keeps_close_group: "keeps members_ok (close_group n)"
  unfolding close_group_def by (auto intro!: keeps_read_state keeps_for_each)

lemma keeps_add_group: "keeps members_ok (add_group n h)"
  unfolding add_group_def
  by (intro keeps_at_group) (auto simp: act_simps Let_def members_ok_def empty_group_def)

lemma keeps_default_handler: "keeps members_ok (set_default_handler h)"
  unfolding set_default_handler_def
  by (intro keeps_at_group) (auto simp: act_simps members_upd_handler)

section \<open>What handlers may do\<close>

text \<open>
  The code of a handler: what the interfaces of the hub and of the connections offer, calls
  into the application's own state and log, sequencing, decisions on the state and caught
  exceptions. \<open>F\<close> are the connections it does not move to another group.
\<close>

inductive hub_program :: "nat set \<Rightarrow> ('k, 'u) ws_world act \<Rightarrow> bool" for F where
  prog_skip: "hub_program F skip"
| prog_throw: "hub_program F (throw e)"
| prog_block: "hub_program F block"
| prog_user: "hub_program F (modify (\<lambda>w. w\<lparr>ww_user := f (ww_user w)\<rparr>))"
| prog_log: "hub_program F (modify (\<lambda>w. w\<lparr>ww_log := ww_log w @ [s]\<rparr>))"
| prog_send: "hub_program F (send_message_cb c b m cb)"
| prog_close: "hub_program F (ws_close c)"
| prog_header: "hub_program F (ws_set_header lower c k v r)"
| prog_move: "c \<notin> F \<Longrightarrow> hub_program F (set_connection_group c n)"
| prog_add: "hub_program F (add_group n h)"
| prog_default: "hub_program F (set_default_handler h)"
| prog_broadcast: "hub_program F (broadcast n b m)"
| prog_broadcast_con: "hub_program F (broadcast_con c b m)"
| prog_close_group: "hub_program F (close_group n)"
| prog_close_all: "hub_program F hub_close_all"
| prog_seq: "hub_program F p \<Longrightarrow> hub_program F q \<Longrightarrow> hub_program F (seq p q)"
| prog_read: "(\<And>w. hub_program F (p w)) \<Longrightarrow> hub_program F (read_state p)"
| prog_catch: "hub_program F p \<Longrightarrow> (\<And>e. hub_program F (h e)) \<Longrightarrow> hub_program F (try_catch p h)"

text \<open>
  The condition on an application: its handlers are such programs, and the one for a lost
  connection does not move the very connection that is lost.
\<close>

definition ws_env_ok :: "('k, 'u) ws_env \<Rightarrow> bool" where
  "ws_env_ok E \<longleftrightarrow>
     (\<forall>h c. hub_program {} (we_connect E h c)) \<and>
     (\<forall>h c b m. hub_program {} (we_message E h c b m)) \<and>
     (\<forall>h c. hub_program {c} (we_disconnect E h c))"

lemma hub_program_members: "hub_program F a \<Longrightarrow> keeps members_ok a"
proof (induction rule: hub_program.induct)
  case (prog_send c b m cb)
  then show ?case using send_message_cb_members same_membersD by (fastforce simp: keeps_def)
next
  case (prog_header lower c k v r)
  then show ?case using set_header_members same_membersD by (fastforce simp: keeps_def)
next
  case (prog_user f)
  then show ?case by (intro keeps_modify) (simp add: members_ok_def)
next
  case (prog_log s)
  then show ?case by (intro keeps_modify) (simp add: members_ok_def)
next
  case (prog_read p)
  then show ?case by (intro keeps_read_state)
qed (auto intro: keeps_set_connection_group keeps_add_group keeps_default_handler keeps_broadcast
       keeps_close_group keeps_close_all)

abbreviation has_group :: "nat \<Rightarrow> string option option \<Rightarrow> ('k, 'u) ws_world \<Rightarrow> bool" where
  "has_group c v w \<equiv> wc_group (ww_con w c) = v"

lemma same_members_group: "(\<And>w. same_members w (fst (a w))) \<Longrightarrow> keeps (has_group c v) a"
  by (simp add: keeps_def same_members_def)

lemma upd_group_attr: "keeps (has_group c v) (modify (upd_group n f))"
  by (intro keeps_modify) simp

lemma set_connection_group_attr: "c \<noteq> d \<Longrightarrow> keeps (has_group d v) (set_connection_group c n)"
  by (auto simp: set_connection_group_def keeps_def act_simps split: option.split)

lemma send_attr: "keeps (has_group c v) (send_message d b m)"
  by (rule same_members_group) (rule send_message_members)

lemma close_attr: "keeps (has_group c v) (ws_close d)"
  by (rule same_members_group) (rule ws_close_members)

lemma at_group_attr: "(\<And>g. keeps (has_group c v) (f g)) \<Longrightarrow> keeps (has_group c v) (at_group n f)"
  unfolding at_group_def by (rule keeps_read_state) (simp split: option.split add: keeps_basic)

lemma close_all_attr: "keeps (has_group c v) hub_close_all"
  unfolding hub_close_all_def
  by (intro keeps_read_state keeps_for_each at_group_attr keeps_seq close_attr upd_group_attr)

lemma broadcast_attr: "keeps (has_group c v) (broadcast n b m)" "keeps (has_group c v) (broadcast_con d b m)"
  unfolding broadcast_def broadcast_con_def
  by (rule keeps_read_state, simp split: option.split add: keeps_basic keeps_for_each [OF send_attr])+

lemma close_group_attr: "keeps (has_group c v) (close_group n)"
  unfolding close_group_def by (intro keeps_read_state keeps_for_each close_attr)

lemma groups_attr: "keeps (has_group c v) (add_group n h)" "keeps (has_group c v) (set_default_handler h)"
  by (auto simp: add_group_def set_default_handler_def at_group_def keeps_def act_simps Let_def split: option.split)

text \<open>A program leaves the attribute of the connections it does not move alone.\<close>

lemma hub_program_group: "hub_program F a \<Longrightarrow> d \<in> F \<Longrightarrow> keeps (has_group d v) a"
proof (induction rule: hub_program.induct)
  case (prog_move c n)
  then show ?case by (intro set_connection_group_attr) auto
next
  case (prog_read p)
  then show ?case by (intro keeps_read_state) simp
qed (auto intro: keeps_modify same_members_group send_message_cb_members ws_close_members set_header_members
       broadcast_attr close_group_attr groups_attr close_all_attr)

lemma ws_env_handlers:
  assumes "ws_env_ok E"
  shows "keeps members_ok (we_connect E h c)" "keeps members_ok (we_message E h c b m)"
    "keeps members_ok (we_disconnect E h c)" "keeps (has_group c v) (we_disconnect E h c)"
  using assms hub_program_members hub_program_group [of "{c}"] unfolding ws_env_ok_def by blast+

lemma keeps_on_disconnect:
  assumes "ws_env_ok E"
  shows "keeps members_ok (hub_on_disconnect E c)"
  unfolding hub_on_disconnect_def
proof (rule keeps_at_group)
  fix w :: "('a, 'b) ws_world" and d
  assume w: "members_ok w" and d: "ww_groups w [] = Some d"
  let ?f = "\<lambda>h. we_disconnect E h c"
  show "members_ok (fst (read_state (\<lambda>w. case group_of w c of
         Some (n, g) \<Rightarrow>
           seq (case g_handler g of
                  Some h \<Rightarrow> we_disconnect E h c
                | None \<Rightarrow> call_handler (\<lambda>h. we_disconnect E h c) (g_handler d))
          (seq (modify (upd_group n (\<lambda>g. g\<lparr>g_cons := remove1 c (g_cons g)\<rparr>)))
               (modify (upd_con c (\<lambda>x. x\<lparr>wc_group := Some None\<rparr>))))
       | None \<Rightarrow> call_handler (\<lambda>h. we_disconnect E h c) (g_handler d)) w))"
  proof (cases "group_of w c")
    case None
    have "keeps members_ok (call_handler ?f (g_handler d))" using ws_env_handlers [OF assms] by auto
    then show ?thesis using None w by (simp add: act_simps keeps_def)
  next
    case (Some p)
    obtain n g where p: "p = (n, g)" by (cases p)
    let ?a = "case g_handler g of Some h \<Rightarrow> ?f h | None \<Rightarrow> call_handler ?f (g_handler d)"
    obtain w1 f1 where a: "?a w = (w1, f1)" by fastforce
    have "keeps members_ok ?a" using ws_env_handlers [OF assms] by (auto split: option.split)
    then have w1: "members_ok w1" using w a unfolding keeps_def by (metis fst_conv)
    have "keeps (has_group c (wc_group (ww_con w c))) ?a"
      using ws_env_handlers(4) [OF assms] by (auto split: option.split)
    then have "wc_group (ww_con (fst (?a w)) c) = wc_group (ww_con w c)" by (rule keepsD) simp
    then have attr: "wc_group (ww_con w1 c) = Some (Some n)"
      using a group_of_Some [of w c n g] Some p by simp
    have "members_ok (upd_con c (\<lambda>x. x\<lparr>wc_group := Some None\<rparr>) (leave c n w1))"
      using leave_not_member [OF w1, of c n] attr by (intro members_expire members_leave w1) simp
    then show ?thesis
      using Some p a w1 by (cases f1) (simp_all add: seq_def modify_def read_state_def leave_def)
  qed
qed

lemma keeps_on_message: "ws_env_ok E \<Longrightarrow> keeps members_ok (hub_on_message E c b m)"
  unfolding hub_on_message_def
  by (rule keeps_at_group)
     (simp add: read_state_simp Let_def keepsD [OF keeps_call_handler [OF ws_env_handlers(2)]])

lemma on_connect_members:
  assumes "ws_env_ok E" "members_ok w" "\<And>m g. ww_groups w m = Some g \<Longrightarrow> c \<notin> set (g_cons g)"
  shows "members_ok (fst (hub_on_connect E c w))"
proof -
  obtain d where d: "ww_groups w [] = Some d" using assms(2) by (auto simp: members_ok_def)
  let ?w = "upd_group [] (\<lambda>g. g\<lparr>g_cons := set_insert c (g_cons g)\<rparr>)
     (upd_con c (\<lambda>x. x\<lparr>wc_group := Some (Some [])\<rparr>) w)"
  have "members_ok ?w" using assms(2,3) by (intro members_join) auto
  moreover have "keeps members_ok (call_handler (\<lambda>h. we_connect E h c) (g_handler d))"
    using ws_env_handlers(1) [OF assms(1)] by auto
  ultimately show ?thesis using d by (simp add: hub_on_connect_def at_group_def act_simps keeps_def)
qed

section \<open>What reaches the members\<close>

definition enqueued :: "ws_response \<Rightarrow> 'k ws_cb option \<Rightarrow> 'k ws_con \<Rightarrow> 'k ws_con" where
  "enqueued msg cb x = x\<lparr>wc_queue := wc_queue x @ [(msg, cb)],
     wc_wire := wc_wire x @ (if wc_queue x = [] then [msg] else []),
     wc_pending := wc_pending x @ (if wc_queue x = [] then [Wp_write] else [])\<rparr>"

definition data_response :: "bool \<Rightarrow> string \<Rightarrow> ws_response" where
  "data_response b m = \<lparr>wr_headers = [], wr_message = \<lparr>wm_type = (if b then Ws_binary else Ws_text), wm_content = m\<rparr>\<rparr>"

lemma queue_response_enqueued:
  assumes "\<not> wc_locked (ww_con w c)"
  shows "queue_response c msg cb w = (upd_con c (enqueued msg cb) w, Go)"
proof -
  have "(ww_con w c)\<lparr>wc_locked := False\<rparr> = ww_con w c" using assms by (cases "ww_con w c") simp
  then show ?thesis using assms
    by (cases "ww_con w c") (simp add: queue_response_eq enqueued_def upd_con_def)
qed

lemma send_message_eq:
  "\<not> wc_locked (ww_con w c) \<Longrightarrow> send_message c b m w =
     (if wc_done (ww_con w c) then w else upd_con c (enqueued (data_response b m) None) w, Go)"
  by (simp add: send_message_def send_message_cb_def act_simps queue_response_enqueued data_response_def)

lemma enqueued_fields [simp]:
  "wc_locked (enqueued r cb x) = wc_locked x" "wc_done (enqueued r cb x) = wc_done x"
  "wc_group (enqueued r cb x) = wc_group x"
  by (simp_all add: enqueued_def)

lemma for_each_send:
  assumes "distinct xs" "\<forall>c \<in> set xs. \<not> wc_locked (ww_con w c)"
  shows "for_each xs (\<lambda>c. send_message c b m) w =
     (w\<lparr>ww_con := \<lambda>c. if c \<in> set xs \<and> \<not> wc_done (ww_con w c)
          then enqueued (data_response b m) None (ww_con w c) else ww_con w c\<rparr>, Go)"
  using assms
proof (induction xs arbitrary: w)
  case (Cons x xs)
  let ?w = "if wc_done (ww_con w x) then w else upd_con x (enqueued (data_response b m) None) w"
  have one: "send_message x b m w = (?w, Go)" using Cons.prems(2) by (simp add: send_message_eq)
  have "for_each (x # xs) (\<lambda>c. send_message c b m) w = for_each xs (\<lambda>c. send_message c b m) ?w"
    using one by (simp add: act_simps)
  also have "\<dots> = (?w\<lparr>ww_con := \<lambda>c. if c \<in> set xs \<and> \<not> wc_done (ww_con ?w c)
      then enqueued (data_response b m) None (ww_con ?w c) else ww_con ?w c\<rparr>, Go)"
    by (rule Cons.IH) (use Cons.prems in auto)
  finally show ?case using Cons.prems(1)
    by (cases w) (auto simp: upd_con_def fun_eq_iff)
qed (simp add: act_simps)

section \<open>Sequences of operations\<close>

text \<open>The calls of connections and of the application, and the states they lead to from a new hub.\<close>

datatype hub_op =
    Op_connect nat | Op_message nat bool string | Op_disconnect nat
  | Op_move nat string | Op_add string "nat option" | Op_default "nat option"
  | Op_broadcast string bool string | Op_broadcast_con nat bool string | Op_close_group string | Op_close_all

fun hub_run :: "('k, 'u) ws_env \<Rightarrow> hub_op \<Rightarrow> ('k, 'u) ws_world act" where
  "hub_run E (Op_connect c) = hub_on_connect E c"
| "hub_run E (Op_message c b m) = hub_on_message E c b m"
| "hub_run E (Op_disconnect c) = hub_on_disconnect E c"
| "hub_run E (Op_move c n) = set_connection_group c n"
| "hub_run E (Op_add n h) = add_group n h"
| "hub_run E (Op_default h) = set_default_handler h"
| "hub_run E (Op_broadcast n b m) = broadcast n b m"
| "hub_run E (Op_broadcast_con c b m) = broadcast_con c b m"
| "hub_run E (Op_close_group n) = close_group n"
| "hub_run E Op_close_all = hub_close_all"

text \<open>A connection is announced once, before it is in any group.\<close>

definition hub_op_ok :: "('k, 'u) ws_world \<Rightarrow> hub_op \<Rightarrow> bool" where
  "hub_op_ok w p = (case p of
     Op_connect c \<Rightarrow> (\<forall>n. c \<notin> set (get_group_connections w n)) | _ \<Rightarrow> True)"

inductive hub_reachable :: "('k, 'u) ws_env \<Rightarrow> ('k, 'u) ws_world \<Rightarrow> bool" for E where
  hub_initial: "hub_reachable E (new_hub w)"
| hub_step: "hub_reachable E w \<Longrightarrow> hub_op_ok w p \<Longrightarrow> hub_reachable E (fst (hub_run E p w))"

lemma hub_run_members:
  assumes "ws_env_ok E" "members_ok w" "hub_op_ok w p"
  shows "members_ok (fst (hub_run E p w))"
proof -
  note all = keeps_set_connection_group keeps_on_disconnect [OF assms(1)] keeps_on_message [OF assms(1)]
    keeps_close_all keeps_broadcast keeps_close_group keeps_add_group keeps_default_handler
  show ?thesis
  proof (cases p)
    case (Op_connect c)
    then have "c \<notin> set (g_cons g)" if g: "ww_groups w m = Some g" for m g
      using assms(3) g by (auto simp: hub_op_ok_def get_group_connections_def dest: spec [of _ m])
    then show ?thesis using Op_connect on_connect_members [OF assms(1,2)] by simp
  qed (simp_all add: all [THEN keepsD, OF assms(2)])
qed

lemma member_cases:
  assumes "c \<in> set (get_group_connections w n)"
  obtains g where "ww_groups w n = Some g" "c \<in> set (g_cons g)"
  using assms by (cases "ww_groups w n") (auto simp: get_group_connections_def)

lemma hub_reachable_members: "hub_reachable E w \<Longrightarrow> ws_env_ok E \<Longrightarrow> members_ok w"
proof (induction rule: hub_reachable.induct)
  case (hub_initial w)
  then show ?case by (simp add: new_hub_def members_ok_def empty_group_def)
qed (rule hub_run_members)

section \<open>Examples to evaluate\<close>

definition quiet_ws_con :: "nat ws_con" where
  "quiet_ws_con = \<lparr>wc_done = False, wc_resource = ''/chat'', wc_protocol = [], wc_client_ip = ''::1'',
     wc_client_port = 70000, wc_server_ip = ''::1'', wc_server_port = 443, wc_encrypted = True,
     wc_req_headers = [], wc_resp_headers = [], wc_queue = [], wc_locked = False, wc_pending = [],
     wc_wire = [], wc_group = None, wc_parsed = None\<rparr>"

definition ws_env_with :: "(nat \<Rightarrow> nat \<Rightarrow> (nat, 'u) ws_world act) \<Rightarrow> (nat, 'u) ws_env" where
  "ws_env_with lost = \<lparr>we_lower = map lower_char, we_cb = \<lambda>_. skip, we_connect = \<lambda>_ _. skip,
     we_message = \<lambda>h c b m. send_message c b m, we_disconnect = lost\<rparr>"

definition quiet_ws_env :: "(nat, 'u) ws_env" where
  "quiet_ws_env = ws_env_with (\<lambda>_ _. skip)"

definition quiet_world :: "'u \<Rightarrow> (nat, 'u) ws_world" where
  "quiet_world u = new_hub \<lparr>ww_con = \<lambda>_. quiet_ws_con, ww_groups = \<lambda>_. None, ww_names = [], ww_log = [], ww_user = u\<rparr>"

definition quiet_ws_world :: "(nat, unit) ws_world" where
  "quiet_ws_world = quiet_world ()"

text \<open>The states after a sequence of operations.\<close>

fun hub_after :: "('k, 'u) ws_env \<Rightarrow> hub_op list \<Rightarrow> ('k, 'u) ws_world \<Rightarrow> ('k, 'u) ws_world" where
  "hub_after E [] w = w"
| "hub_after E (p # ps) w = hub_after E ps (fst (hub_run E p w))"

definition chat_world :: "(nat, unit) ws_world" where
  "chat_world = hub_after quiet_ws_env
     [Op_connect 7, Op_connect 3, Op_add ''chat'' (Some 1), Op_move 7 ''chat'', Op_move 3 ''chat''] quiet_ws_world"

lemma quiet_ws_env_ok [simp]: "ws_env_ok quiet_ws_env"
  by (simp add: ws_env_ok_def quiet_ws_env_def ws_env_with_def prog_skip send_message_def prog_send)

lemma chat_world_members:
  "get_group_connections chat_world ''chat'' = [3, 7]" "get_group_connections chat_world [] = []"
  "ww_groups chat_world ''chat'' \<noteq> None"
  by code_simp+

section \<open>Properties\<close>

text \<open>
  C12. In every state a hub can reach, a connection is in at most one group, listed there once,
  and that group is the one the connection's attribute names. The handlers are arbitrary
  programs over the operations that the hub and the connections offer, with one restriction,
  which the code needs: a handler for a lost connection does not call
  \<^verbatim>\<open>set_connection_group\<close> for this connection. Without it the statement is false; see
  \<open>regrouped_on_disconnect\<close>.
\<close>

theorem hub_single_group:
  assumes "hub_reachable E w" "ws_env_ok E" "c \<in> set (get_group_connections w n)"
  shows "get_connection_group w c = n \<and> get_group_connections_con w c = get_group_connections w n \<and>
    distinct (get_group_connections w n) \<and> (\<forall>m. c \<in> set (get_group_connections w m) \<longleftrightarrow> m = n)"
proof -
  note ok = hub_reachable_members [OF assms(1,2)]
  obtain g where g: "ww_groups w n = Some g" "c \<in> set (g_cons g)" by (rule member_cases [OF assms(3)])
  have one: "group_of w c = Some (n, g)" by (rule members_single [OF ok g])
  have "g_name g = n" "distinct (g_cons g)" using ok g by (auto simp: members_ok_def)
  moreover have "c \<in> set (get_group_connections w m) \<longleftrightarrow> m = n" for m
    using members_single [OF ok, of m _ c] one assms(3) by (auto elim: member_cases)
  ultimately show ?thesis using one g
    by (simp add: get_connection_group_def get_group_connections_def get_group_connections_con_def)
qed

lemma hub_after_reachable:
  "hub_reachable E w \<Longrightarrow> \<forall>p \<in> set ps. \<forall>c. p \<noteq> Op_connect c \<Longrightarrow> hub_reachable E (hub_after E ps w)"
proof (induction ps arbitrary: w)
  case (Cons p ps)
  have "hub_op_ok w p" using Cons.prems(2) by (cases p) (simp_all add: hub_op_ok_def)
  then have "hub_reachable E (fst (hub_run E p w))" using Cons.prems(1) by (rule hub_step [rotated])
  then show ?case using Cons.prems(2) Cons.IH by simp
qed simp

lemma hub_after_append: "hub_after E (ps @ qs) w = hub_after E qs (hub_after E ps w)"
  by (induction ps arbitrary: w) simp_all

lemma chat_world_reachable: "hub_reachable quiet_ws_env chat_world"
proof -
  let ?w = "fst (hub_run quiet_ws_env (Op_connect 7) quiet_ws_world)"
  have 0: "hub_reachable quiet_ws_env quiet_ws_world" by (simp add: quiet_ws_world_def quiet_world_def hub_initial)
  have g0: "ww_groups quiet_ws_world = [[] \<mapsto> empty_group [] None]" by (simp add: quiet_ws_world_def quiet_world_def new_hub_def)
  have 1: "hub_reachable quiet_ws_env ?w"
    by (rule hub_step [OF 0]) (simp add: hub_op_ok_def get_group_connections_def g0 empty_group_def)
  have g1: "ww_groups ?w = [[] \<mapsto> \<lparr>g_cons = [7], g_handler = None, g_name = []\<rparr>]"
    by (simp add: hub_on_connect_def at_group_def g0 empty_group_def act_simps call_handler_def
        upd_group_def upd_con_def set_insert_def)
  have 2: "hub_reachable quiet_ws_env (fst (hub_run quiet_ws_env (Op_connect 3) ?w))"
    by (rule hub_step [OF 1]) (auto simp: hub_op_ok_def g1 [simplified] elim!: member_cases split: if_splits)
  show ?thesis unfolding chat_world_def
    using hub_after_reachable [OF 2, of "[Op_add ''chat'' (Some 1), Op_move 7 ''chat'', Op_move 3 ''chat'']"]
    by simp
qed

lemma hub_single_group_witness:
  "get_connection_group chat_world 7 = ''chat'' \<and>
   get_group_connections_con chat_world 7 = get_group_connections chat_world ''chat'' \<and>
   distinct (get_group_connections chat_world ''chat'') \<and>
   (\<forall>m. 7 \<in> set (get_group_connections chat_world m) \<longleftrightarrow> m = ''chat'')"
  by (rule hub_single_group [OF chat_world_reachable quiet_ws_env_ok]) (simp add: chat_world_members)

text \<open>
  Moving a connection into an existing group takes it out of whatever group it was in,
  puts it into the new one and changes the members of no other group.
\<close>

theorem set_connection_group_moves:
  assumes "members_ok w" "ww_groups w n \<noteq> None"
  shows "get_connection_group (fst (set_connection_group c n w)) c = n \<and>
    snd (set_connection_group c n w) = Go \<and>
    (\<forall>m. set (get_group_connections (fst (set_connection_group c n w)) m) =
       (if m = n then insert c (set (get_group_connections w m)) else set (get_group_connections w m) - {c}))"
proof -
  let ?w = "case group_of w c of Some (m, g) \<Rightarrow> leave c m w | None \<Rightarrow> w"
  let ?v = "upd_group n (\<lambda>g. g\<lparr>g_cons := set_insert c (g_cons g)\<rparr>)
        (upd_con c (\<lambda>x. x\<lparr>wc_group := Some (Some n)\<rparr>) ?w)"
  have eq: "set_connection_group c n w = (?v, Go)"
    using assms(2) by (auto simp: set_connection_group_def act_simps leave_def split: option.splits)
  obtain gn where gn: "ww_groups w n = Some gn" using assms(2) by auto
  have name: "g_name gn = n" using assms(1) gn by (auto simp: members_ok_def)
  have left: "set (get_group_connections ?w m) = set (get_group_connections w m) - {c}" for m
  proof (cases "group_of w c")
    case None
    then have "c \<notin> set (get_group_connections w m)"
      using members_single [OF assms(1), of m _ c] by (auto elim: member_cases)
    then show ?thesis using None by simp
  next
    case (Some p)
    obtain k g where p: "p = (k, g)" by (cases p)
    have k: "ww_groups w k = Some g" using group_of_Some [of w c k g] Some p by simp
    then have "distinct (g_cons g)" using assms(1) by (auto simp: members_ok_def)
    note k = k this
    have "c \<notin> set (get_group_connections w m)" if "m \<noteq> k"
      using members_single [OF assms(1), of m _ c] Some p that by (auto elim: member_cases)
    then show ?thesis using Some p k
      by (auto simp: get_group_connections_def leave_def dest: notin_set_remove1)
  qed
  have some: "ww_groups ?w m = None \<longleftrightarrow> ww_groups w m = None" for m
    by (auto simp: leave_def dest: group_of_Some split: option.split)
  have nm: "g_name g' = n" if "ww_groups ?w n = Some g'" for g'
    using that name gn by (auto simp: leave_def split: option.splits if_splits)
  obtain gv where gv: "ww_groups ?w n = Some gv" using some [of n] gn by auto
  have "set (get_group_connections ?v m) =
      (if m = n then insert c (set (get_group_connections ?w m)) else set (get_group_connections ?w m))" for m
    using gv by (auto simp: get_group_connections_def)
  moreover have "get_connection_group ?v c = n"
    using gv nm by (simp add: get_connection_group_def group_of_def)
  ultimately show ?thesis unfolding eq using left by auto
qed

lemma set_connection_group_moves_witness:
  "get_connection_group (fst (set_connection_group 7 [] chat_world)) 7 = [] \<and>
   snd (set_connection_group 7 [] chat_world) = Go \<and>
   (\<forall>m. set (get_group_connections (fst (set_connection_group 7 [] chat_world)) m) =
     (if m = [] then insert 7 (set (get_group_connections chat_world m)) else set (get_group_connections chat_world m) - {7}))"
proof (rule set_connection_group_moves)
  show ok: "members_ok chat_world"
    by (rule hub_reachable_members [OF chat_world_reachable quiet_ws_env_ok])
  show "ww_groups chat_world [] \<noteq> None" using ok by (simp add: members_ok_def)
qed

text \<open>
  A broadcast puts the message once behind the queue of every member of the group that is
  not done, and touches nothing else; the message is written at once where the queue was empty.
\<close>

theorem broadcast_reaches_group:
  assumes "members_ok w" "\<forall>c \<in> set (get_group_connections w n). \<not> wc_locked (ww_con w c)"
  shows "broadcast n b m w =
    (w\<lparr>ww_con := \<lambda>c. if c \<in> set (get_group_connections w n) \<and> \<not> wc_done (ww_con w c)
       then enqueued (data_response b m) None (ww_con w c) else ww_con w c\<rparr>, Go)"
proof (cases "ww_groups w n")
  case None
  then show ?thesis by (cases w) (simp add: broadcast_def act_simps get_group_connections_def)
next
  case (Some g)
  then have "distinct (g_cons g)" using assms(1) by (auto simp: members_ok_def)
  then show ?thesis using assms(2) Some for_each_send [of "g_cons g" w b m]
    by (simp add: broadcast_def act_simps get_group_connections_def)
qed

lemma broadcast_reaches_group_witness:
  "broadcast ''chat'' False ''hi'' chat_world =
    (chat_world\<lparr>ww_con := \<lambda>c. if c \<in> set (get_group_connections chat_world ''chat'') \<and> \<not> wc_done (ww_con chat_world c)
       then enqueued (data_response False ''hi'') None (ww_con chat_world c) else ww_con chat_world c\<rparr>, Go)"
proof (rule broadcast_reaches_group)
  show "members_ok chat_world" by (rule hub_reachable_members [OF chat_world_reachable quiet_ws_env_ok])
  have "\<not> wc_locked (ww_con chat_world 3)" "\<not> wc_locked (ww_con chat_world 7)" by code_simp+
  then show "\<forall>c \<in> set (get_group_connections chat_world ''chat''). \<not> wc_locked (ww_con chat_world c)"
    by (simp add: chat_world_members)
qed

text \<open>A connection whose loss was handled without an exception is in no group any more.\<close>

theorem disconnect_leaves_groups:
  assumes "members_ok w" "ws_env_ok E" "hub_on_disconnect E c w = (w', Go)" "group_of w c \<noteq> None"
  shows "c \<notin> set (get_group_connections w' n)"
proof
  assume "c \<in> set (get_group_connections w' n)"
  moreover have "members_ok w'"
    using keepsD [OF keeps_on_disconnect [OF assms(2)] assms(1), of c] assms(3) by simp
  ultimately have attr: "wc_group (ww_con w' c) = Some (Some n)" "group_of w' c \<noteq> None"
    using members_single [of w' n _ c] by (auto elim!: member_cases dest: group_of_Some)
  obtain d where "ww_groups w [] = Some d" using assms(1) by (auto simp: members_ok_def)
  then show False using assms(3,4) attr
    by (auto simp: hub_on_disconnect_def at_group_def act_simps split: prod.splits flow.splits)
qed

lemma disconnect_leaves_groups_witness:
  "3 \<notin> set (get_group_connections (fst (hub_on_disconnect quiet_ws_env 3 chat_world)) ''chat'')"
proof (rule disconnect_leaves_groups)
  show ok: "members_ok chat_world" by (rule hub_reachable_members [OF chat_world_reachable quiet_ws_env_ok])
  show "ws_env_ok quiet_ws_env" by simp
  have "snd (hub_on_disconnect quiet_ws_env 3 chat_world) = Go" by code_simp
  then show "hub_on_disconnect quiet_ws_env 3 chat_world = (fst (hub_on_disconnect quiet_ws_env 3 chat_world), Go)"
    by (simp add: prod_eq_iff)
  have "group_of chat_world 3 \<noteq> None"
    by (rule member_cases [of 3 chat_world "''chat''"]) (simp_all add: chat_world_members members_single [OF ok])
  then show "group_of chat_world 3 \<noteq> None" .
qed


definition rejoin_env :: "(nat, unit) ws_env" where
  "rejoin_env = ws_env_with (\<lambda>_ c. set_connection_group c [])"


end
