(* ===== verification/Ws_Connection.thy ===== *)
theory Ws_Connection imports Hub
begin

text \<open>
  \<^verbatim>\<open>ws_connection\<close> of \<^verbatim>\<open>src/handler.cpp\<close>: what a connection does when a call it issued
  completes. One thread takes completions from the queue and runs them to the end; the
  application's handlers run inside, and may use every connection and the hub.
\<close>

section \<open>Life of a connection\<close>

record ws_request =
  wq_resource :: string
  wq_protocol :: string
  wq_headers :: "(string \<times> string) list"
  wq_client_ip :: string
  wq_client_port :: "32 word"
  wq_server_ip :: string
  wq_server_port :: "32 word"
  wq_encrypted :: bool

definition new_ws_con :: "'k ws_con" where
  "new_ws_con = \<lparr>wc_done = False, wc_resource = [], wc_protocol = [], wc_client_ip = [],
     wc_client_port = 0, wc_server_ip = [], wc_server_port = 0, wc_encrypted = False,
     wc_req_headers = [], wc_resp_headers = [], wc_queue = [], wc_locked = False, wc_pending = [],
     wc_wire = [], wc_group = None, wc_parsed = None\<rparr>"

definition issue_ws :: "nat \<Rightarrow> ws_pending \<Rightarrow> ('k, 'u) ws_world act" where
  "issue_ws c p = modify (upd_con c (\<lambda>x. x\<lparr>wc_pending := wc_pending x @ [p]\<rparr>))"

definition ws_start :: "nat \<Rightarrow> ('k, 'u) ws_world act" where
  "ws_start c = issue_ws c Wp_accept"

text \<open>The new connection takes the address \<open>n\<close>.\<close>

definition ws_on_accepted :: "nat \<Rightarrow> nat \<Rightarrow> bool \<Rightarrow> ('k, 'u) ws_world act" where
  "ws_on_accepted c n ok =
     (if \<not> ok then skip else
      seq (modify (upd_con n (\<lambda>_. new_ws_con)))
     (seq (ws_start n) (issue_ws c Wp_request)))"

definition store_request :: "(string \<Rightarrow> string) \<Rightarrow> ws_request \<Rightarrow> 'k ws_con \<Rightarrow> 'k ws_con" where
  "store_request lower rq x = x\<lparr>wc_resource := wq_resource rq, wc_protocol := wq_protocol rq,
     wc_client_ip := wq_client_ip rq, wc_client_port := wq_client_port rq,
     wc_server_ip := wq_server_ip rq, wc_server_port := wq_server_port rq, wc_encrypted := wq_encrypted rq,
     wc_req_headers := fold (\<lambda>(k, v). mm_insert (lower k) v) (wq_headers rq) (wc_req_headers x)\<rparr>"

definition ws_on_connect :: "('k, 'u) ws_env \<Rightarrow> nat \<Rightarrow> ('k, 'u) ws_world act" where
  "ws_on_connect E c =
     seq (issue_ws c Wp_read)
    (seq (hub_on_connect E c)
         (read_state (\<lambda>w. queue_response c
            \<lparr>wr_headers = wc_resp_headers (ww_con w c),
             wr_message = \<lparr>wm_type = Ws_text, wm_content = []\<rparr>\<rparr> (Some Ws_nop))))"

definition ws_on_request :: "('k, 'u) ws_env \<Rightarrow> nat \<Rightarrow> bool \<Rightarrow> ws_request \<Rightarrow> ('k, 'u) ws_world act" where
  "ws_on_request E c ok rq =
     (if \<not> ok then skip else
      seq (modify (upd_con c (store_request (we_lower E) rq))) (ws_on_connect E c))"

text \<open>\<^verbatim>\<open>if (done.exchange(true)) return;\<close> in front of the rest.\<close>

definition unless_done :: "nat \<Rightarrow> ('k, 'u) ws_world act \<Rightarrow> ('k, 'u) ws_world act \<Rightarrow> ('k, 'u) ws_world act" where
  "unless_done c early rest =
     read_state (\<lambda>w. if wc_done (ww_con w c) then early
       else seq (modify (upd_con c (\<lambda>x. x\<lparr>wc_done := True\<rparr>))) rest)"

definition ws_on_message :: "('k, 'u) ws_env \<Rightarrow> nat \<Rightarrow> ws_message \<Rightarrow> ('k, 'u) ws_world act" where
  "ws_on_message E c msg =
     (if wm_type msg = Ws_close
      then seq (hub_on_disconnect E c) (unless_done c skip (issue_ws c Wp_finish))
      else read_state (\<lambda>w. if wc_done (ww_con w c) then skip
        else seq (hub_on_message E c (wm_type msg = Ws_binary) (wm_content msg)) (issue_ws c Wp_read)))"

section \<open>Completed writes\<close>

text \<open>
  A \<^verbatim>\<open>std::unique_lock\<close> unlocks the mutex when an exception passes, and at the early return.
  The callback runs after the mutex was unlocked, and whatever it throws is dropped.
\<close>

definition unlock_on_throw :: "nat \<Rightarrow> ('k, 'u) ws_world act \<Rightarrow> ('k, 'u) ws_world act" where
  "unlock_on_throw c a w = (case a w of (w', Throw e) \<Rightarrow> (fst (release c w'), Throw e) | r \<Rightarrow> r)"

definition run_ws_cb :: "('k, 'u) ws_env \<Rightarrow> 'k ws_cb option \<Rightarrow> ('k, 'u) ws_world act" where
  "run_ws_cb E cb = (case cb of Some (Ws_user k) \<Rightarrow> try_catch (we_cb E k) (\<lambda>_. skip) | _ \<Rightarrow> skip)"

definition pop_and_write :: "nat \<Rightarrow> ('k, 'u) ws_world act" where
  "pop_and_write c =
     seq (modify (upd_con c (\<lambda>x. x\<lparr>wc_queue := tl (wc_queue x)\<rparr>)))
         (read_state (\<lambda>w. if \<not> wc_done (ww_con w c) \<and> wc_queue (ww_con w c) \<noteq> [] then write_front c else skip))"

definition send_cb :: "('k, 'u) ws_env \<Rightarrow> nat \<Rightarrow> ('k, 'u) ws_world act" where
  "send_cb E c =
     read_state (\<lambda>w.
       if wc_locked (ww_con w c) then block else
       seq (modify (upd_con c (\<lambda>x. x\<lparr>wc_locked := True\<rparr>)))
        (case wc_queue (ww_con w c) of
           [] \<Rightarrow> undefined_act
         | (m, cb) # q \<Rightarrow>
             seq (pop_and_write c)
              (if wm_type (wr_message m) = Ws_close
               then seq (unlock_on_throw c (hub_on_disconnect E c))
                        (unless_done c (release c)
                          (seq (issue_ws c Wp_finish) (seq (release c) (run_ws_cb E cb))))
               else seq (release c) (run_ws_cb E cb))))"

section \<open>The completion queue\<close>

text \<open>What a completed call delivered: the address of a new connection, a request, a message.\<close>

record ws_arrival =
  wa_con :: nat
  wa_request :: ws_request
  wa_message :: ws_message

definition ws_complete :: "('k, 'u) ws_env \<Rightarrow> nat \<Rightarrow> ws_pending \<Rightarrow> bool \<Rightarrow> ws_arrival \<Rightarrow> ('k, 'u) ws_world act" where
  "ws_complete E c p ok a =
     (case p of
        Wp_accept \<Rightarrow> ws_on_accepted c (wa_con a) ok
      | Wp_request \<Rightarrow> ws_on_request E c ok (wa_request a)
      | Wp_read \<Rightarrow> if ok then ws_on_message E c (wa_message a) else skip
      | Wp_write \<Rightarrow> send_cb E c
      | Wp_finish \<Rightarrow> skip)"

definition ws_log_exception :: "exc \<Rightarrow> ('k, 'u) ws_world act" where
  "ws_log_exception e =
     (if is_std_exception e
      then modify (\<lambda>w. w\<lparr>ww_log := ww_log w @ [''exception processing callback: '' @ exception_what e]\<rparr>)
      else throw e)"

definition ws_async :: "('k, 'u) ws_env \<Rightarrow> nat \<Rightarrow> ws_pending \<Rightarrow> bool \<Rightarrow> ws_arrival \<Rightarrow> ('k, 'u) ws_world act" where
  "ws_async E c p ok a =
     read_state (\<lambda>w. if p \<in> set (wc_pending (ww_con w c))
       then seq (modify (upd_con c (\<lambda>x. x\<lparr>wc_pending := remove1 p (wc_pending x)\<rparr>)))
                (try_catch (ws_complete E c p ok a) ws_log_exception)
       else skip)"

section \<open>Headers of the request\<close>

lemma ws_get_header_map: "ws_get_header lower x key = (case map_of (wc_req_headers x) (lower key) of Some v \<Rightarrow> v | None \<Rightarrow> [])"
  using mm_count_map_of [of "lower key" "wc_req_headers x"] by (auto simp: ws_get_header_def Let_def split: option.splits)

text \<open>
  A header of the request is found under any spelling of its name; of several the first one sent is
  returned, and an empty text when there is none.
\<close>

theorem ws_header_first:
  "ws_get_header lower (store_request lower rq (new_ws_con :: 'k ws_con)) key =
     (case filter (\<lambda>h. lower (fst h) = lower key) (wq_headers rq) of [] \<Rightarrow> [] | h # _ \<Rightarrow> snd h)
   \<and> (ws_has_header lower (store_request lower rq (new_ws_con :: 'k ws_con)) key \<longleftrightarrow> (\<exists>h \<in> set (wq_headers rq). lower (fst h) = lower key))"
proof -
  have m: "map_of (wc_req_headers (store_request lower rq (new_ws_con :: 'k ws_con))) (lower key)
     = (case filter (\<lambda>x. lower (fst x) = lower key) (wq_headers rq) of [] \<Rightarrow> None | x # _ \<Rightarrow> Some (snd x))"
    by (simp add: store_request_def new_ws_con_def map_of_inserted)
  have c: "ws_has_header lower (store_request lower rq (new_ws_con :: 'k ws_con)) key \<longleftrightarrow>
      map_of (wc_req_headers (store_request lower rq (new_ws_con :: 'k ws_con))) (lower key) \<noteq> None"
    using mm_count_map_of [of "lower key"] by (simp add: ws_has_header_def)
  show ?thesis
    unfolding ws_get_header_map c m
    by (auto simp: filter_empty_conv split: list.split) (auto simp: filter_eq_Cons_iff)
qed

end
