(* ===== verification/Event_Loop.thy ===== *)
theory Event_Loop imports Router Ws_Connection
begin

text \<open>
  \<^verbatim>\<open>handler::async_task\<close> of \<^verbatim>\<open>src/handler.cpp\<close>: the loop of a worker thread. It starts one call of each
  kind, then runs the continuation of every event of its completion queue; accepting a call
  starts the next. HTTP and websocket connections live beside each other in it, and share the
  state of the application.
\<close>

section \<open>State\<close>

text \<open>
  An HTTP connection first waits for a call, then for the first message of it; what it issues
  later is in its own list of pending calls. \<open>lp_next\<close> numbers new HTTP connections, \<open>lp_next_ws\<close> websockets.
\<close>

datatype http_call = Accept | Initial

record ('k, 'j, 'u) loop =
  lp_http :: "nat \<Rightarrow> ('k, 'u) world"
  lp_calls :: "(nat \<times> http_call) list"
  lp_next :: nat
  lp_ws :: "('j, 'u) ws_world"
  lp_next_ws :: nat
  lp_log :: "string list"
  lp_user :: 'u

text \<open>What the loop is given: the application's functions, and the configured router.\<close>

record ('k, 'j, 'u) services =
  se_env :: "('k, 'u) env"
  se_info :: routing_info
  se_ws_env :: "('j, 'u) ws_env"

text \<open>An event names the call that completed, whether it succeeded, and what it delivered.\<close>

datatype event =
    Http_call nat http_call bool request
  | Http_done nat nat bool string
  | Ws_done nat ws_pending bool ws_arrival
  | No_function

section \<open>The loop\<close>

text \<open>An operation of one connection, on the state the application shares.\<close>

definition on_http :: "nat \<Rightarrow> ('k, 'u) world act \<Rightarrow> ('k, 'j, 'u) loop act" where
  "on_http c a l = (case a ((lp_http l c)\<lparr>w_user := lp_user l\<rparr>) of
     (w, f) \<Rightarrow> (l\<lparr>lp_http := (lp_http l)(c := w), lp_user := w_user w\<rparr>, f))"

definition on_ws_world :: "('j, 'u) ws_world act \<Rightarrow> ('k, 'j, 'u) loop act" where
  "on_ws_world a l = (case a ((lp_ws l)\<lparr>ww_user := lp_user l\<rparr>) of
     (w, f) \<Rightarrow> (l\<lparr>lp_ws := w, lp_user := ww_user w\<rparr>, f))"

definition no_request :: request where
  "no_request = \<lparr>rq_method = [], rq_resource = [], rq_protocol = [], rq_headers = [],
     rq_client = \<lparr>ci_remote_ip = [], ci_remote_port = 0, ci_local_ip = [], ci_local_port = 0, ci_encrypted = False\<rparr>\<rparr>"

definition start_http :: "('k, 'j, 'u) loop act" where
  "start_http = modify (\<lambda>l. l\<lparr>lp_http := (lp_http l)(lp_next l := new_connection (lp_user l) no_request),
     lp_calls := lp_calls l @ [(lp_next l, Accept)], lp_next := lp_next l + 1\<rparr>)"

definition start_ws :: "('k, 'j, 'u) loop act" where
  "start_ws = read_state (\<lambda>l.
     seq (on_ws_world (seq (modify (upd_con (lp_next_ws l) (\<lambda>_. new_ws_con))) (ws_start (lp_next_ws l))))
         (modify (\<lambda>l. l\<lparr>lp_next_ws := lp_next_ws l + 1\<rparr>)))"

definition http_called :: "('k, 'j, 'u) services \<Rightarrow> nat \<Rightarrow> http_call \<Rightarrow> bool \<Rightarrow> request \<Rightarrow> ('k, 'j, 'u) loop act" where
  "http_called S c p ok rq = (case p of
     Accept \<Rightarrow>
       if \<not> ok then skip else
       seq (on_http c (on_accepted ok))
      (seq start_http (modify (\<lambda>l. l\<lparr>lp_calls := lp_calls l @ [(c, Initial)]\<rparr>)))
   | Initial \<Rightarrow> on_http c (on_initial_read (se_env S) (se_info S) ok rq))"

definition log_std :: "exc \<Rightarrow> ('k, 'j, 'u) loop act" where
  "log_std e =
     (if is_std_exception e
      then modify (\<lambda>l. l\<lparr>lp_log := lp_log l @ [''exception processing callback: '' @ exception_what e]\<rparr>)
      else throw e)"

text \<open>
  A turn of the loop. A connection is accepted with the next number; the other continuations log
  what is thrown themselves.
\<close>

definition turn :: "('k, 'j, 'u) services \<Rightarrow> event \<Rightarrow> ('k, 'j, 'u) loop act" where
  "turn S ev = (case ev of
     Http_call c p ok rq \<Rightarrow> read_state (\<lambda>l.
       if (c, p) \<in> set (lp_calls l)
       then seq (modify (\<lambda>l. l\<lparr>lp_calls := remove1 (c, p) (lp_calls l)\<rparr>)) (try_catch (http_called S c p ok rq) log_std)
       else skip)
   | Http_done c i ok s \<Rightarrow> on_http c (async_step (se_env S) i ok s)
   | Ws_done c p ok a \<Rightarrow> read_state (\<lambda>l.
       seq (on_ws_world (ws_async (se_ws_env S) c p ok (a\<lparr>wa_con := lp_next_ws l\<rparr>)))
           (if p = Wp_accept \<and> ok then modify (\<lambda>l. l\<lparr>lp_next_ws := lp_next_ws l + 1\<rparr>) else skip))
   | No_function \<Rightarrow> skip)"

text \<open>The events up to the shutdown of the queue, and the function of the thread.\<close>

definition async_task :: "('k, 'j, 'u) services \<Rightarrow> event list \<Rightarrow> ('k, 'j, 'u) loop act" where
  "async_task S evs = seq start_ws (seq start_http (for_each evs (turn S)))"

definition worker_thread :: "('k, 'j, 'u) services \<Rightarrow> event list \<Rightarrow> ('k, 'j, 'u) loop act" where
  "worker_thread S evs = try_catch (async_task S evs) (\<lambda>_. terminate)"


section \<open>A call is always awaited\<close>

definition idle :: "nat \<Rightarrow> ('k, 'j, 'u) loop \<Rightarrow> bool" where
  "idle c l \<longleftrightarrow>
     filter (\<lambda>x. snd x = Accept) (lp_calls l) = [(c, Accept)] \<and> (\<exists>u. lp_http l c = new_connection u no_request)
     \<and> c < lp_next l \<and> (c, Initial) \<notin> set (lp_calls l) \<and> (\<forall>x \<in> set (lp_calls l). fst x < lp_next l)"

text \<open>The queue refuses a call only when it is shut down.\<close>

fun refused :: "event \<Rightarrow> bool" where
  "refused (Http_call c Accept ok rq) = (\<not> ok)"
| "refused ev = False"

lemma idle_only: "idle c l \<Longrightarrow> (d, Accept) \<in> set (lp_calls l) \<Longrightarrow> d = c"
proof -
  assume idle: "idle c l" and d: "(d, Accept) \<in> set (lp_calls l)"
  have "set (filter (\<lambda>x. snd x = Accept) (lp_calls l)) = {(c, Accept)}" using idle by (simp add: idle_def del: set_filter)
  moreover have "(d, Accept) \<in> set (filter (\<lambda>x. snd x = Accept) (lp_calls l))" using d by simp
  ultimately have "(d, Accept) \<in> {(c, Accept)}" by (simp only:)
  then show "d = c" by simp
qed

lemma idle_fields:
  "lp_calls l' = lp_calls l \<Longrightarrow> lp_http l' c = lp_http l c \<Longrightarrow> lp_next l' = lp_next l \<Longrightarrow> idle c l \<Longrightarrow> idle c l'"
  by (simp add: idle_def)

lemma idle_http: "idle c l \<Longrightarrow> d \<noteq> c \<Longrightarrow> idle c (fst (on_http d a l))"
  by (rule idle_fields) (auto simp: on_http_def split: prod.split)

lemma idle_ws: "idle c l \<Longrightarrow> idle c (fst (on_ws_world a l))"
  by (rule idle_fields) (auto simp: on_ws_world_def split: prod.split)

text \<open>Nothing is pending on a connection that waits for its call, so no completion reaches it.\<close>

lemma idle_done: "idle c l \<Longrightarrow> idle c (fst (on_http d (async_step E i ok s) l))"
proof (cases "d = c")
  case True
  assume idle: "idle c l"
  then obtain u where "lp_http l c = new_connection u no_request" by (auto simp: idle_def)
  then have "on_http c (async_step E i ok s) l =
      (l\<lparr>lp_http := (lp_http l)(c := new_connection (lp_user l) no_request), lp_user := lp_user l\<rparr>, Go)"
    by (simp add: on_http_def async_step_def act_simps new_connection_def)
  then show ?thesis using True idle by (auto simp: idle_def)
qed (rule idle_http)

lemma idle_log: "idle c l \<Longrightarrow> idle c (fst (log_std e l))"
  by (rule idle_fields) (auto simp: log_std_def act_simps split: exc.split)

lemma idle_remove: "idle c l \<Longrightarrow> idle c (l\<lparr>lp_calls := remove1 (d, Initial) (lp_calls l)\<rparr>)"
  by (auto simp: idle_def filter_remove1 dest: notin_set_remove1 set_remove1_subset [THEN subsetD])

lemma idle_accept:
  assumes "idle c l"
  shows "idle (lp_next l) (fst (seq (modify (\<lambda>l. l\<lparr>lp_calls := remove1 (c, Accept) (lp_calls l)\<rparr>))
     (try_catch (http_called S c Accept True rq) log_std) l))"
proof -
  have c: "c < lp_next l" "filter (\<lambda>x. snd x = Accept) (lp_calls l) = [(c, Accept)]"
    "(c, Initial) \<notin> set (lp_calls l)" "\<forall>x \<in> set (lp_calls l). fst x < lp_next l"
    using assms by (auto simp: idle_def)
  have "filter (\<lambda>x. snd x = Accept) (remove1 (c, Accept) (lp_calls l)) = []"
    using c(2) by (simp add: filter_remove1)
  moreover have "\<forall>x \<in> set (remove1 (c, Accept) (lp_calls l)). fst x < lp_next l"
    using c(4) set_remove1_subset [of "(c, Accept)" "lp_calls l"] by blast
  moreover have "(lp_next l, Initial) \<notin> set (lp_calls l)" using c(4) by fastforce
  ultimately show ?thesis using c(1)
    by (auto simp: act_simps http_called_def start_http_def on_accepted_def on_http_def idle_def)
qed

lemma idle_turn:
  assumes "idle c l" "\<not> refused ev"
  shows "\<exists>d. idle d (fst (turn S ev l))"
proof (cases ev)
  case (Http_call d p ok rq)
  show ?thesis
  proof (cases p)
    case Accept
    then show ?thesis
      using assms Http_call idle_accept [OF assms(1), of S rq] idle_only [OF assms(1)]
      by (auto simp: turn_def act_simps)
  next
    case Initial
    show ?thesis
    proof (cases "(d, Initial) \<in> set (lp_calls l)")
      case True
      then have "d \<noteq> c" using assms(1) by (auto simp: idle_def)
      then have "idle c (fst (http_called S d Initial ok rq (l\<lparr>lp_calls := remove1 (d, Initial) (lp_calls l)\<rparr>)))"
        using idle_http [OF idle_remove [OF assms(1)]] by (simp add: http_called_def)
      then show ?thesis using True Http_call Initial
        by (auto simp: turn_def act_simps idle_log split: prod.split flow.split intro!: exI [of _ c])
    qed (use assms(1) Http_call Initial in \<open>auto simp: turn_def act_simps\<close>)
  qed
next
  case (Http_done d i ok s)
  then show ?thesis by (intro exI [of _ c]) (simp add: turn_def idle_done [OF assms(1)])
next
  case (Ws_done d p ok a)
  have "idle c (l'\<lparr>lp_next_ws := n\<rparr>)" if "idle c l'" for l' :: "('a, 'b, 'c) loop" and n using that by (simp add: idle_def)
  then show ?thesis using Ws_done idle_ws [OF assms(1)]
    by (auto simp: turn_def act_simps split: prod.split flow.split intro!: exI [of _ c]) (metis fst_conv)+
qed (use assms(1) in \<open>auto simp: turn_def act_simps\<close>)


lemma idle_turns:
  assumes "idle c l" "\<forall>ev \<in> set evs. \<not> refused ev"
  shows "\<exists>d. idle d (fst (for_each evs (turn S) l))"
  using assms
proof (induction evs arbitrary: c l)
  case (Cons ev evs)
  obtain l' f where t: "turn S ev l = (l', f)" by fastforce
  then obtain d where "idle d l'" using idle_turn [OF Cons.prems(1), of ev S] Cons.prems(2) by auto
  then show ?case using Cons.IH [of d l'] Cons.prems(2) t by (cases f) (auto simp: act_simps)
qed (auto simp: act_simps)

lemma start_idle:
  assumes "lp_calls l = []"
  obtains l' where "async_task S evs l = for_each evs (turn S) l'" "idle (lp_next l) l'"
proof -
  obtain l0 where s: "start_ws l = (l0, Go)" "lp_calls l0 = []" "lp_next l0 = lp_next l"
    using assms by (simp add: start_ws_def act_simps on_ws_world_def ws_start_def issue_ws_def)
  then have "idle (lp_next l) (fst (start_http l0))"
    by (auto simp: start_http_def act_simps idle_def)
  moreover have "async_task S evs l = for_each evs (turn S) (fst (start_http l0))"
    by (simp add: async_task_def seq_def s(1) start_http_def modify_def)
  ultimately show ?thesis using that by blast
qed

section \<open>Properties\<close>

text \<open>
  C16. A worker always has exactly one HTTP call to accept: whatever completes, in whatever order, and whatever
  the application does, one new connection waits for the next call, until the queue is shut down.
\<close>

theorem one_call_awaited:
  fixes S :: "('k, 'j, 'u) services" and l :: "('k, 'j, 'u) loop"
  assumes "lp_calls l = []" "\<forall>ev \<in> set evs. \<not> refused ev"
  defines "l' \<equiv> fst (async_task S evs l)"
  shows "\<exists>c u. filter (\<lambda>x. snd x = Accept) (lp_calls l') = [(c, Accept)] \<and> lp_http l' c = new_connection u no_request"
proof -
  obtain l1 where l1: "async_task S evs l = for_each evs (turn S) l1" "idle (lp_next l) l1"
    using assms(1) by (rule start_idle)
  then obtain d where "idle d l'" using idle_turns [OF l1(2) assms(2), of S] by (auto simp: l'_def)
  then show ?thesis unfolding idle_def by blast
qed

text \<open>
  C28. An exception that is no \<^verbatim>\<open>std::exception\<close> leaves the loop and ends the process, with every
  other connection. A websocket handler that looks at the URI of the request is enough, since
  \<^verbatim>\<open>invalid_uri_exception\<close> derives privately: the first client with a malformed resource ends the server.
\<close>

theorem malformed_resource_ends_server:
  assumes before: "async_task S evs l = (l1, Go)"
    and pending: "Wp_request \<in> set (wc_pending (ww_con (lp_ws l1) c))" "wc_parsed (ww_con (lp_ws l1) c) = None"
    and handler: "ww_groups (lp_ws l1) [] = Some g" "g_handler g = Some h"
      "we_connect (se_ws_env S) h c = ws_parsed_uri c f"
    and bad: "parse_uri (wq_resource (wa_request a)) = Inl Invalid_uri_exception"
  shows "snd (worker_thread S (evs @ Ws_done c Wp_request True a # rest) l) = Terminate"
proof -
  have append: "async_task S (evs @ ys) = seq (async_task S evs) (for_each ys (turn S))" for ys
    by (simp add: async_task_def for_each_append seq_assoc)
  have "snd (ws_async (se_ws_env S) c Wp_request True (a\<lparr>wa_con := lp_next_ws l1\<rparr>) ((lp_ws l1)\<lparr>ww_user := lp_user l1\<rparr>))
      = Throw Invalid_uri_exception"
    using pending handler bad
    by (simp add: ws_async_def act_simps ws_complete_def ws_on_request_def ws_on_connect_def issue_ws_def hub_on_connect_def
        at_group_def call_handler_def ws_parsed_uri_def store_request_def ws_log_exception_def is_std_exception_def)
  then have "snd (turn S (Ws_done c Wp_request True a) l1) = Throw Invalid_uri_exception"
    by (auto simp: turn_def act_simps on_ws_world_def split: prod.split)
  then obtain l2 where "turn S (Ws_done c Wp_request True a) l1 = (l2, Throw Invalid_uri_exception)"
    by (metis prod.collapse)
  then have "async_task S (evs @ Ws_done c Wp_request True a # rest) l = (l2, Throw Invalid_uri_exception)"
    by (simp add: append before seq_def)
  then show ?thesis by (simp add: worker_thread_def act_simps terminate_def)
qed

text \<open>A worker with the default handlers, whose websocket handler looks at the URI.\<close>

definition looking_env :: "(nat, unit) ws_env" where
  "looking_env = quiet_ws_env\<lparr>we_connect := \<lambda>h c. ws_parsed_uri c (\<lambda>_. skip)\<rparr>"

definition demo_services :: "(string, nat, unit) services" where
  "demo_services = \<lparr>se_env = demo_env, se_info = new_router, se_ws_env = looking_env\<rparr>"

definition new_loop :: "(string, nat, unit) loop" where
  "new_loop = \<lparr>lp_http = \<lambda>_. new_connection () no_request, lp_calls = [], lp_next = 0,
     lp_ws = fst (set_default_handler (Some 0) quiet_ws_world), lp_next_ws = 0, lp_log = [], lp_user = ()\<rparr>"

definition ws_arrives :: "string \<Rightarrow> ws_arrival" where
  "ws_arrives res = \<lparr>wa_con = 0, wa_request = \<lparr>wq_resource = res, wq_protocol = [], wq_headers = [], wq_client_ip = [],
     wq_client_port = 0, wq_server_ip = [], wq_server_port = 0, wq_encrypted = False\<rparr>,
     wa_message = \<lparr>wm_type = Ws_text, wm_content = []\<rparr>\<rparr>"

lemma one_call_awaited_witness:
  "\<exists>c u. filter (\<lambda>x. snd x = Accept) (lp_calls (fst (async_task demo_services
       [Http_call 0 Accept True no_request, Http_call 0 Initial True demo_request, Http_call 1 Accept True no_request]
       new_loop))) = [(c, Accept)]
     \<and> lp_http (fst (async_task demo_services
       [Http_call 0 Accept True no_request, Http_call 0 Initial True demo_request, Http_call 1 Accept True no_request]
       new_loop)) c = new_connection u no_request"
  by (rule one_call_awaited) (simp_all add: new_loop_def)

lemma malformed_resource_ends_server_witness:
  "snd (worker_thread demo_services
     ([Ws_done 0 Wp_accept True (ws_arrives [])] @ Ws_done 0 Wp_request True (ws_arrives ''chat'') # []) new_loop) = Terminate"
proof -
  define l1 where "l1 = fst (async_task demo_services [Ws_done 0 Wp_accept True (ws_arrives [])] new_loop)"
  have facts: "snd (async_task demo_services [Ws_done 0 Wp_accept True (ws_arrives [])] new_loop) = Go
    \<and> wc_pending (ww_con (lp_ws l1) 0) = [Wp_request] \<and> wc_parsed (ww_con (lp_ws l1) 0) = None
    \<and> map_option g_handler (ww_groups (lp_ws l1) []) = Some (Some 0)"
    unfolding l1_def by code_simp
  then have before: "async_task demo_services [Ws_done 0 Wp_accept True (ws_arrives [])] new_loop = (l1, Go)"
    by (simp add: l1_def prod_eq_iff)
  obtain g where g: "ww_groups (lp_ws l1) [] = Some g" "g_handler g = Some 0" using facts by auto
  have bad: "parse_uri (wq_resource (wa_request (ws_arrives ''chat''))) = Inl Invalid_uri_exception" by code_simp
  show ?thesis
    by (rule malformed_resource_ends_server [OF before _ _ g _ bad])
       (use facts in \<open>simp_all add: demo_services_def looking_env_def\<close>)
qed

end
