(* ===== verification/Ws_Delivery.thy ===== *)
theory Ws_Delivery imports Ws_Connection "HOL-Library.Sublist"
begin

text \<open>
  Messages of a websocket connection are written in the order in which they were queued, one at
  a time, whatever the handlers do with the operations of connections and hub. The queue is an
  instance of a general outbox; the state machine of calls and completions keeps its invariant.
\<close>

section \<open>The queue of one connection\<close>

text \<open>
  A write is pending exactly for the front of the queue. \<open>queued_total\<close> is everything that was
  ever queued: what went out, then what waits behind the write.
\<close>

definition writing :: "'k ws_con \<Rightarrow> bool" where
  "writing x \<longleftrightarrow> Wp_write \<in> set (wc_pending x)"

definition queued_total :: "'k ws_con \<Rightarrow> ws_response list" where
  "queued_total x = wc_wire x @ map fst (if writing x then tl (wc_queue x) else wc_queue x)"

definition con_ok :: "'k ws_con \<Rightarrow> bool" where
  "con_ok x \<longleftrightarrow>
     count_list (wc_pending x) Wp_write \<le> 1 \<and>
     (writing x \<longrightarrow> wc_queue x \<noteq> [] \<and> wc_wire x \<noteq> [] \<and> last (wc_wire x) = fst (hd (wc_queue x))) \<and>
     (wc_queue x \<noteq> [] \<and> \<not> wc_done x \<longrightarrow> writing x)"

text \<open>A completed write, seen from the connection.\<close>

definition con_pop :: "'k ws_con \<Rightarrow> 'k ws_con" where
  "con_pop x =
     (let y = x\<lparr>wc_queue := tl (wc_queue x)\<rparr>
      in if \<not> wc_done y \<and> wc_queue y \<noteq> []
         then y\<lparr>wc_wire := wc_wire y @ [fst (hd (wc_queue y))], wc_pending := wc_pending y @ [Wp_write]\<rparr> else y)"

definition con_written :: "'k ws_con \<Rightarrow> 'k ws_con" where
  "con_written x = con_pop (x\<lparr>wc_pending := remove1 Wp_write (wc_pending x)\<rparr>)"

lemmas con_written_defs = con_written_def con_pop_def Let_def

lemma con_ok_enqueued: "con_ok x \<Longrightarrow> con_ok (enqueued m cb x) \<and> queued_total (enqueued m cb x) = queued_total x @ [m]"
  by (cases "wc_queue x") (auto simp: con_ok_def enqueued_def writing_def queued_total_def count_list_0_iff)

lemma not_writing_removed: "con_ok x \<Longrightarrow> Wp_write \<notin> set (remove1 Wp_write (wc_pending x))"
proof -
  assume "con_ok x"
  then have "count_list (remove1 Wp_write (wc_pending x)) Wp_write = 0"
    by (simp add: con_ok_def)
  then show ?thesis by (simp only: count_list_0_iff not_False_eq_True)
qed

lemma con_ok_written:
  assumes "con_ok x" "writing x"
  shows "con_ok (con_written x) \<and> queued_total (con_written x) = queued_total x"
proof -
  obtain m q where q: "wc_queue x = m # q" using assms by (cases "wc_queue x") (auto simp: con_ok_def)
  show ?thesis using assms q not_writing_removed [OF assms(1)]
    by (cases q) (auto simp: con_ok_def con_written_defs writing_def queued_total_def count_list_0_iff)
qed

lemma idle_empty: "con_ok x \<Longrightarrow> \<not> wc_done x \<Longrightarrow> writing x \<longleftrightarrow> wc_queue x \<noteq> []"
  by (auto simp: con_ok_def)

text \<open>
  The interface of an outbox: messages are put in, every step takes one out, and what was sent
  is at any time the beginning of what was put in.
\<close>

locale outbox =
  fixes put :: "'m \<Rightarrow> 'q \<Rightarrow> 'q" and step :: "'q \<Rightarrow> 'q"
    and sent :: "'q \<Rightarrow> 'm list" and total :: "'q \<Rightarrow> 'm list" and waiting :: "'q \<Rightarrow> nat" and ok :: "'q \<Rightarrow> bool"
  assumes put_ok: "ok q \<Longrightarrow> ok (put m q)" and put_total: "ok q \<Longrightarrow> total (put m q) = total q @ [m]"
    and step_ok: "ok q \<Longrightarrow> 0 < waiting q \<Longrightarrow> ok (step q)"
    and step_total: "ok q \<Longrightarrow> 0 < waiting q \<Longrightarrow> total (step q) = total q"
    and step_waiting: "ok q \<Longrightarrow> 0 < waiting q \<Longrightarrow> waiting (step q) = waiting q - 1"
    and sent_total: "ok q \<Longrightarrow> prefix (sent q) (total q)"
    and idle_sent: "ok q \<Longrightarrow> waiting q = 0 \<Longrightarrow> sent q = total q"
begin

lemma puts: "ok q \<Longrightarrow> ok (fold put ms q) \<and> total (fold put ms q) = total q @ ms"
  by (induction ms arbitrary: q) (auto simp: put_ok put_total)

lemma steps:
  "ok q \<Longrightarrow> n \<le> waiting q \<Longrightarrow>
     ok ((step ^^ n) q) \<and> total ((step ^^ n) q) = total q \<and> waiting ((step ^^ n) q) = waiting q - n"
  by (induction n) (auto simp: step_ok step_total step_waiting)

lemma drained: "ok q \<Longrightarrow> sent ((step ^^ waiting q) q) = total q"
  using steps [of q "waiting q"] idle_sent [of "(step ^^ waiting q) q"] by simp

lemma delivered: "ok q \<Longrightarrow> sent ((step ^^ waiting (fold put ms q)) (fold put ms q)) = total q @ ms"
  using puts [of q ms] drained by simp

end

interpretation ws_box: outbox "\<lambda>m. enqueued m None" con_written wc_wire queued_total "\<lambda>x. length (wc_queue x)"
    "\<lambda>x. con_ok x \<and> \<not> wc_done x"
proof unfold_locales
  fix q :: "'k ws_con" and m
  show "con_ok q \<and> \<not> wc_done q \<Longrightarrow> con_ok (enqueued m None q) \<and> \<not> wc_done (enqueued m None q)"
    by (simp add: con_ok_enqueued)
  show "con_ok q \<and> \<not> wc_done q \<Longrightarrow> queued_total (enqueued m None q) = queued_total q @ [m]"
    by (simp add: con_ok_enqueued)
  have done_same: "wc_done (con_written q) = wc_done q" by (simp add: con_written_defs)
  show "con_ok q \<and> \<not> wc_done q \<Longrightarrow> 0 < length (wc_queue q) \<Longrightarrow> con_ok (con_written q) \<and> \<not> wc_done (con_written q)"
    using con_ok_written [of q] done_same by (simp add: idle_empty)
  show "con_ok q \<and> \<not> wc_done q \<Longrightarrow> 0 < length (wc_queue q) \<Longrightarrow> queued_total (con_written q) = queued_total q"
    using con_ok_written [of q] by (simp add: idle_empty)
  show "con_ok q \<and> \<not> wc_done q \<Longrightarrow> 0 < length (wc_queue q) \<Longrightarrow> length (wc_queue (con_written q)) = length (wc_queue q) - 1"
    by (cases "wc_queue q") (simp_all add: con_written_defs)
  show "con_ok q \<and> \<not> wc_done q \<Longrightarrow> prefix (wc_wire q) (queued_total q)"
    by (simp add: queued_total_def)
  show "con_ok q \<and> \<not> wc_done q \<Longrightarrow> length (wc_queue q) = 0 \<Longrightarrow> wc_wire q = queued_total q"
    by (simp add: queued_total_def)
qed

section \<open>What handlers may do\<close>

text \<open>
  \<open>ws_le\<close> compares two states: locks are as they were, queues only grew, well-formed
  connections stayed well-formed. An action is polite when it leads from a state to such a one,
  however it ends, and does nothing undefined.
\<close>

definition con_le :: "'k ws_con \<Rightarrow> 'k ws_con \<Rightarrow> bool" where
  "con_le x y \<longleftrightarrow> (con_ok x \<longrightarrow> con_ok y \<and> prefix (queued_total x) (queued_total y)) \<and>
     wc_locked y = wc_locked x \<and> (wc_done x \<longrightarrow> wc_done y)"

definition ws_le :: "('k, 'u) ws_world \<Rightarrow> ('k, 'u) ws_world \<Rightarrow> bool" where
  "ws_le w w' \<longleftrightarrow> (\<forall>c. con_le (ww_con w c) (ww_con w' c))"

definition polite :: "('k, 'u) ws_world act \<Rightarrow> bool" where
  "polite a \<longleftrightarrow> (\<forall>w. ws_le w (fst (a w)) \<and> meaningful (snd (a w)))"

named_theorems polite_intros \<open>actions that are polite\<close>

lemma con_le_refl [simp]: "con_le x x"
  by (simp add: con_le_def)

lemma con_le_trans: "con_le x y \<Longrightarrow> con_le y z \<Longrightarrow> con_le x z"
  by (auto simp: con_le_def intro: prefix_order.order_trans)

lemma ws_le_refl [simp]: "ws_le w w"
  by (simp add: ws_le_def)

lemma ws_le_trans: "ws_le u v \<Longrightarrow> ws_le v w \<Longrightarrow> ws_le u w"
  unfolding ws_le_def by (meson con_le_trans)

lemma politeD: "polite a \<Longrightarrow> a w = (w', f) \<Longrightarrow> ws_le w w' \<and> meaningful f"
  unfolding polite_def by (metis fst_conv snd_conv)

lemma polite_basic [polite_intros, simp]:
  "polite skip" "polite block" "e \<noteq> Undefined_behaviour \<Longrightarrow> polite (throw e)"
  by (auto simp: polite_def act_simps meaningful_def split: exc.split)

lemma polite_modify: "(\<And>w. ws_le w (f w)) \<Longrightarrow> polite (modify f)"
  by (simp add: polite_def act_simps meaningful_def)

lemma polite_upd_con: "(\<And>x. con_le x (f x)) \<Longrightarrow> polite (modify (upd_con c f))"
  by (rule polite_modify) (simp add: ws_le_def)

lemma polite_same_con: "(\<And>w. ww_con (f w) = ww_con w) \<Longrightarrow> polite (modify f)"
  by (rule polite_modify) (simp add: ws_le_def)

lemma polite_seq [polite_intros]:
  assumes "polite a" "polite b"
  shows "polite (seq a b)"
  unfolding polite_def
proof
  fix w :: "('a, 'b) ws_world"
  obtain w' f where a: "a w = (w', f)" by fastforce
  note m = politeD [OF assms(1) a]
  have "ws_le w' (fst (b w')) \<and> meaningful (snd (b w'))" using assms(2) by (simp add: polite_def)
  then show "ws_le w (fst (seq a b w)) \<and> meaningful (snd (seq a b w))"
    using a m by (cases f) (auto simp: act_simps intro: ws_le_trans)
qed

lemma polite_read_state [polite_intros]: "(\<And>w. polite (f w)) \<Longrightarrow> polite (read_state f)"
  by (simp add: polite_def act_simps)

lemma polite_for_each [polite_intros]: "(\<And>x. polite (f x)) \<Longrightarrow> polite (for_each xs f)"
  by (induction xs) (simp_all add: polite_seq)

lemma polite_at_group [polite_intros]: "(\<And>g. polite (f g)) \<Longrightarrow> polite (at_group n f)"
  unfolding at_group_def by (auto intro!: polite_read_state split: option.split)

lemma polite_call_handler [polite_intros]: "(\<And>h. polite (f h)) \<Longrightarrow> polite (call_handler f h)"
  by (simp add: call_handler_def split: option.split)

lemma polite_upd_group [polite_intros]: "polite (modify (upd_group n f))"
  by (rule polite_same_con) simp

lemma con_le_enqueued: "con_le x (enqueued m cb x)"
  by (simp add: con_le_def con_ok_enqueued)

lemma polite_queue_response [polite_intros]: "polite (queue_response c m cb)"
  unfolding polite_def
proof
  fix w :: "('a, 'b) ws_world"
  show "ws_le w (fst (queue_response c m cb w)) \<and> meaningful (snd (queue_response c m cb w))"
    by (cases "wc_locked (ww_con w c)")
       (simp_all add: queue_response_locked queue_response_enqueued ws_le_def con_le_enqueued meaningful_def)
qed

lemma polite_sends [polite_intros]:
  "polite (send_message_cb c b m cb)" "polite (send_message c b m)" "polite (ws_close c)"
  unfolding send_message_def send_message_cb_def ws_close_def by (auto intro!: polite_intros)

lemma con_le_fields: "con_ok y = con_ok x \<Longrightarrow> queued_total y = queued_total x \<Longrightarrow> wc_locked y = wc_locked x \<Longrightarrow>
    wc_done y = wc_done x \<Longrightarrow> con_le x y"
  by (simp add: con_le_def)

lemma con_ok_other_fields [simp]:
  "con_ok (x\<lparr>wc_group := g\<rparr>) = con_ok x" "queued_total (x\<lparr>wc_group := g\<rparr>) = queued_total x"
  "con_ok (x\<lparr>wc_locked := l\<rparr>) = con_ok x" "queued_total (x\<lparr>wc_locked := l\<rparr>) = queued_total x"
  "queued_total (x\<lparr>wc_done := d\<rparr>) = queued_total x"
  "con_ok (store_request lower rq x) = con_ok x" "queued_total (store_request lower rq x) = queued_total x"
  by (simp_all add: con_ok_def queued_total_def writing_def store_request_def)

lemma store_request_fields [simp]:
  "wc_locked (store_request lower rq x) = wc_locked x" "wc_done (store_request lower rq x) = wc_done x"
  by (simp_all add: store_request_def)

lemma polite_group_attr [polite_intros]: "polite (modify (upd_con c (\<lambda>x. x\<lparr>wc_group := g\<rparr>)))"
  by (intro polite_upd_con con_le_fields) simp_all

lemma polite_hub_ops [polite_intros]:
  "polite hub_close_all" "polite (set_default_handler h)" "polite (set_connection_group c n)"
  "polite (add_group n h)" "polite (broadcast n b m)" "polite (broadcast_con c b m)" "polite (close_group n)"
  unfolding hub_close_all_def set_default_handler_def set_connection_group_def add_group_def
    broadcast_def broadcast_con_def close_group_def Let_def
  by (auto intro!: polite_intros polite_same_con split: option.split)

definition ws_env_polite :: "('k, 'u) ws_env \<Rightarrow> bool" where
  "ws_env_polite E \<longleftrightarrow>
     (\<forall>k. polite (we_cb E k)) \<and> (\<forall>h c. polite (we_connect E h c)) \<and>
     (\<forall>h c b m. polite (we_message E h c b m)) \<and> (\<forall>h c. polite (we_disconnect E h c))"

lemma polite_hub_events:
  assumes "ws_env_polite E"
  shows "polite (hub_on_connect E c)" "polite (hub_on_message E c b m)" "polite (hub_on_disconnect E c)"
  using assms unfolding hub_on_connect_def hub_on_message_def hub_on_disconnect_def Let_def ws_env_polite_def
  by (auto intro!: polite_intros split: option.split)

section \<open>Completions\<close>

text \<open>Between two completions every mutex is free.\<close>

definition quiescent :: "('k, 'u) ws_world \<Rightarrow> bool" where
  "quiescent w \<longleftrightarrow> (\<forall>c. con_ok (ww_con w c) \<and> \<not> wc_locked (ww_con w c))"

text \<open>An address that no connection has used.\<close>

definition unused :: "'k ws_con \<Rightarrow> bool" where
  "unused x \<longleftrightarrow> wc_queue x = [] \<and> wc_wire x = [] \<and> wc_pending x = [] \<and> \<not> wc_locked x \<and> \<not> wc_done x"

definition arrival_ok :: "('k, 'u) ws_world \<Rightarrow> nat \<Rightarrow> ws_pending \<Rightarrow> ws_arrival \<Rightarrow> bool" where
  "arrival_ok w c p a \<longleftrightarrow> p = Wp_accept \<longrightarrow> unused (ww_con w (wa_con a)) \<and> wa_con a \<noteq> c"

lemma quiescent_le: "quiescent w \<Longrightarrow> ws_le w w' \<Longrightarrow> quiescent w'"
  by (simp add: quiescent_def ws_le_def con_le_def)

lemma polite_try_catch [polite_intros]:
  assumes "polite a" "\<And>e. e \<noteq> Undefined_behaviour \<Longrightarrow> polite (h e)"
  shows "polite (try_catch a h)"
  unfolding polite_def
proof
  fix w :: "('a, 'b) ws_world"
  obtain w' f where a: "a w = (w', f)" by fastforce
  note m = politeD [OF assms(1) a]
  show "ws_le w (fst (try_catch a h w)) \<and> meaningful (snd (try_catch a h w))"
  proof (cases f)
    case (Throw e)
    then have "polite (h e)" using assms(2) m by (auto simp: meaningful_def)
    then have "ws_le w' (fst (h e w')) \<and> meaningful (snd (h e w'))" by (simp add: polite_def)
    then show ?thesis using a m Throw by (auto simp: act_simps intro: ws_le_trans)
  qed (use a m in \<open>auto simp: act_simps\<close>)
qed

lemma polite_issue [polite_intros]: "p \<noteq> Wp_write \<Longrightarrow> polite (issue_ws c p)"
  unfolding issue_ws_def
  by (intro polite_upd_con con_le_fields) (simp_all add: con_ok_def queued_total_def writing_def)

lemma polite_store [polite_intros]: "polite (modify (upd_con c (store_request lower rq)))"
  by (intro polite_upd_con con_le_fields) simp_all

lemma polite_set_done [polite_intros]: "polite (modify (upd_con c (\<lambda>x. x\<lparr>wc_done := True\<rparr>)))"
  by (intro polite_upd_con) (auto simp: con_le_def con_ok_def writing_def)

lemma polite_unless_done [polite_intros]: "polite a \<Longrightarrow> polite b \<Longrightarrow> polite (unless_done c a b)"
  unfolding unless_done_def by (auto intro!: polite_intros)

lemma polite_log [polite_intros]: "e \<noteq> Undefined_behaviour \<Longrightarrow> polite (ws_log_exception e)"
  unfolding ws_log_exception_def by (auto intro!: polite_intros polite_same_con)

lemma polite_run_cb: "ws_env_polite E \<Longrightarrow> polite (run_ws_cb E cb)"
  by (auto simp: run_ws_cb_def ws_env_polite_def intro!: polite_intros split: option.split ws_cb.split)

lemma polite_on_request: "ws_env_polite E \<Longrightarrow> polite (ws_on_request E c ok rq)"
  unfolding ws_on_request_def ws_on_connect_def by (auto intro!: polite_intros polite_hub_events)

lemma polite_on_message: "ws_env_polite E \<Longrightarrow> polite (ws_on_message E c msg)"
  unfolding ws_on_message_def by (auto intro!: polite_intros polite_hub_events)

lemma con_le_removed: "p \<noteq> Wp_write \<Longrightarrow> con_le x (x\<lparr>wc_pending := remove1 p (wc_pending x)\<rparr>)"
  by (rule con_le_fields) (simp_all add: con_ok_def queued_total_def writing_def)

lemma pop_and_write_eq: "pop_and_write c w = (upd_con c con_pop w, Go)"
proof (cases "wc_queue (ww_con w c)")
  case Nil
  then show ?thesis by (simp add: pop_and_write_def act_simps upd_con_def con_pop_def Let_def)
next
  case (Cons m q)
  then show ?thesis
    by (cases q) (auto simp: pop_and_write_def act_simps upd_con_def con_pop_def Let_def write_front_def)
qed

lemma release_eq: "release c w = (upd_con c (\<lambda>x. x\<lparr>wc_locked := False\<rparr>) w, Go)"
  by (simp add: release_def act_simps)

lemma release_mono: "ws_le u v \<Longrightarrow> ws_le (fst (release c u)) (fst (release c v))"
  by (simp add: release_eq ws_le_def con_le_def)

lemma release_free: "\<not> wc_locked (ww_con w c) \<Longrightarrow> fst (release c w) = w"
proof -
  assume "\<not> wc_locked (ww_con w c)"
  then have "(ww_con w c)\<lparr>wc_locked := False\<rparr> = ww_con w c" by (cases "ww_con w c") simp
  then show ?thesis by (cases w) (simp add: release_eq upd_con_def)
qed

text \<open>
  The state in which the section of \<open>send_cb\<close> starts its calls, and what it makes of it: up to
  the mutex of the connection the state only grew.
\<close>

definition popped :: "nat \<Rightarrow> ('k, 'u) ws_world \<Rightarrow> ('k, 'u) ws_world" where
  "popped c = upd_con c (\<lambda>x. (con_written x)\<lparr>wc_locked := True\<rparr>)"

lemma popped_le:
  assumes "con_ok (ww_con w c)" "writing (ww_con w c)" "\<not> wc_locked (ww_con w c)"
  shows "ws_le w (fst (release c (popped c w)))"
proof -
  have "wc_done (con_written (ww_con w c)) = wc_done (ww_con w c)" by (simp add: con_written_defs)
  then have "con_le (ww_con w c) ((con_written (ww_con w c))\<lparr>wc_locked := False\<rparr>)"
    using assms(3) con_ok_written [OF assms(1,2)] by (simp add: con_le_def)
  then show ?thesis by (simp add: release_eq popped_def ws_le_def)
qed

lemma send_cb_eq:
  assumes "\<not> wc_locked (ww_con w c)" "wc_queue (ww_con w c) = (m, cb) # q"
  shows "send_cb E c (upd_con c (\<lambda>x. x\<lparr>wc_pending := remove1 Wp_write (wc_pending x)\<rparr>) w) =
    (if wm_type (wr_message m) = Ws_close
     then seq (unlock_on_throw c (hub_on_disconnect E c))
              (unless_done c (release c) (seq (issue_ws c Wp_finish) (seq (release c) (run_ws_cb E cb))))
     else seq (release c) (run_ws_cb E cb)) (popped c w)"
proof -
  have "con_pop ((ww_con w c)\<lparr>wc_pending := remove1 Wp_write (wc_pending (ww_con w c)), wc_locked := True\<rparr>) =
      (con_written (ww_con w c))\<lparr>wc_locked := True\<rparr>"
    by (cases "ww_con w c") (simp add: con_written_defs)
  then have "upd_con c con_pop (upd_con c (\<lambda>x. x\<lparr>wc_locked := True\<rparr>)
      (upd_con c (\<lambda>x. x\<lparr>wc_pending := remove1 Wp_write (wc_pending x)\<rparr>) w)) = popped c w"
    by (simp add: popped_def upd_con_def)
  then show ?thesis using assms
    by (simp add: send_cb_def act_simps pop_and_write_eq)
qed

lemma send_cb_le:
  assumes "con_ok (ww_con w c)" "writing (ww_con w c)" "\<not> wc_locked (ww_con w c)" "ws_env_polite E"
    and "send_cb E c (upd_con c (\<lambda>x. x\<lparr>wc_pending := remove1 Wp_write (wc_pending x)\<rparr>) w) = (w', f)"
  shows "ws_le w (fst (release c w')) \<and> meaningful f \<and> (running f \<longrightarrow> ws_le w w')"
proof -
  obtain m cb q where q: "wc_queue (ww_con w c) = (m, cb) # q"
    using assms(1,2) by (cases "wc_queue (ww_con w c)") (auto simp: con_ok_def)
  let ?v = "fst (release c (popped c w))"
  have 0: "ws_le w ?v" by (rule popped_le [OF assms(1-3)])
  have free: "\<not> wc_locked (ww_con u c)" if "ws_le w u" for u
    using that assms(3) by (simp add: ws_le_def con_le_def)
  have done_le: "ws_le w w' \<and> meaningful f" if "a u = (w', f)" "polite a" "ws_le w u"
    for a :: "('a, 'b) ws_world act" and u
    using politeD [OF that(2,1)] that(3) ws_le_trans by blast
  have goal: ?thesis if "ws_le w w' \<and> meaningful f" using that free release_free by metis
  show ?thesis
  proof (cases "wm_type (wr_message m) = Ws_close")
    case False
    then have "run_ws_cb E cb ?v = (w', f)"
      using assms(5) send_cb_eq [OF assms(3) q, of E] by (simp add: act_simps release_eq)
    then show ?thesis using goal done_le [OF _ polite_run_cb [OF assms(4)] 0] by blast
  next
    case True
    obtain u g where u: "hub_on_disconnect E c (popped c w) = (u, g)" by fastforce
    note pol = politeD [OF polite_hub_events(3) [OF assms(4)] u]
    have r: "ws_le w (fst (release c u))" using pol release_mono 0 ws_le_trans by blast
    note eq = send_cb_eq [OF assms(3) q, of E] True u
    show ?thesis
    proof (cases g)
      case Go
      let ?rest = "unless_done c (release c) (seq (issue_ws c Wp_finish) (seq (release c) (run_ws_cb E cb)))"
      have rest: "?rest u = (w', f)"
        using assms(5) eq Go by (simp add: seq_def unlock_on_throw_def)
      show ?thesis
      proof (cases "wc_done (ww_con u c)")
        case True
        then have "release c u = (w', f)" using rest by (simp add: unless_done_def act_simps)
        then show ?thesis using r goal by (simp add: release_eq meaningful_def)
      next
        case False
        let ?a = "seq (modify (upd_con c (\<lambda>x. x\<lparr>wc_done := True\<rparr>))) (seq (issue_ws c Wp_finish) (run_ws_cb E cb))"
        have "?rest u = ?a (fst (release c u))"
          using False
          by (cases "ww_con u c") (simp add: unless_done_def act_simps release_eq issue_ws_def upd_con_def)
        moreover have "polite ?a" by (intro polite_intros polite_run_cb assms(4)) simp
        ultimately show ?thesis using goal done_le [OF _ _ r] rest by metis
      qed
    next
      case (Throw e)
      then have "w' = fst (release c u)" "f = Throw e"
        using assms(5) eq by (simp_all add: seq_def unlock_on_throw_def)
      then show ?thesis using r goal pol Throw by simp
    next
      case Hang
      then have "w' = u" "f = Hang" using assms(5) eq by (simp_all add: seq_def unlock_on_throw_def)
      then show ?thesis using r pol Hang by (simp add: running_def)
    next
      case Terminate
      then have "w' = u" "f = Terminate" using assms(5) eq by (simp_all add: seq_def unlock_on_throw_def)
      then show ?thesis using r pol Terminate by (simp add: running_def)
    next
      case Undefined
      then show ?thesis using pol by (simp add: meaningful_def)
    qed
  qed
qed

lemma accepted_le:
  assumes "unused (ww_con w n)" "n \<noteq> c"
  shows "ws_le w (fst (ws_on_accepted c n ok w)) \<and> meaningful (snd (ws_on_accepted c n ok w))"
proof -
  have "con_le (ww_con w n) (new_ws_con\<lparr>wc_pending := [Wp_accept]\<rparr>)"
    using assms(1) by (simp add: con_le_def con_ok_def queued_total_def writing_def unused_def new_ws_con_def)
  moreover have "con_le (ww_con w c) ((ww_con w c)\<lparr>wc_pending := wc_pending (ww_con w c) @ [Wp_request]\<rparr>)"
    by (rule con_le_fields) (simp_all add: con_ok_def queued_total_def writing_def)
  ultimately show ?thesis using assms(2)
    by (auto simp: ws_on_accepted_def act_simps ws_start_def issue_ws_def ws_le_def meaningful_def new_ws_con_def)
qed

lemma ws_async_step:
  assumes "quiescent w" "ws_env_polite E" "arrival_ok w c p a" "ws_async E c p ok a w = (w', f)"
  shows "(running f \<longrightarrow> ws_le w w') \<and> meaningful f \<and> (\<forall>d. prefix (queued_total (ww_con w d)) (queued_total (ww_con w' d)))"
proof -
  let ?w = "upd_con c (\<lambda>x. x\<lparr>wc_pending := remove1 p (wc_pending x)\<rparr>) w"
  let ?act = "try_catch (ws_complete E c p ok a) ws_log_exception"
  have ok: "con_ok (ww_con w d)" "\<not> wc_locked (ww_con w d)" for d using assms(1) by (simp_all add: quiescent_def)
  have grown: ?thesis if "ws_le w w'" "meaningful f"
    using that ok by (simp add: ws_le_def con_le_def)
  show ?thesis
  proof (cases "p \<in> set (wc_pending (ww_con w c))")
    case False
    then have "w' = w" "f = Go" using assms(4) by (simp_all add: ws_async_def act_simps)
    then show ?thesis using grown by (simp add: meaningful_def)
  next
    case True
    then have run: "?act ?w = (w', f)" using assms(4) by (simp add: ws_async_def act_simps)
    consider "p = Wp_write" | "p = Wp_accept" | "p \<noteq> Wp_write" "p \<noteq> Wp_accept" by blast
    then show ?thesis
    proof cases
      case 1
      obtain u g where u: "send_cb E c ?w = (u, g)" by fastforce
      have "writing (ww_con w c)" using True 1 by (simp add: writing_def)
      then have le: "ws_le w (fst (release c u)) \<and> meaningful g \<and> (running g \<longrightarrow> ws_le w u)"
        using send_cb_le [OF ok(1) _ ok(2) assms(2)] u 1 by simp
      have pre: "prefix (queued_total (ww_con w d)) (queued_total (ww_con u d))" for d
        using le ok by (simp add: release_eq ws_le_def con_le_def) (metis con_ok_other_fields(4))
      show ?thesis
      proof (cases g)
        case (Throw e)
        then have "polite (ws_log_exception e)" using le by (auto simp: meaningful_def intro: polite_log)
        moreover have "ws_log_exception e u = (w', f)"
          using run u 1 Throw by (simp add: ws_complete_def act_simps)
        ultimately have "ws_le u w'" "meaningful f" using politeD by auto
        moreover have "ws_le w u" using le Throw by simp
        ultimately show ?thesis using grown ws_le_trans by blast
      qed (use run u 1 le pre in \<open>auto simp: ws_complete_def act_simps\<close>)
    next
      case 2
      let ?n = "wa_con a"
      have n: "unused (ww_con ?w ?n)" "?n \<noteq> c" using assms(3) 2 by (simp_all add: arrival_ok_def)
      have "snd (ws_on_accepted c ?n ok ?w) = Go"
        by (simp add: ws_on_accepted_def act_simps ws_start_def issue_ws_def)
      then have "ws_on_accepted c ?n ok ?w = (w', f)"
        using run 2 by (auto simp: ws_complete_def act_simps split: prod.splits flow.splits)
      then have "ws_le ?w w'" "meaningful f" using accepted_le [OF n, of ok] by simp_all
      moreover have "ws_le w ?w" using con_le_removed [of p] 2 by (simp add: ws_le_def)
      ultimately show ?thesis using grown ws_le_trans by blast
    next
      case 3
      then have "polite (ws_complete E c p ok a)"
        using polite_on_request [OF assms(2)] polite_on_message [OF assms(2)]
        by (cases p) (simp_all add: ws_complete_def)
      then have "polite ?act" by (intro polite_intros)
      moreover have "ws_le w ?w" using con_le_removed [of p] 3 by (simp add: ws_le_def)
      ultimately show ?thesis using politeD [of ?act ?w w' f] run grown ws_le_trans by blast
    qed
  qed
qed

text \<open>
  The states of a process: the application calls operations, calls complete. A thread that
  waits for ever ends the sequence; another thread's view of it is \<open>Lock_Order\<close>.
\<close>

inductive ws_reachable :: "('k, 'u) ws_env \<Rightarrow> ('k, 'u) ws_world \<Rightarrow> ('k, 'u) ws_world \<Rightarrow> bool" for E w0 where
  ws_initial: "ws_reachable E w0 w0"
| ws_call: "ws_reachable E w0 w \<Longrightarrow> polite a \<Longrightarrow> a w = (w', f) \<Longrightarrow> ws_reachable E w0 w'"
| ws_completion: "ws_reachable E w0 w \<Longrightarrow> arrival_ok w c p a \<Longrightarrow> ws_async E c p ok a w = (w', f) \<Longrightarrow> running f
    \<Longrightarrow> ws_reachable E w0 w'"

lemma ws_reachable_le:
  assumes "ws_reachable E w0 w" "quiescent w0" "ws_env_polite E"
  shows "quiescent w \<and> ws_le w0 w"
  using assms
proof (induction rule: ws_reachable.induct)
  case (ws_call w a w' f)
  then show ?case using politeD quiescent_le ws_le_trans by blast
next
  case (ws_completion w c p a ok w' f)
  then show ?case using ws_async_step [of w E c p a ok w' f] quiescent_le ws_le_trans by blast
qed simp

section \<open>Draining the queue\<close>

definition no_arrival :: ws_arrival where
  "no_arrival = \<lparr>wa_con = 0, wa_request = \<lparr>wq_resource = [], wq_protocol = [], wq_headers = [], wq_client_ip = [],
     wq_client_port = 0, wq_server_ip = [], wq_server_port = 0, wq_encrypted = False\<rparr>,
     wa_message = \<lparr>wm_type = Ws_text, wm_content = []\<rparr>\<rparr>"

fun ws_writes :: "('k, 'u) ws_env \<Rightarrow> nat \<Rightarrow> nat \<Rightarrow> ('k, 'u) ws_world act" where
  "ws_writes E c 0 = skip"
| "ws_writes E c (Suc n) = seq (ws_async E c Wp_write True no_arrival) (ws_writes E c n)"

text \<open>No close frame waits, and no callback of the application.\<close>

definition plain_queue :: "'k ws_con \<Rightarrow> bool" where
  "plain_queue x \<longleftrightarrow> (\<forall>(m, cb) \<in> set (wc_queue x). wm_type (wr_message m) \<noteq> Ws_close \<and> (cb = None \<or> cb = Some Ws_nop))"

lemma con_written_fields [simp]:
  "wc_queue (con_written x) = tl (wc_queue x)" "wc_done (con_written x) = wc_done x"
  "wc_locked (con_written x) = wc_locked x"
  by (simp_all add: con_written_defs)

lemma ws_async_write:
  assumes "con_ok (ww_con w c)" "\<not> wc_locked (ww_con w c)" "writing (ww_con w c)" "plain_queue (ww_con w c)"
  shows "ws_async E c Wp_write ok a w = (upd_con c con_written w, Go)"
proof -
  obtain m cb q where q: "wc_queue (ww_con w c) = (m, cb) # q"
    using assms(1,3) by (cases "wc_queue (ww_con w c)") (auto simp: con_ok_def)
  have plain: "wm_type (wr_message m) \<noteq> Ws_close" "run_ws_cb E cb = skip"
    using assms(4) q by (auto simp: plain_queue_def run_ws_cb_def)
  have "(con_written (ww_con w c))\<lparr>wc_locked := False\<rparr> = con_written (ww_con w c)"
    using assms(2) con_written_fields(3) [of "ww_con w c"] by (cases "con_written (ww_con w c)") simp
  then have "release c (popped c w) = (upd_con c con_written w, Go)"
    by (simp add: release_eq popped_def upd_con_def)
  then show ?thesis using send_cb_eq [OF assms(2) q, of E] plain assms(3)
    by (simp add: ws_async_def act_simps ws_complete_def writing_def)
qed

lemma ws_writes_eq:
  assumes "con_ok (ww_con w c)" "\<not> wc_locked (ww_con w c)" "\<not> wc_done (ww_con w c)" "plain_queue (ww_con w c)"
    "n \<le> length (wc_queue (ww_con w c))"
  shows "ws_writes E c n w = (upd_con c (con_written ^^ n) w, Go)"
  using assms
proof (induction n arbitrary: w)
  case 0
  then show ?case by (simp add: act_simps upd_con_def)
next
  case (Suc n)
  let ?w = "upd_con c con_written w"
  have wr: "writing (ww_con w c)" using Suc.prems(1,3,5) by (auto simp: con_ok_def)
  have "plain_queue (con_written (ww_con w c))"
    using Suc.prems(4) by (cases "wc_queue (ww_con w c)") (simp_all add: plain_queue_def)
  then have "ws_writes E c n ?w = (upd_con c (con_written ^^ n) ?w, Go)"
    using Suc.prems con_ok_written [OF Suc.prems(1) wr] by (intro Suc.IH) simp_all
  then show ?case
    using ws_async_write [OF Suc.prems(1,2) wr Suc.prems(4), of E True no_arrival]
    by (simp add: act_simps funpow_Suc_right comp_def del: funpow.simps)
qed

lemma sends_eq:
  assumes "\<not> wc_locked (ww_con w c)" "\<not> wc_done (ww_con w c)"
  shows "for_each ms (\<lambda>(b, s). send_message c b s) w =
    (upd_con c (fold (\<lambda>m. enqueued m None) (map (\<lambda>(b, s). data_response b s) ms)) w, Go)"
  using assms
proof (induction ms arbitrary: w)
  case Nil
  then show ?case by (simp add: act_simps upd_con_def)
next
  case (Cons m ms)
  obtain b s where m: "m = (b, s)" by (cases m)
  then show ?case using Cons by (simp add: act_simps send_message_eq comp_def)
qed

lemma plain_enqueued:
  "plain_queue x \<Longrightarrow> plain_queue (fold (\<lambda>m. enqueued m None) (map (\<lambda>(b, s). data_response b s) ms) x)"
proof (induction ms arbitrary: x)
  case (Cons m ms)
  obtain b s where m: "m = (b, s)" by (cases m)
  have "plain_queue (enqueued (data_response b s) None x)"
    using Cons.prems by (auto simp: plain_queue_def enqueued_def data_response_def)
  then show ?case using Cons.IH m by simp
qed simp

lemma enqueued_all_fields:
  "wc_done (fold (\<lambda>m. enqueued m None) ms x) = wc_done x" "wc_locked (fold (\<lambda>m. enqueued m None) ms x) = wc_locked x"
  by (induction ms arbitrary: x) simp_all

section \<open>Properties\<close>

lemma quiet_env_polite: "(\<And>h c. polite (f h c)) \<Longrightarrow> ws_env_polite (ws_env_with f)"
  by (auto simp: ws_env_polite_def ws_env_with_def intro: polite_intros)

lemma quiet_ws_env_polite: "ws_env_polite quiet_ws_env"
  unfolding quiet_ws_env_def by (rule quiet_env_polite) simp

lemma quiet_world_quiescent: "quiescent (quiet_world u)"
  by (simp add: quiescent_def quiet_world_def new_hub_def quiet_ws_con_def con_ok_def writing_def)

lemma polite_quiescent: "polite a \<Longrightarrow> quiescent w \<Longrightarrow> quiescent (fst (a w))"
  using quiescent_le by (auto simp: polite_def)

text \<open>
  C2. However handlers, calls of the application and completions interleave, every connection
  keeps at most one write outstanding, exactly while its queue is not empty; what was written is
  the beginning of what was queued, in that order, nothing queued is lost or repeated, and no
  mutex stays locked. A completion does nothing undefined.
\<close>

theorem ws_delivery_safe:
  assumes "ws_reachable E w0 w" "quiescent w0" "ws_env_polite E" "arrival_ok w d p a"
  shows "count_list (wc_pending (ww_con w c)) Wp_write \<le> 1 \<and>
    (wc_done (ww_con w c) \<or> (Wp_write \<in> set (wc_pending (ww_con w c)) \<longleftrightarrow> wc_queue (ww_con w c) \<noteq> [])) \<and>
    prefix (wc_wire (ww_con w c)) (queued_total (ww_con w c)) \<and>
    prefix (queued_total (ww_con w0 c)) (queued_total (ww_con w c)) \<and>
    \<not> wc_locked (ww_con w c) \<and> snd (ws_async E d p ok a w) \<noteq> Undefined"
proof -
  have q: "quiescent w" "ws_le w0 w" using ws_reachable_le [OF assms(1-3)] by auto
  obtain w' f where run: "ws_async E d p ok a w = (w', f)" by fastforce
  have "f \<noteq> Undefined"
    using ws_async_step [OF q(1) assms(3,4) run] by (simp add: meaningful_def)
  then show ?thesis using q assms(2) run
    by (auto simp: quiescent_def con_ok_def ws_le_def con_le_def queued_total_def writing_def)
qed

lemma ws_delivery_safe_witness:
  "let w = fst (ws_async quiet_ws_env 3 Wp_write True no_arrival (fst (send_message 3 False ''hi'' quiet_ws_world))) in
   count_list (wc_pending (ww_con w 3)) Wp_write \<le> 1 \<and>
    (wc_done (ww_con w 3) \<or> (Wp_write \<in> set (wc_pending (ww_con w 3)) \<longleftrightarrow> wc_queue (ww_con w 3) \<noteq> [])) \<and>
    prefix (wc_wire (ww_con w 3)) (queued_total (ww_con w 3)) \<and>
    prefix (queued_total (ww_con quiet_ws_world 3)) (queued_total (ww_con w 3)) \<and>
    \<not> wc_locked (ww_con w 3) \<and> snd (ws_async quiet_ws_env 3 Wp_write True no_arrival w) \<noteq> Undefined"
  unfolding Let_def
proof (rule ws_delivery_safe)
  let ?s = "send_message 3 False ''hi'' quiet_ws_world"
  let ?r = "ws_async quiet_ws_env 3 Wp_write True no_arrival (fst ?s)"
  show "quiescent quiet_ws_world" unfolding quiet_ws_world_def by (rule quiet_world_quiescent)
  show "ws_env_polite quiet_ws_env" by (rule quiet_ws_env_polite)
  show "arrival_ok (fst ?r) 3 Wp_write no_arrival" by (simp add: arrival_ok_def)
  have sent: "ws_reachable quiet_ws_env quiet_ws_world (fst ?s)"
    by (rule ws_call [OF ws_initial polite_sends(2)]) (rule prod.collapse [symmetric])
  show "ws_reachable quiet_ws_env quiet_ws_world (fst ?r)"
  proof (rule ws_completion [OF sent])
    show "arrival_ok (fst ?s) 3 Wp_write no_arrival" by (simp add: arrival_ok_def)
    show "?r = (fst ?r, snd ?r)" by simp
    show "running (snd ?r)" by code_simp
  qed
qed

text \<open>
  C19. Messages sent on a connection that is not done arrive behind everything queued before, in
  the order of the calls: after as many completed writes as the queue has entries, all of
  them were written and the queue is empty.
\<close>

theorem ws_delivers_in_order:
  assumes "quiescent w" "\<not> wc_done (ww_con w c)" "plain_queue (ww_con w c)"
    and "w1 = fst (for_each ms (\<lambda>(b, s). send_message c b s) w)"
    and "w2 = fst (ws_writes E c (length (wc_queue (ww_con w1 c))) w1)"
  shows "wc_wire (ww_con w2 c) = queued_total (ww_con w c) @ map (\<lambda>(b, s). data_response b s) ms \<and>
    wc_queue (ww_con w2 c) = [] \<and> (\<forall>d. ww_con w2 d = (if d = c then ww_con w2 c else ww_con w d))"
proof -
  let ?ms = "map (\<lambda>(b, s). data_response b s) ms"
  let ?x = "fold (\<lambda>m. enqueued m None) ?ms (ww_con w c)"
  let ?n = "length (wc_queue ?x)"
  have ok: "con_ok (ww_con w c)" "\<not> wc_locked (ww_con w c)" using assms(1) by (simp_all add: quiescent_def)
  have w1: "w1 = upd_con c (fold (\<lambda>m. enqueued m None) ?ms) w"
    using assms(4) sends_eq [OF ok(2) assms(2)] by simp
  have x: "con_ok ?x" "\<not> wc_locked ?x" "\<not> wc_done ?x" "plain_queue ?x"
    using ok assms(2,3) ws_box.puts [of "ww_con w c" ?ms] plain_enqueued by (simp_all add: enqueued_all_fields)
  have w2: "w2 = upd_con c (con_written ^^ ?n) w1"
    using assms(5) ws_writes_eq [of w1 c ?n E] x w1 by simp
  have "wc_wire ((con_written ^^ ?n) ?x) = queued_total (ww_con w c) @ ?ms"
    by (rule ws_box.delivered) (use ok assms(2) in simp)
  moreover have "wc_queue ((con_written ^^ ?n) ?x) = []"
    using ws_box.steps [of ?x ?n] x by simp
  ultimately show ?thesis using w1 w2 by simp
qed

lemma ws_delivers_in_order_witness:
  "let w1 = fst (for_each [(False, ''a''), (True, ''b'')] (\<lambda>(b, s). send_message 3 b s) quiet_ws_world);
       w2 = fst (ws_writes quiet_ws_env 3 (length (wc_queue (ww_con w1 3))) w1) in
   wc_wire (ww_con w2 3) = queued_total (ww_con quiet_ws_world 3)
      @ map (\<lambda>(b, s). data_response b s) [(False, ''a''), (True, ''b'')] \<and>
    wc_queue (ww_con w2 3) = [] \<and> (\<forall>d. ww_con w2 d = (if d = 3 then ww_con w2 3 else ww_con quiet_ws_world d))"
  unfolding Let_def
proof (rule ws_delivers_in_order [OF _ _ _ refl refl])
  show "quiescent quiet_ws_world" unfolding quiet_ws_world_def by (rule quiet_world_quiescent)
  show "\<not> wc_done (ww_con quiet_ws_world 3)" by code_simp
  show "plain_queue (ww_con quiet_ws_world 3)"
    by (simp add: quiet_ws_world_def quiet_world_def new_hub_def quiet_ws_con_def plain_queue_def)
qed

end
