(* ===== verification/Server.thy ===== *)
theory Server imports Ws_Connection
begin

text \<open>
  \<^verbatim>\<open>src/server.cpp\<close>: building the server, starting its worker threads and shutting it down. One
  thread runs here; that a worker ends once its queue was shut down is what gRPC documents.
\<close>

section \<open>State\<close>

text \<open>
  A worker is its completion queue and whether its thread can be joined. The hub, the router and
  the service exist until the shutdown resets them.
\<close>

record worker =
  wk_shut :: bool
  wk_joinable :: bool

record ('k, 'u) server =
  sv_exit :: bool
  sv_workers :: "worker list"
  sv_running :: bool
  sv_parts :: bool
  sv_log :: "string list"
  sv_ws :: "('k, 'u) ws_world"

text \<open>
  \<^verbatim>\<open>std::stoul\<close>: white space, a sign, digits; what follows is ignored, a negative number wraps.
\<close>

definition is_space :: "char \<Rightarrow> bool" where
  "is_space c \<longleftrightarrow> c = CHR '' '' \<or> (9 :: nat) \<le> of_char c \<and> of_char c \<le> (13 :: nat)"

definition stoul :: "string \<Rightarrow> 64 word result" where
  "stoul str =
     (let s = dropWhile is_space str;
          neg = (s \<noteq> [] \<and> hd s = CHR ''-'');
          t = (if s \<noteq> [] \<and> (hd s = CHR ''-'' \<or> hd s = CHR ''+'') then tl s else s);
          ds = takeWhile is_digit t; n = digits_value ds
      in if ds = [] \<or> 2 ^ 64 \<le> n then Inl (Std_exception ''stoul'')
         else Inr (word_of_int (if neg then - n else n)))"

text \<open>The environment of the process: a variable, and the number of processors.\<close>

definition worker_count :: "string option \<Rightarrow> 32 word \<Rightarrow> 64 word \<Rightarrow> 64 word result" where
  "worker_count env cores opt =
     (if opt = 0 then (case env of Some s \<Rightarrow> stoul s | None \<Rightarrow> Inr (ucast cores)) else Inr opt)"

definition count_log :: "string option \<Rightarrow> 64 word \<Rightarrow> string list" where
  "count_log env opt =
     (if opt = 0 then
        (case env of Some s \<Rightarrow> [''Workercount set by environment'']
         | None \<Rightarrow> [''Workercount not specified, using number of cpu cores''])
      else [])"

definition new_server :: "string option \<Rightarrow> 32 word \<Rightarrow> 64 word \<Rightarrow> ('k, 'u) ws_world \<Rightarrow> ('k, 'u) server result" where
  "new_server env cores opt w =
     ebind (worker_count env cores opt) (\<lambda>n.
       Inr \<lparr>sv_exit = False, sv_workers = replicate (unat n) \<lparr>wk_shut = False, wk_joinable = False\<rparr>,
             sv_running = False, sv_parts = True,
             sv_log = count_log env opt @ [''Using '' @ dec_nat (unat n) @ '' worker threads''], sv_ws = new_hub w\<rparr>)"

text \<open>The constructors from a stream and from a logger leave the number of workers open.\<close>

definition new_server_logger :: "string option \<Rightarrow> 32 word \<Rightarrow> ('k, 'u) ws_world \<Rightarrow> ('k, 'u) server result" where
  "new_server_logger env cores w = new_server env cores 0 w"

section \<open>Starting\<close>

text \<open>
  Assigning a new thread to one that can still be joined ends the process. \<open>ok\<close> tells whether
  \<^verbatim>\<open>BuildAndStart\<close> returned a server.
\<close>

definition upd_worker :: "nat \<Rightarrow> (worker \<Rightarrow> worker) \<Rightarrow> ('k, 'u) server act" where
  "upd_worker i f = modify (\<lambda>v. v\<lparr>sv_workers := (sv_workers v)[i := f (sv_workers v ! i)]\<rparr>)"

definition start_worker :: "nat \<Rightarrow> ('k, 'u) server act" where
  "start_worker i =
     read_state (\<lambda>v. if wk_joinable (sv_workers v ! i) then terminate
       else upd_worker i (\<lambda>k. k\<lparr>wk_joinable := True\<rparr>))"

definition start_server :: "bool \<Rightarrow> ('k, 'u) server act" where
  "start_server ok =
     read_state (\<lambda>v.
       if sv_exit v then throw (Std_exception ''start_server called after shutdown_server'')
       else seq (modify (\<lambda>v. v\<lparr>sv_running := ok\<rparr>))
         (if \<not> ok then throw (Std_exception ''Failed to init server'')
          else for_each [0..<length (sv_workers v)] start_worker))"

section \<open>Shutting down\<close>

definition on_ws :: "('k, 'u) ws_world act \<Rightarrow> ('k, 'u) server act" where
  "on_ws a v = (case a (sv_ws v) of (w, f) \<Rightarrow> (v\<lparr>sv_ws := w\<rparr>, f))"

text \<open>
  A worker that runs the shutdown itself (\<open>self\<close>) cannot join its own thread: \<^verbatim>\<open>join\<close> throws.
\<close>

definition stop_worker :: "nat option \<Rightarrow> nat \<Rightarrow> ('k, 'u) server act" where
  "stop_worker self i =
     seq (upd_worker i (\<lambda>k. k\<lparr>wk_shut := True\<rparr>))
         (read_state (\<lambda>v.
            if wk_joinable (sv_workers v ! i)
            then if self = Some i then throw (Std_exception ''Resource deadlock avoided'')
                 else upd_worker i (\<lambda>k. k\<lparr>wk_joinable := False\<rparr>)
            else skip))"

text \<open>Destroying a queue whose thread can still be joined ends the process.\<close>

definition clear_workers :: "('k, 'u) server act" where
  "clear_workers =
     read_state (\<lambda>v. if list_ex wk_joinable (sv_workers v) then terminate
       else modify (\<lambda>v. v\<lparr>sv_workers := []\<rparr>))"

definition shutdown_server :: "nat option \<Rightarrow> ('k, 'u) server act" where
  "shutdown_server self =
     read_state (\<lambda>v.
       if sv_exit v then skip
       else seq (modify (\<lambda>v. v\<lparr>sv_exit := True, sv_log := sv_log v @ [''Server shutting down'']\<rparr>))
           (seq (on_ws hub_close_all)
           (seq (read_state (\<lambda>v. for_each [0..<length (sv_workers v)] (stop_worker self)))
           (seq clear_workers
                (modify (\<lambda>v. v\<lparr>sv_parts := False, sv_log := sv_log v @ [''Server shutdown done'']\<rparr>))))))"

section \<open>Loops over the workers\<close>

lemma for_each_workers:
  assumes "\<And>i v. i < length (sv_workers v) \<Longrightarrow> P (sv_workers v ! i) \<Longrightarrow> a i v = upd_worker i f v"
    "k \<le> length (sv_workers v)" "\<forall>x \<in> set (drop k (sv_workers v)). P x"
  shows "for_each [k..<length (sv_workers v)] a v =
    (v\<lparr>sv_workers := take k (sv_workers v) @ map f (drop k (sv_workers v))\<rparr>, Go)"
  using assms(2,3)
proof (induction "length (sv_workers v) - k" arbitrary: k v)
  case 0
  then show ?case by (cases v) (simp add: act_simps)
next
  case (Suc n)
  let ?ws = "sv_workers v"
  have k: "k < length ?ws" using Suc.hyps(2) by simp
  then have d: "drop k ?ws = ?ws ! k # drop (Suc k) ?ws" by (simp add: Cons_nth_drop_Suc)
  let ?v = "v\<lparr>sv_workers := ?ws[k := f (?ws ! k)]\<rparr>"
  have one: "a k v = (?v, Go)" using assms(1) [OF k] Suc.prems(2) d by (simp add: upd_worker_def act_simps)
  have "for_each [Suc k..<length (sv_workers ?v)] a ?v =
      (?v\<lparr>sv_workers := take (Suc k) (sv_workers ?v) @ map f (drop (Suc k) (sv_workers ?v))\<rparr>, Go)"
    using Suc.hyps(2) Suc.prems d k by (intro Suc.hyps(1)) simp_all
  then show ?case using one k d
    by (simp add: upt_conv_Cons act_simps take_Suc_conv_app_nth)
qed

lemma start_workers:
  assumes "\<forall>x \<in> set (sv_workers v). \<not> wk_joinable x"
  shows "for_each [0..<length (sv_workers v)] start_worker v =
    (v\<lparr>sv_workers := map (\<lambda>x. x\<lparr>wk_joinable := True\<rparr>) (sv_workers v)\<rparr>, Go)"
  using for_each_workers [of "\<lambda>x. \<not> wk_joinable x" start_worker "\<lambda>x. x\<lparr>wk_joinable := True\<rparr>" 0 v] assms
  by (simp add: start_worker_def act_simps)

lemma stop_workers:
  "for_each [0..<length (sv_workers v)] (stop_worker None) v =
    (v\<lparr>sv_workers := map (\<lambda>x. x\<lparr>wk_shut := True, wk_joinable := False\<rparr>) (sv_workers v)\<rparr>, Go)"
proof -
  have "stop_worker None i u = upd_worker i (\<lambda>x. x\<lparr>wk_shut := True, wk_joinable := False\<rparr>) u"
    if i: "i < length (sv_workers u)" for i and u :: "('a, 'b) server"
    using i by (cases "sv_workers u ! i") (auto simp: stop_worker_def upd_worker_def act_simps)
  then show ?thesis
    using for_each_workers [of "\<lambda>_. True" "stop_worker None" "\<lambda>x. x\<lparr>wk_shut := True, wk_joinable := False\<rparr>" 0 v] by simp
qed

lemma new_server_fields:
  assumes "new_server env cores opt w = Inr v"
  shows "\<not> sv_exit v" "\<forall>x \<in> set (sv_workers v). \<not> wk_joinable x" "sv_ws v = new_hub w"
  using assms by (auto simp: new_server_def ebind_eq_Inr)

lemma shutdown_server_eq:
  assumes "\<not> sv_exit v" "hub_close_all (sv_ws v) = (w', Go)"
  shows "shutdown_server None v =
     (v\<lparr>sv_exit := True, sv_workers := [], sv_parts := False, sv_ws := w',
        sv_log := sv_log v @ [''Server shutting down'', ''Server shutdown done'']\<rparr>, Go)"
  using assms stop_workers [of "v\<lparr>sv_exit := True, sv_log := sv_log v @ [''Server shutting down''], sv_ws := w'\<rparr>"]
  by (simp add: shutdown_server_def clear_workers_def list_ex_iff act_simps on_ws_def)

section \<open>Properties\<close>


text \<open>Starting a server twice ends the process: the thread of the first worker is overwritten while it runs.\<close>

theorem start_twice_terminates:
  assumes "new_server env cores opt w = Inr v" "sv_workers v \<noteq> []"
  shows "snd (start_server True (fst (start_server True v))) = Terminate"
proof -
  note v = new_server_fields [OF assms(1)]
  let ?v1 = "v\<lparr>sv_running := True, sv_workers := map (\<lambda>x. x\<lparr>wk_joinable := True\<rparr>) (sv_workers v)\<rparr>"
  have 1: "start_server True v = (?v1, Go)"
    using start_workers [of "v\<lparr>sv_running := True\<rparr>"] v by (simp add: start_server_def act_simps)
  obtain x xs where "sv_workers ?v1 = x # xs" "wk_joinable x" using assms(2) by (cases "sv_workers v") simp_all
  then show ?thesis using 1 v
    by (simp add: start_server_def act_simps upt_conv_Cons start_worker_def terminate_def del: upt_Suc)
qed

text \<open>
  A handler that shuts the server down from a worker thread gets an exception, since that
  thread cannot join itself. The server is marked as shut down then, so that the destructor
  does nothing more and destroys a thread that can still be joined.
\<close>

theorem worker_shutdown_incomplete:
  assumes "\<not> sv_exit v" "sv_workers v = x # xs" "wk_joinable x" "snd (hub_close_all (sv_ws v)) = Go"
    and "v' = fst (shutdown_server (Some 0) v)"
  shows "snd (shutdown_server (Some 0) v) = Throw (Std_exception ''Resource deadlock avoided'') \<and>
    shutdown_server None v' = (v', Go) \<and> (\<exists>y ys. sv_workers v' = y # ys \<and> wk_joinable y)"
proof -
  obtain w where close: "hub_close_all (sv_ws v) = (w, Go)" using assms(4) by (metis prod.collapse)
  let ?v = "v\<lparr>sv_exit := True, sv_log := sv_log v @ [''Server shutting down''], sv_ws := w\<rparr>"
  have "stop_worker (Some 0) 0 ?v =
      (?v\<lparr>sv_workers := x\<lparr>wk_shut := True\<rparr> # xs\<rparr>, Throw (Std_exception ''Resource deadlock avoided''))"
    using assms(2,3) by (simp add: stop_worker_def upd_worker_def act_simps)
  then have "shutdown_server (Some 0) v =
      (?v\<lparr>sv_workers := x\<lparr>wk_shut := True\<rparr> # xs\<rparr>, Throw (Std_exception ''Resource deadlock avoided''))"
    using assms(1,2) close by (simp add: shutdown_server_def act_simps on_ws_def upt_conv_Cons del: upt_Suc)
  then show ?thesis using assms(3,5) by (simp add: shutdown_server_def act_simps)
qed

section \<open>Witnesses\<close>

definition demo_server :: "(nat, unit) server" where
  "demo_server = \<lparr>sv_exit = False, sv_workers = replicate 2 \<lparr>wk_shut = False, wk_joinable = False\<rparr>,
     sv_running = False, sv_parts = True, sv_log = [''Workercount set by environment'', ''Using 2 worker threads''],
     sv_ws = quiet_ws_world\<rparr>"

lemma new_hub_quiet: "new_hub quiet_ws_world = quiet_ws_world"
  by (simp add: quiet_ws_world_def quiet_world_def new_hub_def)

lemma new_demo_server: "new_server (Some ''2'') 8 0 quiet_ws_world = Inr demo_server"
proof -
  have "stoul ''2'' = Inr 2" "dec_nat (unat (2 :: 64 word)) = ''2''" by code_simp+
  then show ?thesis
    by (simp add: new_server_def worker_count_def count_log_def demo_server_def new_hub_quiet)
qed


lemma start_twice_terminates_witness: "snd (start_server True (fst (start_server True demo_server))) = Terminate"
  by (rule start_twice_terminates [OF new_demo_server]) (simp add: demo_server_def)

lemma worker_shutdown_incomplete_witness:
  "let v = demo_server\<lparr>sv_workers := [\<lparr>wk_shut = False, wk_joinable = True\<rparr>]\<rparr>; v' = fst (shutdown_server (Some 0) v) in
   snd (shutdown_server (Some 0) v) = Throw (Std_exception ''Resource deadlock avoided'') \<and>
    shutdown_server None v' = (v', Go) \<and> (\<exists>y ys. sv_workers v' = y # ys \<and> wk_joinable y)"
  unfolding Let_def
proof (rule worker_shutdown_incomplete [where x = "\<lparr>wk_shut = False, wk_joinable = True\<rparr>" and xs = "[]", OF _ _ _ _ refl])
  show "snd (hub_close_all (sv_ws (demo_server\<lparr>sv_workers := [\<lparr>wk_shut = False, wk_joinable = True\<rparr>]\<rparr>))) = Go" by code_simp
qed (simp_all add: demo_server_def)

end
