(* ===== verification/Router_Properties.thy ===== *)
theory Router_Properties imports Router
begin

text \<open>
  What the router promises: the first matching route is selected with the values of its
  parameters, middleware runs in order and can stop a request, exceptions become responses.
  And where it does not keep a promise: responses that are never finished, exceptions before
  the body is read.
\<close>

section \<open>Selecting a route\<close>

lemma first_match_prefix:
  "\<forall>d \<in> set pre. regex_match (re_regex d) p = None \<Longrightarrow> first_match p (pre @ es) = first_match p es"
  by (induction pre) auto

lemma first_match_Some:
  "first_match p es = Some (e, caps) \<longleftrightarrow>
     (\<exists>pre post. es = pre @ e # post \<and> (\<forall>d \<in> set pre. regex_match (re_regex d) p = None)
        \<and> regex_match (re_regex e) p = Some caps)"
proof (induction es)
  case (Cons d es)
  show ?case
  proof (cases "regex_match (re_regex d) p")
    case None
    have "(\<exists>pre post. d # es = pre @ e # post \<and> (\<forall>d \<in> set pre. regex_match (re_regex d) p = None)
        \<and> regex_match (re_regex e) p = Some caps)
      \<longleftrightarrow> (\<exists>pre post. es = pre @ e # post \<and> (\<forall>d \<in> set pre. regex_match (re_regex d) p = None)
        \<and> regex_match (re_regex e) p = Some caps)" (is "?l \<longleftrightarrow> ?r")
    proof
      assume ?l
      then obtain pre post where pre: "d # es = pre @ e # post" "\<forall>d \<in> set pre. regex_match (re_regex d) p = None"
        "regex_match (re_regex e) p = Some caps" by blast
      then have "pre \<noteq> []" using None by auto
      then obtain pre' where "pre = d # pre'" using pre(1) by (cases pre) auto
      then show ?r using pre by auto
    next
      assume ?r
      then obtain pre post where "es = pre @ e # post" "\<forall>d \<in> set pre. regex_match (re_regex d) p = None"
        "regex_match (re_regex e) p = Some caps" by blast
      then show ?l using None by (intro exI [of _ "d # pre"] exI [of _ post]) auto
    qed
    then show ?thesis using Cons None by simp
  next
    case (Some c)
    then show ?thesis by (auto simp: Cons_eq_append_conv)
  qed
qed simp

lemma first_match_None: "first_match p es = None \<longleftrightarrow> (\<forall>e \<in> set es. regex_match (re_regex e) p = None)"
  by (induction es) (auto split: option.split)

lemma get_parsed_uri_state:
  "get_parsed_uri con w = (w', r) \<Longrightarrow> \<exists>p. w' = w\<lparr>w_parsed := p\<rparr>"
  unfolding get_parsed_uri_def
  by (cases "w_parsed w (object_id con)"; cases "parse_uri (get_resource con w)")
     (auto intro: exI [of _ "w_parsed w"])

lemma route_params_parsed [simp]: "route_params_of (w\<lparr>w_parsed := p\<rparr>) = route_params_of w"
  by (simp add: route_params_of_def)

lemma get_method_parsed [simp]: "get_method (w\<lparr>w_parsed := p\<rparr>) = get_method w"
  by (simp add: get_method_def)

lemma set_route_params_simps [simp]:
  "set_route_params a (set_route_params b v) = set_route_params a v"
  "current_params (set_route_params a v) = a"
  "(set_route_params a v)\<lparr>w_parsed := p\<rparr> = set_route_params a (v\<lparr>w_parsed := p\<rparr>)"
  "w_parsed (set_route_params a v) = w_parsed v"
  "get_method (set_route_params a v) = get_method v"
  "get_resource con (set_route_params a v) = get_resource con v"
proof -
  show "current_params (set_route_params a v) = a" by (simp add: current_params_def)
qed (simp_all add: set_route_params_def set_attribute_def get_method_def)

lemma set_route_params_fields [simp]:
  "w_read_done (set_route_params a v) = w_read_done v" "w_write_locked (set_route_params a v) = w_write_locked v"
  "w_read_locked (set_route_params a v) = w_read_locked v" "w_pending (set_route_params a v) = w_pending v"
  "w_finished (set_route_params a v) = w_finished v" "w_headers_sent (set_route_params a v) = w_headers_sent v"
  "w_resp (set_route_params a v) = w_resp v" "w_wire (set_route_params a v) = w_wire v"
  "w_log (set_route_params a v) = w_log v" "w_user (set_route_params a v) = w_user v"
  by (simp_all add: set_route_params_def)

text \<open>The parameters of a match, as a loop and as a table.\<close>

lemma capture_params_eq:
  "capture_params keys caps m = m ++ map_of (rev (zip keys (map (capture_str caps) [1..<Suc (length keys)])))"
proof -
  have "fold (\<lambda>i m. m(keys ! i \<mapsto> capture_str caps (i + 1))) [0..<n] m
      = m ++ map_of (rev (zip (take n keys) (map (capture_str caps) [1..<Suc n])))" if "n \<le> length keys" for n
    using that
  proof (induction n)
    case (Suc n)
    have "rev (zip (take (Suc n) keys) (map (capture_str caps) [1..<Suc (Suc n)]))
        = (keys ! n, capture_str caps (Suc n)) # rev (zip (take n keys) (map (capture_str caps) [1..<Suc n]))"
      using Suc.prems by (simp add: take_Suc_conv_app_nth)
    then show ?case using Suc by (simp add: fun_upd_def map_add_def fun_eq_iff)
  qed simp
  from this [of "length keys"] show ?thesis by (simp add: capture_params_def)
qed

text \<open>
  C14. Routing takes the first entry registered for the method whose expression matches the
  whole path: entries before it do not match, the captured groups become parameters under the
  entry's keys on top of those already present, and its middleware and handler run under the
  handler for all exceptions.
\<close>

theorem routing_first_match:
  assumes "get_parsed_uri con w = (w', Inr u)"
    and "ri_routes info (get_method w) = Some (pre @ e # post)"
    and "\<forall>d \<in> set pre. regex_match (re_regex d) (path u) = None"
    and "regex_match (re_regex e) (path u) = Some caps"
    and "re_groups e = length (re_keys e)"
  shows "do_routing E info con w =
    try_catch (mw_helper_local E (re_handler e) (re_middleware e) con) (handle_exception E con)
      (set_route_params
        \<lparr>rp_params = rp_params (current_params w)
           ++ map_of (rev (zip (re_keys e) (map (capture_str caps) [1..<Suc (length (re_keys e))]))),
         rp_info = Some info, rp_entry = Some e\<rparr> w')"
proof -
  obtain p where w': "w' = w\<lparr>w_parsed := p\<rparr>" using get_parsed_uri_state [OF assms(1)] by blast
  have "first_match (path u) (pre @ e # post) = Some (e, caps)"
    using assms(3,4) by (simp add: first_match_prefix)
  then have "do_routing E info con w = dispatch E info con e caps w'"
    using assms(1,2) w' by (simp add: do_routing_def)
  also have "\<dots> = try_catch (mw_helper_local E (re_handler e) (re_middleware e) con) (handle_exception E con)
      (set_route_params
        \<lparr>rp_params = capture_params (re_keys e) caps (rp_params (current_params w')),
         rp_info = Some info, rp_entry = Some e\<rparr> w')"
    using assms(5) by (simp add: dispatch_def seq_def modify_def Let_def)
  finally show ?thesis by (simp add: capture_params_eq current_params_def w')
qed

definition catch_all_route :: "route_entry" where
  "catch_all_route =
     \<lparr>re_regex = Rx_rep Rx_any 0 None True, re_groups = 0, re_keys = [], re_middleware = [],
      re_handler = Function_handler [''GET''] [''/''] 1, re_uri = ''/''\<rparr>"

definition demo_info :: routing_info where
  "demo_info = new_router\<lparr>ri_routes := [''GET'' \<mapsto> [catch_all_route]]\<rparr>"

lemma demo_uri: "parse_uri ''/a'' = Inr \<lparr>path = ''/a'', fname = ''a'', ext = [], query = []\<rparr>"
  by code_simp

theorem routing_first_match_witness:
  "\<exists>w'. do_routing demo_env demo_info Http (new_connection () demo_request) = (w', Go)
     \<and> w_log w' = [''handler'']"
proof -
  let ?w = "new_connection () demo_request :: (string, unit) world"
  let ?u = "\<lparr>path = ''/a'', fname = ''a'', ext = [], query = []\<rparr>"
  have parsed: "get_parsed_uri Http ?w = (?w\<lparr>w_parsed := (w_parsed ?w)(0 \<mapsto> ?u)\<rparr>, Inr ?u)"
    by (simp add: get_parsed_uri_def new_connection_def demo_request_def demo_uri)
  have routes: "ri_routes demo_info (get_method ?w) = Some ([] @ catch_all_route # [])"
    by (simp add: demo_info_def get_method_def new_connection_def demo_request_def)
  have "\<exists>caps. regex_match (re_regex catch_all_route) (path ?u) = Some caps"
  proof -
    have "(case regex_match (re_regex catch_all_route) ''/a'' of None \<Rightarrow> False | Some _ \<Rightarrow> True)" by code_simp
    then show ?thesis by (auto split: option.splits)
  qed
  then obtain caps where caps: "regex_match (re_regex catch_all_route) (path ?u) = Some caps" ..
  have "re_groups catch_all_route = length (re_keys catch_all_route)" by (simp add: catch_all_route_def)
  from routing_first_match [OF parsed routes _ caps this]
  show ?thesis
    by (simp add: catch_all_route_def run_handler_def demo_env_def log_line_def act_simps
        set_route_params_def new_connection_def)
qed

section \<open>From the registered pattern to the handler\<close>

text \<open>The state in which a request enters the handler of a route without middleware.\<close>

definition entered ::
    "routing_info \<Rightarrow> route_entry \<Rightarrow> (string \<Rightarrow> string option) \<Rightarrow> uri \<Rightarrow> ('k, 'u) world \<Rightarrow> ('k, 'u) world" where
  "entered info e ps u w =
     set_route_params \<lparr>rp_params = ps, rp_info = Some info, rp_entry = Some e\<rparr>
       (w\<lparr>w_parsed := (w_parsed w)(0 \<mapsto> u)\<rparr>)"

text \<open>
  Functions registered one after another, each for a method and a pattern, and the one a path
  selects: the first of the method whose pattern describes the path, with the values of its
  parameters.
\<close>

fun register :: "ttl \<Rightarrow> (nat \<times> string \<times> string) list \<Rightarrow> routing_info \<Rightarrow> routing_info result" where
  "register T [] info = Inr info"
| "register T ((f, m, pat) # rs) info =
     ebind (route T (function_route_handler f pat m) [] info) (register T rs)"

definition segments :: "ttl \<Rightarrow> string \<Rightarrow> route_match_info list" where
  "segments T pat = map part_spec (ttl_split T pat ''/'')"

fun selected :: "ttl \<Rightarrow> (nat \<times> string \<times> string) list \<Rightarrow> string \<Rightarrow> string
    \<Rightarrow> (nat \<times> string \<times> (string \<times> string) list) option" where
  "selected T [] m p = None"
| "selected T ((f, m', pat) # rs) m p =
     (if m' = m
      then (case match_path (segments T pat) p of
              Some vs \<Rightarrow> Some (f, pat, zip (route_keys (segments T pat)) vs)
            | None \<Rightarrow> selected T rs m p)
      else selected T rs m p)"

definition function_entry :: "ttl \<Rightarrow> nat \<times> string \<times> string \<Rightarrow> route_entry" where
  "function_entry T r = (case r of (f, m, pat) \<Rightarrow>
     \<lparr>re_regex = route_rx (segments T pat), re_groups = length (route_keys (segments T pat)),
      re_keys = route_keys (segments T pat), re_middleware = [],
      re_handler = function_route_handler f pat m, re_uri = pat\<rparr>)"

lemma segments_ok:
  "ttl_split_ok T \<Longrightarrow> literals_ok (segments T pat)"
  by (rule parse_route_literals [of T pat]) (simp_all add: parse_route_eq segments_def)

lemma register_one:
  assumes T: "ttl_replace_ok T" "ttl_join_ok T" and ok: "exprs_ok (segments T pat)"
  shows "route T (function_route_handler f pat m) [] info = Inr (push_route m (function_entry T (f, m, pat)) info)"
proof -
  have "make_entry T (function_route_handler f pat m) [] pat = Inr (function_entry T (f, m, pat))"
    using rx_compile_route [OF T ok, of "[]"]
    by (simp add: make_entry_def parse_route_eq build_route_regex_eq [OF T(2)] function_entry_def flip: segments_def)
  then show ?thesis
    by (simp add: route_def function_route_handler_def get_methods_def get_routes_def)
qed

text \<open>Every method has its entries in the order of registration; nothing else changed.\<close>

definition entries_of :: "routing_info \<Rightarrow> string \<Rightarrow> route_entry list" where
  "entries_of info m = (case ri_routes info m of None \<Rightarrow> [] | Some es \<Rightarrow> es)"

lemma register_all:
  assumes T: "ttl_replace_ok T" "ttl_join_ok T" and ok: "\<forall>(f, m, pat) \<in> set rs. exprs_ok (segments T pat)"
  shows "\<exists>info'. register T rs info = Inr info' \<and> ri_middleware info' = ri_middleware info
    \<and> ri_notfound info' = ri_notfound info
    \<and> (\<forall>m. entries_of info' m = entries_of info m @ map (function_entry T) (filter (\<lambda>r. fst (snd r) = m) rs))"
  using ok
proof (induction rs arbitrary: info)
  case (Cons r rs)
  obtain f m pat where r: "r = (f, m, pat)" by (cases r)
  let ?info = "push_route m (function_entry T r) info"
  have "route T (function_route_handler f pat m) [] info = Inr ?info"
    using register_one [OF T, of pat f m info] Cons.prems r by simp
  moreover have "entries_of ?info k = entries_of info k @ (if k = m then [function_entry T r] else [])" for k
    by (auto simp: entries_of_def push_route_def split: option.split)
  moreover have "ri_middleware ?info = ri_middleware info" "ri_notfound ?info = ri_notfound info"
    by (simp_all add: push_route_def)
  moreover obtain info' where "register T rs ?info = Inr info'" "ri_middleware info' = ri_middleware ?info"
    "ri_notfound info' = ri_notfound ?info"
    "\<forall>m. entries_of info' m = entries_of ?info m @ map (function_entry T) (filter (\<lambda>r. fst (snd r) = m) rs)"
    using Cons.IH [of ?info] Cons.prems by auto
  ultimately show ?case by (auto simp: r)
qed (simp add: entries_of_def)

lemma first_match_selected:
  assumes "ttl_split_ok T" "\<forall>(f, m, pat) \<in> set rs. exprs_ok (segments T pat)"
  shows "case selected T rs m p of
     None \<Rightarrow> first_match p (map (function_entry T) (filter (\<lambda>r. fst (snd r) = m) rs)) = None
   | Some (f, pat, kvs) \<Rightarrow> \<exists>vs. match_path (segments T pat) p = Some vs \<and> kvs = zip (route_keys (segments T pat)) vs \<and>
       exprs_ok (segments T pat) \<and>
       first_match p (map (function_entry T) (filter (\<lambda>r. fst (snd r) = m) rs)) =
         Some (function_entry T (f, m, pat), put_captures 0 vs (\<lambda>_. None))"
  using assms(2)
proof (induction rs)
  case (Cons r rs)
  obtain f m' pat where r: "r = (f, m', pat)" by (cases r)
  have ok: "exprs_ok (segments T pat)" using Cons.prems r by simp
  have match: "regex_match (re_regex (function_entry T (f, m, pat))) p =
      map_option (\<lambda>vs. put_captures 0 vs (\<lambda>_. None)) (match_path (segments T pat) p)"
    using regex_match_route [OF ok segments_ok [OF assms(1)]] by (simp add: function_entry_def)
  have "\<forall>(f, m, pat) \<in> set rs. exprs_ok (segments T pat)" using Cons.prems by simp
  note IH = Cons.IH [OF this]
  let ?fs = "\<lambda>rs. first_match p (map (function_entry T) (filter (\<lambda>r. fst (snd r) = m) rs))"
  show ?case
  proof (cases "m' = m \<and> match_path (segments T pat) p \<noteq> None")
    case True
    then obtain vs where "match_path (segments T pat) p = Some vs" by auto
    then show ?thesis using True match ok by (simp add: r)
  next
    case False
    then have "selected T (r # rs) m p = selected T rs m p" "?fs (r # rs) = ?fs rs"
      using match by (auto simp: r)
    then show ?thesis using IH by (simp only:)
  qed
qed simp

text \<open>
  C1. End to end: with any functions registered on a new router, each for a method and a
  pattern, a request enters the first one registered for its method whose pattern describes
  the path of the request, with exactly the parameters that comparing the path with this
  pattern segment by segment yields, under the pattern as the selected route; when no pattern
  of the method describes the path it is answered with status 404. The expressions of
  parameters have to compile alone, without captures and anchors, and must not be able to read
  a slash; they are matched with the question mark that \<^verbatim>\<open>build_route_regex\<close> appends, which
  makes the last term of an expression that does not end in a quantifier optional (so
  \<^verbatim>\<open>{id:[0-9]}\<close> takes an empty segment, see \<open>regex_parameter_optional\<close>).
\<close>

theorem route_end_to_end:
  fixes w :: "('k, 'u) world"
  assumes T: "ttl_replace_ok T" "ttl_join_ok T" "ttl_split_ok T"
    and ok: "\<forall>(f, m, pat) \<in> set rs. exprs_ok (segments T pat)"
    and uri: "parse_uri (get_resource Http w) = Inr u" "w_parsed w 0 = None"
  shows "\<exists>info. register T rs new_router = Inr info \<and>
    (case selected T rs (get_method w) (path u) of
       None \<Rightarrow> rs_status (w_resp (fst (on_request E info Http w))) = 404 \<and> snd (on_request E info Http w) = Go
     | Some (f, pat, kvs) \<Rightarrow> \<exists>e. re_uri e = pat \<and>
         on_request E info Http w =
         try_catch (try_catch (e_handler E f Http) (handle_exception E Http)) (handle_exception E Http)
           (entered info e (map_of (rev kvs)) u w))"
proof -
  obtain info where reg: "register T rs new_router = Inr info" "ri_middleware info = []" "ri_notfound info = None"
    "entries_of info (get_method w) = map (function_entry T) (filter (\<lambda>r. fst (snd r) = get_method w) rs)"
    using register_all [OF T(1,2) ok, of new_router] by (auto simp: new_router_def entries_of_def)
  let ?ps = "\<lparr>rp_params = Map.empty, rp_info = Some info, rp_entry = None\<rparr>"
  define w0 where "w0 = set_route_params ?ps w"
  have "get_resource Http w0 = get_resource Http w" "w_parsed w0 0 = None" and meth: "get_method w0 = get_method w"
    using uri(2) by (simp_all add: w0_def del: get_resource.simps)
  then have parsed: "get_parsed_uri Http w0 = (w0\<lparr>w_parsed := (w_parsed w0)(0 \<mapsto> u)\<rparr>, Inr u)"
    using uri(1) by (simp_all add: get_parsed_uri_def)
  have global: "on_request E info Http w =
      try_catch (do_routing E info Http) (handle_exception E Http) w0"
    by (simp add: on_request_def seq_def modify_def w0_def reg(2))
  have routing: "do_routing E info Http w0 =
      (case first_match (path u) (entries_of info (get_method w)) of
         None \<Rightarrow> call_notfound E info Http (w0\<lparr>w_parsed := (w_parsed w0)(0 \<mapsto> u)\<rparr>)
       | Some (e, caps) \<Rightarrow> dispatch E info Http e caps (w0\<lparr>w_parsed := (w_parsed w0)(0 \<mapsto> u)\<rparr>))"
    using parsed meth by (simp add: do_routing_def get_method_def entries_of_def split: option.split)
  note sel = first_match_selected [OF T(3) ok, where m = "get_method w" and p = "path u", folded reg(4)]
  show ?thesis
  proof (intro exI [of _ info] conjI, rule reg(1), cases "selected T rs (get_method w) (path u)")
    case None
    then have "do_routing E info Http w0 = set_status 404 [] (w0\<lparr>w_parsed := (w_parsed w0)(0 \<mapsto> u)\<rparr>)"
      using routing sel reg(3) by (simp add: call_notfound_def)
    then show "case selected T rs (get_method w) (path u) of
       None \<Rightarrow> rs_status (w_resp (fst (on_request E info Http w))) = 404 \<and> snd (on_request E info Http w) = Go
     | Some (f, pat, kvs) \<Rightarrow> \<exists>e. re_uri e = pat \<and>
         on_request E info Http w =
         try_catch (try_catch (e_handler E f Http) (handle_exception E Http)) (handle_exception E Http)
           (entered info e (map_of (rev kvs)) u w)"
      using None by (simp add: global act_simps set_status_def)
  next
    case (Some r)
    obtain f pat kvs where r: "r = (f, pat, kvs)" by (cases r)
    let ?e = "function_entry T (f, get_method w, pat)"
    obtain vs where vs: "match_path (segments T pat) (path u) = Some vs" "kvs = zip (route_keys (segments T pat)) vs"
        "exprs_ok (segments T pat)"
      and first: "first_match (path u) (entries_of info (get_method w)) = Some (?e, put_captures 0 vs (\<lambda>_. None))"
      using sel Some r by auto
    have caps: "map (capture_str (put_captures 0 vs (\<lambda>_. None))) [1..<Suc (length (route_keys (segments T pat)))] = vs"
      by (rule captures_of_match [OF vs(3,1) refl])
    have "do_routing E info Http w0 = dispatch E info Http ?e (put_captures 0 vs (\<lambda>_. None))
        (w0\<lparr>w_parsed := (w_parsed w0)(0 \<mapsto> u)\<rparr>)"
      using routing first by simp
    also have "\<dots> = try_catch (e_handler E f Http) (handle_exception E Http) (entered info ?e (map_of (rev kvs)) u w)"
      using caps vs(2)
      by (simp add: dispatch_def seq_def modify_def Let_def capture_params_eq entered_def w0_def function_entry_def
          function_route_handler_def run_handler_def del: upt_Suc)
    finally have "on_request E info Http w =
        try_catch (try_catch (e_handler E f Http) (handle_exception E Http)) (handle_exception E Http)
          (entered info ?e (map_of (rev kvs)) u w)"
      by (simp add: global try_catch_def)
    then show "case selected T rs (get_method w) (path u) of
       None \<Rightarrow> rs_status (w_resp (fst (on_request E info Http w))) = 404 \<and> snd (on_request E info Http w) = Go
     | Some (f, pat, kvs) \<Rightarrow> \<exists>e. re_uri e = pat \<and>
         on_request E info Http w =
         try_catch (try_catch (e_handler E f Http) (handle_exception E Http)) (handle_exception E Http)
           (entered info e (map_of (rev kvs)) u w)"
      using Some r by (simp, intro exI [of _ ?e]) (simp add: function_entry_def)
  qed
qed

text \<open>Four routes: one of another method, one that does not describe the path, and two that do.\<close>

definition demo_routes :: "(nat \<times> string \<times> string) list" where
  "demo_routes = [(5, ''POST'', ''/{all}''), (2, ''GET'', ''/{n:[0-9]+}''), (1, ''GET'', ''/{id:[a-z]+}''),
     (3, ''GET'', ''/{rest}'')]"

theorem route_end_to_end_witness:
  "\<exists>info. register ttl_ref demo_routes new_router = Inr info \<and>
     (\<exists>e. re_uri e = ''/{id:[a-z]+}'' \<and> on_request demo_env info Http (new_connection () demo_request) =
       try_catch (try_catch (e_handler demo_env 1 Http) (handle_exception demo_env Http)) (handle_exception demo_env Http)
         (entered info e [''id'' \<mapsto> ''a''] \<lparr>path = ''/a'', fname = ''a'', ext = [], query = []\<rparr> (new_connection () demo_request)))"
proof -
  let ?w = "new_connection () demo_request :: (string, unit) world"
  have ok: "\<forall>(f, m, pat) \<in> set demo_routes. exprs_ok (segments ttl_ref pat)" by code_simp
  have uri: "parse_uri (get_resource Http ?w) = Inr \<lparr>path = ''/a'', fname = ''a'', ext = [], query = []\<rparr>" "w_parsed ?w 0 = None"
    by (simp_all add: new_connection_def demo_request_def demo_uri)
  have sel: "selected ttl_ref demo_routes ''GET'' ''/a'' = Some (1, ''/{id:[a-z]+}'', [(''id'', ''a'')])" by code_simp
  have meth: "get_method ?w = ''GET''" by (simp add: get_method_def new_connection_def demo_request_def)
  show ?thesis
    using route_end_to_end [OF ttl_ref_ok ttl_ref_split_ok ok uri, of demo_env] sel meth
    by simp
qed

section \<open>Middleware\<close>

text \<open>
  C24. A router that was built by registering middleware that passes the request on runs it in
  the order of position, then of registration, each exactly once, and routes afterwards.
\<close>

theorem middleware_order:
  fixes E :: "('k, 'u) env" and A :: "nat \<Rightarrow> ('k, 'u) world act" and regs :: "(pos \<times> nat) list"
  assumes "\<And>f con next. e_mw E f con next = seq (A f) (next con)"
  defines "info \<equiv> fold (\<lambda>(p, f). use (User_mw f) p) regs new_router"
  shows "mw_helper_global E info (ri_middleware info) con =
    foldr (\<lambda>f. seq (A f)) (map snd (sort_key fst regs)) (do_routing E info con)"
proof -
  have "ri_middleware (fold (\<lambda>(p, f). use (User_mw f) p) regs i) =
      fold (\<lambda>(p, f). mm_insert p (User_mw f)) regs (ri_middleware i)" for i
    by (induction regs arbitrary: i) (auto simp: use_def)
  then have "ri_middleware info = fold (\<lambda>(p, m). mm_insert p m) (map (\<lambda>(p, f). (p, User_mw f)) regs) []"
    by (simp add: info_def new_router_def fold_map comp_def split_def)
  also have "\<dots> = sort_key fst (map (\<lambda>(p, f). (p, User_mw f)) regs)" by (rule mm_insert_fold)
  also have "\<dots> = map (\<lambda>(p, f). (p, User_mw f)) (sort_key fst regs)"
  proof -
    have "map g (insort_key fst x xs) = insort_key fst (g x) (map g xs)"
      if "\<And>y. fst (g y) = fst y" for g :: "pos \<times> nat \<Rightarrow> pos \<times> middleware" and x xs
      using that by (induction xs) auto
    from this [of "\<lambda>(p, f). (p, User_mw f)"] show ?thesis
      by (induction regs) (auto simp: case_prod_beta)
  qed
  finally have mws: "ri_middleware info = map (\<lambda>(p, f). (p, User_mw f)) (sort_key fst regs)" .
  have "mw_helper_global E i (map (\<lambda>(p, f). (p, User_mw f)) xs) con =
      foldr (\<lambda>f. seq (A f)) (map snd xs) (do_routing E i con)" for i xs
    by (induction xs) (auto simp: run_mw_def assms(1))
  then show ?thesis by (simp add: mws)
qed

theorem middleware_order_witness:
  "\<exists>w'. mw_helper_global (quiet_env\<lparr>e_mw := \<lambda>f con next. seq (log_line [char_of f]) (next con)\<rparr>)
     (fold (\<lambda>(p, f). use (User_mw f) p) [(Default, 97), (Begin, 98), (Default, 99)] new_router)
     (ri_middleware (fold (\<lambda>(p, f). use (User_mw f) p) [(Default, 97), (Begin, 98), (Default, 99)] new_router))
     Http (new_connection 0 demo_request) = (w', Go) \<and> w_log w' = [''b'', ''a'', ''c'']"
proof -
  let ?E = "quiet_env\<lparr>e_mw := \<lambda>f con next. seq (log_line [char_of f]) (next con)\<rparr>"
  have mw: "e_mw ?E f con next = seq (log_line [char_of f]) (next con)" for f con "next" by simp
  have sorted: "map snd (sort_key fst [(Default, 97), (Begin, 98), (Default, 99)]) = [98, 97, 99 :: nat]"
    by code_simp
  let ?w = "new_connection 0 demo_request :: (string, nat) world"
  have "get_parsed_uri Http (?w\<lparr>w_log := l\<rparr>) =
     (?w\<lparr>w_log := l, w_parsed := [0 \<mapsto> \<lparr>path = ''/a'', fname = ''a'', ext = [], query = []\<rparr>]\<rparr>,
      Inr \<lparr>path = ''/a'', fname = ''a'', ext = [], query = []\<rparr>)" for l
    by (simp add: get_parsed_uri_def new_connection_def demo_request_def demo_uri)
  moreover have "char_of (98 :: nat) = CHR ''b''" "char_of (97 :: nat) = CHR ''a''" "char_of (99 :: nat) = CHR ''c''"
    by code_simp+
  ultimately show ?thesis
    unfolding middleware_order [where E = ?E and A = "\<lambda>f. log_line [char_of f]", OF mw] sorted
    by (simp add: log_line_def act_simps do_routing_def new_router_def use_def call_notfound_def
        set_status_def new_connection_def Let_def mm_insert_def less_eq_pos_def)
qed

text \<open>
  A middleware that does not pass the request on ends it: what is registered behind it,
  the routes and their handlers have no influence on the outcome.
\<close>

theorem middleware_short_circuit:
  assumes "\<And>con next next'. e_mw E f con next = e_mw E f con next'"
  shows "mw_helper_global E info (pre @ (p, User_mw f) # post) con =
    mw_helper_global E info' (pre @ (p, User_mw f) # post') con"
proof (induction pre arbitrary: con)
  case Nil
  then show ?case
    using assms [of con "mw_helper_global E info post" "mw_helper_global E info' post'"]
    by (simp add: run_mw_def)
next
  case (Cons m pre)
  then have "mw_helper_global E info (pre @ (p, User_mw f) # post) =
      mw_helper_global E info' (pre @ (p, User_mw f) # post')" by (rule ext)
  then show ?case by simp
qed

theorem middleware_short_circuit_witness:
  "mw_helper_global (quiet_env\<lparr>e_mw := \<lambda>_ _ _. set_status 401 []\<rparr>) demo_info ([] @ (Begin, User_mw 0) # []) Http
   = mw_helper_global (quiet_env\<lparr>e_mw := \<lambda>_ _ _. set_status 401 []\<rparr>) new_router
       ([] @ (Begin, User_mw 0) # [(Last, Logger_mw)]) Http"
  by (rule middleware_short_circuit) simp

section \<open>Exceptions and errors\<close>

text \<open>What a request leaves when nothing handles a missing route.\<close>

text \<open>
  C33. Without a notfound handler, a request for which no route exists gets the status 404 set
  and nothing else: nothing is sent, nothing is pending and the response is never finished,
  so the client waits for ever. (A handler that throws the notfound exception instead does
  reach \<^verbatim>\<open>end\<close>.)
\<close>

theorem notfound_never_finished:
  assumes "ri_middleware info = []" "ri_notfound info = None"
    and "w_parsed w 0 = None" "parse_uri (get_resource Http w) = Inr u"
    and "case ri_routes info (get_method w) of None \<Rightarrow> True
         | Some es \<Rightarrow> \<forall>e \<in> set es. regex_match (re_regex e) (path u) = None"
  shows "\<exists>w'. on_request E info Http w = (w', Go) \<and> rs_status (w_resp w') = 404
    \<and> w_wire w' = w_wire w \<and> w_pending w' = w_pending w \<and> w_finished w' = w_finished w
    \<and> w_headers_sent w' = w_headers_sent w"
proof -
  let ?w0 = "set_route_params \<lparr>rp_params = Map.empty, rp_info = Some info, rp_entry = None\<rparr> w"
  have parsed: "get_parsed_uri Http ?w0 = (?w0\<lparr>w_parsed := (w_parsed ?w0)(0 \<mapsto> u)\<rparr>, Inr u)"
    using assms(3,4) by (simp add: get_parsed_uri_def)
  have "do_routing E info Http ?w0 = set_status 404 [] (?w0\<lparr>w_parsed := (w_parsed ?w0)(0 \<mapsto> u)\<rparr>)"
  proof (cases "ri_routes info (get_method w)")
    case None
    then show ?thesis using parsed assms(2) by (simp add: do_routing_def call_notfound_def)
  next
    case (Some es)
    then have "first_match (path u) es = None" using assms(5) first_match_None by simp
    then show ?thesis using parsed assms(2) Some by (simp add: do_routing_def call_notfound_def)
  qed
  then show ?thesis
    using assms(1) by (simp add: on_request_def act_simps set_status_def set_route_params_def)
qed

theorem notfound_never_finished_witness:
  "\<exists>w'. on_request demo_env new_router Http (new_connection () demo_request) = (w', Go)
    \<and> rs_status (w_resp w') = 404 \<and> w_wire w' = [] \<and> w_pending w' = [] \<and> \<not> w_finished w'"
proof -
  let ?w = "new_connection () demo_request :: (string, unit) world"
  have "ri_middleware new_router = []" "ri_notfound new_router = None" "w_parsed ?w 0 = None"
    "parse_uri (get_resource Http ?w) = Inr \<lparr>path = ''/a'', fname = ''a'', ext = [], query = []\<rparr>"
    "case ri_routes new_router (get_method ?w) of None \<Rightarrow> True
         | Some es \<Rightarrow> \<forall>e \<in> set es. regex_match (re_regex e)
             (path \<lparr>path = ''/a'', fname = ''a'', ext = [], query = []\<rparr>) = None"
    by (simp_all add: new_router_def new_connection_def demo_request_def demo_uri)
  from notfound_never_finished [where E = demo_env, OF this]
  obtain w' where "on_request demo_env new_router Http ?w = (w', Go)" "rs_status (w_resp w') = 404"
    "w_wire w' = w_wire ?w" "w_pending w' = w_pending ?w" "w_finished w' = w_finished ?w" by blast
  then show ?thesis by (intro exI [of _ w']) (simp add: new_connection_def)
qed

text \<open>
  C32. An exception that reaches the router before the request body was read is answered, but
  the answer is written without the write mutex: its completion unlocks a mutex that is not
  locked. Every handler that throws without reading the body first, and every resource that
  is no valid URI, ends in undefined behaviour this way.
\<close>

theorem exception_before_read_undefined:
  assumes "route_params_of w = Some ps" "rp_info ps = Some info"
    and "ri_notfound info = None" "ri_error info = None" "e \<noteq> Undefined_behaviour"
    and "\<not> w_read_done w" "\<not> w_write_locked w" "w_pending w = []" "\<not> w_finished w" "\<not> w_headers_sent w"
  shows "\<exists>w'. handle_exception E Http e w = (w', Go) \<and> w_finished w'
    \<and> (\<exists>r. w_wire w' = w_wire w @ [W_write_finish r]
         \<and> rs_status r = (case e of Http_exception c _ \<Rightarrow> c | _ \<Rightarrow> 500))
    \<and> snd (async_step E 0 ok x w') = Undefined"
proof -
  have "\<exists>r. respond_exception E Http ps e w = (w\<lparr>w_resp := r\<rparr>, Go)
      \<and> rs_status r = (case e of Http_exception c _ \<Rightarrow> c | _ \<Rightarrow> 500)"
    using assms(2-5)
    by (cases e) (auto simp: respond_exception_def with_info_def call_notfound_def call_error_def debug_header_def
        set_status_def base_set_header_def act_simps Let_def)
  then obtain r where r: "respond_exception E Http ps e w = (w\<lparr>w_resp := r\<rparr>, Go)"
    "rs_status r = (case e of Http_exception c _ \<Rightarrow> c | _ \<Rightarrow> 500)" by blast
  let ?w = "w\<lparr>w_finished := True, w_write_locked := False, w_resp := r\<lparr>rs_content := []\<rparr>,
      w_pending := [P_write_finish (Done_cb (Some Nop_cb))],
      w_wire := w_wire w @ [W_write_finish (r\<lparr>rs_content := []\<rparr>)]\<rparr>"
  have "end_quietly (e_ttl E) Http (w\<lparr>w_resp := r\<rparr>) = (?w, Go)"
    using assms(6-10)
    by (simp add: end_quietly_def con_end_def base_end_def lock_write_def early_write_def unlock_write_def
        transmit_def issue_def act_simps)
  then have "handle_exception E Http e w = (?w, Go)"
    using assms(1,9) r by (simp add: handle_exception_def act_simps is_finished_def)
  moreover have "snd (async_step E 0 ok x ?w) = Undefined"
    by (simp add: async_step_def remove_nth_def complete_def unlock_write_def act_simps)
  ultimately show ?thesis using r(2) by (intro exI [of _ ?w]) simp
qed

theorem exception_before_read_undefined_witness:
  "\<exists>w'. handle_exception demo_env Http (Http_exception 403 ''Forbidden'')
      (set_route_params \<lparr>rp_params = Map.empty, rp_info = Some demo_info, rp_entry = None\<rparr> (new_connection () demo_request))
      = (w', Go) \<and> w_finished w' \<and> snd (async_step demo_env 0 True [] w') = Undefined"
proof -
  let ?ps = "\<lparr>rp_params = Map.empty, rp_info = Some demo_info, rp_entry = None\<rparr>"
  let ?w = "set_route_params ?ps (new_connection () demo_request :: (string, unit) world)"
  have "route_params_of ?w = Some ?ps" "rp_info ?ps = Some demo_info"
    "ri_notfound demo_info = None" "ri_error demo_info = None" "Http_exception 403 ''Forbidden'' \<noteq> Undefined_behaviour"
    "\<not> w_read_done ?w" "\<not> w_write_locked ?w" "w_pending ?w = []" "\<not> w_finished ?w" "\<not> w_headers_sent ?w"
    by (simp_all add: demo_info_def new_router_def new_connection_def)
  from exception_before_read_undefined [OF this, of demo_env] show ?thesis by blast
qed

end
