(* ===== verification/Serve_Dir.thy ===== *)
theory Serve_Dir imports Router_Properties
begin

text \<open>
  The route that \<^verbatim>\<open>router::serve_dir\<close> registers (\<^verbatim>\<open>src/http/router.cpp\<close>), from end to end: its
  regular expression, the parameter it captures, and what
  \<^verbatim>\<open>src/http/route/filesystem_route_handler.cpp\<close> sends for a file. The pattern is that of a
  directory of literal segments and the parameter \<^verbatim>\<open>{fs_path:.*}\<close> behind it.
\<close>

section \<open>The regular expression\<close>

definition fs_part :: route_match_info where
  "fs_part = \<lparr>type_t = T_regex, param_name = ''fs_path'', equals_str = ''.*''\<rparr>"

definition all_literal :: "route_match_info list \<Rightarrow> bool" where
  "all_literal lits \<longleftrightarrow> (\<forall>e \<in> set lits. type_t e = T_equals)"

text \<open>The path every request below the directory starts with.\<close>

definition dir_prefix :: "route_match_info list \<Rightarrow> string" where
  "dir_prefix lits = ''/'' @ concat (map (\<lambda>e. equals_str e @ ''/'') lits)"

definition rest_rx :: rx where
  "rest_rx = Rx_group (Some 1) (seq_of [Rx_rep Rx_any 0 None False])"

definition serve_rx :: "route_match_info list \<Rightarrow> rx" where
  "serve_rx lits = seq_of (Rx_bol # map Rx_char (dir_prefix lits) @ [rest_rx, Rx_eol])"

lemma join_with_snoc: "join_with d (ws @ [w]) = concat (map (\<lambda>v. v @ d) ws) @ w"
  by (induction ws rule: induct_list012) simp_all

lemma feed_literals:
  assumes "all_literal lits" "mode st = Normal" "ttl_replace_ok T"
  shows "rx_feed st (concat (map (\<lambda>v. v @ [CHR 0x5C, CHR ''/'']) (map (\<lambda>e. fst (build_part T e)) lits))) =
    Inr (add_items st (map Rx_char (concat (map (\<lambda>e. equals_str e @ ''/'') lits))))"
  using assms
proof (induction lits arbitrary: st)
  case (Cons e es)
  have "fst (build_part T e) = escape_set (set escaped_chars) (equals_str e)"
    using Cons.prems by (simp add: all_literal_def build_part_def escape_loop_eq)
  then show ?case
    using Cons.prems Cons.IH [of "add_item (add_items st (map Rx_char (equals_str e))) (Rx_char (CHR ''/'')) Q_atom"]
    by (simp add: all_literal_def rx_feed_append feed_literal feed_escaped add_items_append del: rx_feed.simps(2))
qed simp

lemma feed_rest:
  assumes "mode st = Normal" "ngroups st = 0"
  shows "rx_feed st (fst (build_part T fs_part)) = Inr (add_item (st\<lparr>ngroups := 1\<rparr>) rest_rx Q_atom)"
  using assms
  by (simp add: build_part_def fs_part_def feed_class rest_rx_def step_normal_def)

lemma rx_compile_serve:
  assumes "ttl_replace_ok T" "ttl_join_ok T" "all_literal lits"
  shows "build_route_regex T (lits @ [fs_part]) [] = (fst (build_route_regex T (lits @ [fs_part]) []), [''fs_path''])"
    and "rx_compile (fst (build_route_regex T (lits @ [fs_part]) [])) = Inr (serve_rx lits, 1)"
proof -
  have "route_keys lits = []"
    using assms(3) by (induction lits) (auto simp: route_keys_def part_keys_def all_literal_def)
  then have keys: "route_keys (lits @ [fs_part]) = [''fs_path'']"
    by (simp add: route_keys_def part_keys_def fs_part_def)
  then show "build_route_regex T (lits @ [fs_part]) [] = (fst (build_route_regex T (lits @ [fs_part]) []), [''fs_path''])"
    by (simp add: build_route_regex_eq [OF assms(2)])
  define st where "st = add_item (add_item rx_init Rx_bol Q_none) (Rx_char (CHR ''/'')) Q_atom"
  define body where "body = concat (map (\<lambda>v. v @ [CHR 0x5C, CHR ''/'']) (map (\<lambda>e. fst (build_part T e)) lits))"
  have st: "mode st = Normal" "ngroups st = 0" "frames st = []"
    "cur st = \<lparr>f_group = None, f_alts = None, f_items = [Rx_char (CHR ''/''), Rx_bol]\<rparr>"
    by (simp_all add: st_def rx_init_def empty_frame_def)
  let ?st = "add_items st (map Rx_char (concat (map (\<lambda>e. equals_str e @ ''/'') lits)))"
  have whole: "fst (build_route_regex T (lits @ [fs_part]) []) =
      ''^'' @ [CHR 0x5C] @ ''/'' @ body @ fst (build_part T fs_part) @ ''$''"
    by (simp add: build_route_regex_eq [OF assms(2)] join_with_snoc body_def)
  have start: "rx_feed rx_init (''^'' @ [CHR 0x5C] @ ''/'' @ s) = rx_feed st s" for s
    unfolding append_Cons append_Nil
    by (subst rx_feed.simps(2))
       (simp add: st_def rx_step_def step_normal_special rx_init_def feed_escaped del: rx_feed.simps(2))
  have "rx_feed st body = Inr ?st"
    unfolding body_def by (rule feed_literals [OF assms(3) st(1) assms(1)])
  then have "rx_feed rx_init (fst (build_route_regex T (lits @ [fs_part]) [])) =
      Inr (add_item (add_item (?st\<lparr>ngroups := 1\<rparr>) rest_rx Q_atom) Rx_eol Q_none)"
    unfolding whole start
    by (simp add: rx_feed_append feed_rest st rx_step_def step_normal_special del: rx_feed.simps(2))
       (simp add: rx_step_def step_normal_special)
  then show "rx_compile (fst (build_route_regex T (lits @ [fs_part]) [])) = Inr (serve_rx lits, 1)"
    by (simp add: rx_compile_def st finish_frame_def alt_of_def serve_rx_def dir_prefix_def)
qed

section \<open>Matching\<close>

text \<open>A lazy \<^verbatim>\<open>.*\<close> in front of the end takes all that is left, unless a line ends in it.\<close>

definition one_line :: "string \<Rightarrow> bool" where
  "one_line s \<longleftrightarrow> list_all any_matches s"

lemma run_lazy_any:
  assumes "\<And>s' c'. s' \<noteq> [] \<Longrightarrow> k s' c' = None"
  shows "rx_run n (Rx_rep Rx_any 0 None False) s c k = (if one_line s then k [] c else None)"
proof (induction s)
  case Nil
  then show ?case by (simp add: rx_run.simps(10) one_line_def split: option.splits)
next
  case (Cons x xs)
  have clear: "clear_groups Rx_any c = c" by (simp add: clear_groups_def)
  have "rx_run n (Rx_rep Rx_any 0 None False) (x # xs) c k =
      (if any_matches x then rx_run n (Rx_rep Rx_any 0 None False) xs c k else None)"
    using assms [of "x # xs" c] by (subst rx_run.simps(10)) (simp add: clear)
  then show ?case using Cons by (simp add: one_line_def)
qed

lemma regex_match_serve:
  "regex_match (serve_rx lits) p =
    (if take (length (dir_prefix lits)) p = dir_prefix lits \<and> one_line (drop (length (dir_prefix lits)) p)
     then Some [1 \<mapsto> drop (length (dir_prefix lits)) p] else None)"
  by (simp add: regex_match_def serve_rx_def rest_rx_def run_seq run_chars run_lazy_any)

section \<open>Registering\<close>

definition fs_handler :: "string \<Rightarrow> string \<Rightarrow> bool \<Rightarrow> nat \<Rightarrow> filesystem_route_handler" where
  "fs_handler uri dir listing fs = make_filesystem_route_handler dir listing (uri @ ''{fs_path:.*}'') fs ''GET''"

definition serve_entry_of :: "string \<Rightarrow> string \<Rightarrow> bool \<Rightarrow> nat \<Rightarrow> route_match_info list \<Rightarrow> route_entry" where
  "serve_entry_of uri dir listing fs lits =
     \<lparr>re_regex = serve_rx lits, re_groups = 1, re_keys = [''fs_path''], re_middleware = [],
      re_handler = Filesystem_handler (fs_handler uri dir listing fs), re_uri = uri @ ''{fs_path:.*}''\<rparr>"

lemma serve_dir_registers:
  assumes "ttl_replace_ok T" "ttl_join_ok T" "all_literal lits"
    and "parse_route T (uri @ ''{fs_path:.*}'') = Inr (lits @ [fs_part])"
  shows "serve_dir T uri dir listing fs info =
    Inr (push_route ''GET'' (serve_entry_of uri dir listing fs lits) info)"
proof -
  define rx where "rx = fst (build_route_regex T (lits @ [fs_part]) [])"
  have rx: "build_route_regex T (lits @ [fs_part]) [] = (rx, [''fs_path''])" "rx_compile rx = Inr (serve_rx lits, 1)"
    using rx_compile_serve [OF assms(1-3)] by (simp_all add: rx_def)
  show ?thesis
    using rx assms(4)
    by (simp add: serve_dir_def route_def get_methods_def get_routes_def make_filesystem_route_handler_def
        make_entry_def serve_entry_of_def fs_handler_def)
qed

section \<open>Entering the handler\<close>

definition serve_info :: "string \<Rightarrow> string \<Rightarrow> bool \<Rightarrow> nat \<Rightarrow> route_match_info list \<Rightarrow> routing_info" where
  "serve_info uri dir listing fs lits = push_route ''GET'' (serve_entry_of uri dir listing fs lits) new_router"

lemma serve_info_routes [simp]:
  "ri_routes (serve_info uri dir listing fs lits) = [''GET'' \<mapsto> [serve_entry_of uri dir listing fs lits]]"
  "ri_middleware (serve_info uri dir listing fs lits) = []"
  by (simp_all add: serve_info_def push_route_def new_router_def)

definition fs_params :: "routing_info \<Rightarrow> route_entry \<Rightarrow> string \<Rightarrow> route_params" where
  "fs_params info e p = \<lparr>rp_params = [''fs_path'' \<mapsto> p], rp_info = Some info, rp_entry = Some e\<rparr>"

lemma serve_enters:
  assumes routes: "ri_routes info ''GET'' = Some [serve_entry_of uri dir listing fs lits]"
    and rq: "get_method w = ''GET''" "cache_ok con w" "parse_uri (get_resource con w) = Inr u"
    and p: "path u = dir_prefix lits @ p" "one_line p"
    and no_params: "rp_params (current_params w) = Map.empty"
  shows "\<exists>c. do_routing E info con w =
    try_catch (http_skip_body E con (Some (Fs_serve (fs_handler uri dir listing fs)))) (handle_exception E con)
      (set_route_params (fs_params info (serve_entry_of uri dir listing fs lits) p) (w\<lparr>w_parsed := c\<rparr>))"
proof -
  let ?e = "serve_entry_of uri dir listing fs lits"
  obtain c where parsed: "get_parsed_uri con w = (w\<lparr>w_parsed := c\<rparr>, Inr u)"
    using get_parsed_uri_ok [OF rq(2)] rq(3) get_parsed_uri_state [of con w _ "Inr u"]
    by (cases "get_parsed_uri con w") auto
  have "regex_match (re_regex ?e) (path u) = Some [1 \<mapsto> p]"
    using p by (simp add: serve_entry_of_def regex_match_serve)
  then have "do_routing E info con w = dispatch E info con ?e [1 \<mapsto> p] (w\<lparr>w_parsed := c\<rparr>)"
    using parsed rq(1) routes by (simp add: do_routing_def get_method_def)
  also have "\<dots> = try_catch (http_skip_body E con (Some (Fs_serve (fs_handler uri dir listing fs)))) (handle_exception E con)
      (set_route_params (fs_params info ?e p) (w\<lparr>w_parsed := c\<rparr>))"
    using no_params
    by (simp add: dispatch_def seq_def modify_def Let_def capture_params_def fs_params_def
        serve_entry_of_def run_handler_def capture_str_def current_params_def)
  finally show ?thesis by blast
qed

section \<open>Sending a file\<close>

lemma fs_sent_between:
  "between_writes w \<Longrightarrow> fs_sent E Http w = (w\<lparr>w_finished := True, w_write_locked := True,
     w_wire := w_wire w @ [W_finish], w_pending := [P_finish (Done_cb (Some Nop_cb))]\<rparr>, Go)"
  by (simp add: fs_sent_def end_quietly_def con_end_def base_end_def lock_write_def early_write_def
      transmit_def issue_def act_simps between_writes_def)

text \<open>The state after the call was finished.\<close>

definition file_sent :: "nat \<Rightarrow> ('k, 'u) world \<Rightarrow> ('k, 'u) world" where
  "file_sent h w = w\<lparr>w_finished := True, w_wire := w_wire w @ [W_finish], w_helpers := (w_helpers w)(h := None)\<rparr>"

lemma stream_finished:
  assumes "between_writes w"
  shows "async_step E 0 True x (after_stream E (Some Fs_sent) h w) = (file_sent h w, Go)"
proof -
  have "run_closure E (Some Fs_sent) Http True w = fs_sent E Http w" by (simp add: run_closure_def)
  then show ?thesis
    using assms
    by (cases w) (simp add: after_stream_def fs_sent_between async_step_def remove_nth_def complete_def unlock_write_def
        run_done_def run_closure_def act_simps file_sent_def between_writes_def)
qed

definition file_headers :: "('k, 'u) env \<Rightarrow> fs_entry \<Rightarrow> (string \<times> string) list" where
  "file_headers E e =
     [(ttl_to_lower (e_ttl E) ''Content-Length'', dec_nat (fe_size e)),
      (ttl_to_lower (e_ttl E) ''Last-Modified'', last_modified (e_date E) (fe_lmodified e))]"

definition file_response :: "('k, 'u) env \<Rightarrow> fs_entry \<Rightarrow> response \<Rightarrow> response" where
  "file_response E e r = r\<lparr>rs_status := 200, rs_message := ''OK'', rs_headers := rs_headers r @ file_headers E e\<rparr>"

lemma serve_file_sends:
  "serve_file E Http e s w =
    base_send_stream (handle_exception E Http) (\<lambda>_ _. fs_sent E Http) s (Some Fs_sent)
      (w\<lparr>w_resp := file_response E e (w_resp w)\<rparr>)"
  by (simp add: serve_file_def set_status_def base_set_header_def con_send_stream_def put_header_def act_simps
      file_response_def file_headers_def Let_def)

lemma fs_serve_file:
  assumes "route_params_of w = Some ps" "rp_params ps ''fs_path'' = Some p"
    and "fs_exists (e_fs E (fh_fs fh)) (fh_path fh @ p) = Inr True" "fs_get_file (e_fs E (fh_fs fh)) (fh_path fh @ p) = Inr e"
    and "is_file e" "last_modified (e_date E) (fe_lmodified e) \<noteq> get_header (e_ttl E) w ''If-Modified-Since''"
    and "fs_open_file (e_fs E (fh_fs fh)) (fe_name e) = Inr s" "is_good s"
  shows "fs_serve E fh Http w = serve_file E Http e s w"
  using assms
  by (simp add: fs_serve_def has_route_param_def get_route_param_def serve_entry_def act_simps Let_def)

text \<open>What a call looks like on which a handler starts: nothing was read or sent.\<close>

definition untouched :: "('k, 'u) world \<Rightarrow> bool" where
  "untouched w \<longleftrightarrow> \<not> w_read_done w \<and> \<not> w_read_locked w \<and> \<not> w_write_locked w \<and> w_pending w = [] \<and> \<not> w_headers_sent w"

lemma untouched_update [simp]:
  "untouched (w\<lparr>w_parsed := c\<rparr>) = untouched w" "untouched (w\<lparr>w_next := n\<rparr>) = untouched w"
  "untouched (w\<lparr>w_log := l\<rparr>) = untouched w" "untouched (set_route_params ps w) = untouched w"
  by (simp_all add: untouched_def set_route_params_def)

text \<open>The bytes \<open>d\<close> of a file went over the wire under the response \<open>r\<close>, and the call is over.\<close>

definition delivered :: "response \<Rightarrow> string \<Rightarrow> ('k, 'u) world \<Rightarrow> ('k, 'u) world \<Rightarrow> bool" where
  "delivered r d w w' \<longleftrightarrow>
     (\<exists>c cs. w_wire w' = w_wire w @ W_write (r\<lparr>rs_content := c\<rparr>) False # map (\<lambda>c. W_write (content_only c) False) cs @ [W_finish]
        \<and> concat (c # cs) = d) \<and>
     w_read_done w' \<and> w_headers_sent w' \<and> w_finished w' \<and> w_pending w' = [] \<and> \<not> w_write_locked w'"

text \<open>The completions that follow: the end of the body, one for every chunk, one for the finish.\<close>

definition file_completions :: "('k, 'u) env \<Rightarrow> string \<Rightarrow> ('k, 'u) world act" where
  "file_completions E d =
     seq (async_step E 0 False []) (seq (writes_done E (length d div chunk_size + 1)) (async_step E 0 True []))"

text \<open>
  What the file system answers for a name, and that the client has no copy of that date: the
  question whether it has is answered by the request's headers.
\<close>

definition fresh_file :: "('k, 'u) env \<Rightarrow> nat \<Rightarrow> string \<Rightarrow> fs_entry \<Rightarrow> string \<Rightarrow> ('k, 'u) world \<Rightarrow> bool" where
  "fresh_file E fs name e d w \<longleftrightarrow>
     fs_exists (e_fs E fs) name = Inr True \<and> fs_get_file (e_fs E fs) name = Inr e \<and> is_file e \<and>
     fs_open_file (e_fs E fs) (fe_name e) = Inr \<lparr>is_data = d, is_good = True\<rparr> \<and>
     last_modified (e_date E) (fe_lmodified e) \<noteq> get_header (e_ttl E) w ''If-Modified-Since''"

lemma file_delivered:
  assumes w: "untouched w" "route_params_of w = Some ps" "rp_params ps ''fs_path'' = Some p"
    and found: "fresh_file E (fh_fs fh) (fh_path fh @ p) e d w"
  shows "\<exists>w1 w'. http_skip_body E con (Some (Fs_serve fh)) w = (w1, Go) \<and> file_completions E d w1 = (w', Go)
    \<and> delivered (file_response E e (w_resp w)) d w w' \<and> w_helpers w' (w_next w) = None"
proof -
  let ?cb = "Body_helper (Body_skip (Some (Fs_serve fh))) None"
  let ?send = "base_send_stream (handle_exception E Http) (\<lambda>_ _. fs_sent E Http) \<lparr>is_data = d, is_good = True\<rparr> (Some Fs_sent)"
  let ?w = "w\<lparr>w_read_locked := True, w_pending := [P_read ?cb]\<rparr>"
  have start: "http_skip_body E con (Some (Fs_serve fh)) w = (?w, Go)"
    using w(1) by (simp add: untouched_def http_skip_body_def base_read_body_def lock_read_def issue_def act_simps)
  define w1 where "w1 = w\<lparr>w_read_done := True\<rparr>"
  define w2 where "w2 = w1\<lparr>w_resp := file_response E e (w_resp w1)\<rparr>"
  have params: "route_params_of w1 = Some ps" using w(2) by (simp add: w1_def route_params_of_def)
  have "fs_serve E fh Http w1 = serve_file E Http e \<lparr>is_data = d, is_good = True\<rparr> w1"
    using found by (intro fs_serve_file [OF params w(3)]) (simp_all add: w1_def get_header_map fresh_file_def)
  then have serve: "fs_serve E fh Http w1 = ?send w2" by (simp add: serve_file_sends w2_def)
  have cb: "snd (run_closure E (Some Fs_sent) Http True v) = Go" if "between_writes v" for v
    using fs_sent_between [OF that] by (simp add: run_closure_def)
  have w2: "w_read_done w2" "\<not> w_write_locked w2" "w_pending w2 = []"
    using w(1) by (simp_all add: w2_def w1_def untouched_def)
  obtain v c cs where v: "seq ?send (writes_done E (length d div chunk_size + 1)) w2 = (after_stream E (Some Fs_sent) (w_next w) v, Go)"
    "w_wire v = w_wire w @ W_write ((file_response E e (w_resp w))\<lparr>rs_content := c\<rparr>) False
        # map (\<lambda>c. W_write (content_only c) False) cs"
    "concat (c # cs) = d" "between_writes v"
    using send_stream_result [OF w2 cb, of "handle_exception E Http" "\<lambda>_ _. fs_sent E Http" d] w(1)
    by (simp add: w2_def w1_def untouched_def) blast
  obtain w3 where w3: "?send w2 = (w3, Go)"
    using v(1) by (auto simp: seq_def split: prod.splits flow.splits)
  have read: "async_step E 0 False [] ?w = (w3, Go)"
  proof -
    have "w\<lparr>w_pending := [], w_read_done := True, w_read_locked := False\<rparr> = w1"
      using w(1) by (cases w) (simp add: w1_def untouched_def)
    then show ?thesis
      using serve w3 by (simp add: async_step_def remove_nth_def complete_def unlock_read_def run_body_def
          run_closure_def act_simps)
  qed
  have "file_completions E d ?w = (file_sent (w_next w) v, Go)"
    using read v(1) w3 stream_finished [OF v(4), of E "[]" "w_next w"] by (simp add: file_completions_def seq_def)
  moreover have "delivered (file_response E e (w_resp w)) d w (file_sent (w_next w) v)"
    using v(2-4) by (auto simp: delivered_def file_sent_def between_writes_def)
  moreover have "w_helpers (file_sent (w_next w) v) (w_next w) = None" by (simp add: file_sent_def)
  ultimately show ?thesis using start by blast
qed

text \<open>A handler whose exceptions are caught: if it goes on, nothing was caught.\<close>

lemma try_catch_Go: "a w = (w', Go) \<Longrightarrow> try_catch a h w = (w', Go)"
  by (simp add: try_catch_def)

section \<open>Properties\<close>

text \<open>
  C5. A file below a served directory is delivered: a GET request whose path is the
  directory's prefix and a rest on one line opens exactly the file whose name is the directory with the
  rest behind it, with every dot-dot segment the rest has. After the body's end, one completion for every
  chunk and one for the finish, the stream carries the file's bytes in order, headed by
  status 200, the length and the time of the last change; then the call is finished, no write is pending
  and the helper is freed.
\<close>

theorem serve_dir_delivers:
  fixes w :: "('k, 'u) world" and E :: "('k, 'u) env"
  assumes T: "ttl_replace_ok (e_ttl E)" "ttl_join_ok (e_ttl E)"
    and pat: "parse_route (e_ttl E) (uri @ ''{fs_path:.*}'') = Inr (lits @ [fs_part])" "all_literal lits"
    and rq: "get_method w = ''GET''" "parse_uri (get_resource Http w) = Inr u" "w_parsed w 0 = None"
    and p: "path u = dir_prefix lits @ p" "one_line p"
    and start: "untouched w" "fresh_file E fs (dir @ p) e d w"
  shows "\<exists>info w'. serve_dir (e_ttl E) uri dir listing fs new_router = Inr info
    \<and> seq (on_request E info Http) (file_completions E d) w = (w', Go)
    \<and> delivered (file_response E e (w_resp w)) d w w' \<and> w_helpers w' (w_next w) = None"
proof -
  define info where "info = serve_info uri dir listing fs lits"
  have reg: "serve_dir (e_ttl E) uri dir listing fs new_router = Inr info"
    using serve_dir_registers [OF T pat(2,1)] by (simp add: info_def serve_info_def)
  let ?ps = "\<lparr>rp_params = Map.empty, rp_info = Some info, rp_entry = None\<rparr>"
  let ?w0 = "set_route_params ?ps w" and ?e = "serve_entry_of uri dir listing fs lits"
  have w0: "get_method ?w0 = ''GET''" "cache_ok Http ?w0" "parse_uri (get_resource Http ?w0) = Inr u"
    "rp_params (current_params ?w0) = Map.empty"
    using rq by (simp_all add: get_method_def cache_ok_def current_params_def) (simp_all add: set_route_params_def)
  have routes: "ri_routes info ''GET'' = Some [?e]" by (simp add: info_def)
  obtain c where c: "do_routing E info Http ?w0 =
      try_catch (http_skip_body E Http (Some (Fs_serve (fs_handler uri dir listing fs)))) (handle_exception E Http)
        (set_route_params (fs_params info ?e p) (?w0\<lparr>w_parsed := c\<rparr>))"
    using serve_enters [OF routes w0(1-3) p w0(4)] by blast
  let ?v = "set_route_params (fs_params info ?e p) (?w0\<lparr>w_parsed := c\<rparr>)"
  have same: "w_resp ?v = w_resp w" "w_wire ?v = w_wire w" "w_next ?v = w_next w" "w_req_headers ?v = w_req_headers w"
    by (simp_all add: set_route_params_def)
  have "untouched ?v" "route_params_of ?v = Some (fs_params info ?e p)" "rp_params (fs_params info ?e p) ''fs_path'' = Some p"
    using start(1) by (simp_all add: fs_params_def)
  moreover have "fresh_file E (fh_fs (fs_handler uri dir listing fs)) (fh_path (fs_handler uri dir listing fs) @ p) e d ?v"
    using start(2) same by (simp add: fresh_file_def fs_handler_def make_filesystem_route_handler_def get_header_map)
  ultimately obtain w1 w' where d: "http_skip_body E Http (Some (Fs_serve (fs_handler uri dir listing fs))) ?v = (w1, Go)"
    "file_completions E d w1 = (w', Go)" "delivered (file_response E e (w_resp ?v)) d ?v w'"
    "w_helpers w' (w_next ?v) = None"
    using file_delivered [of ?v "fs_params info ?e p" p E "fs_handler uri dir listing fs" e d Http] by blast
  have "on_request E info Http w = try_catch (do_routing E info Http) (handle_exception E Http) ?w0"
    by (simp add: on_request_def seq_def modify_def) (simp add: info_def)
  also have "\<dots> = (w1, Go)" unfolding c using d(1) by (simp add: try_catch_Go c)
  finally have "on_request E info Http w = (w1, Go)" .
  then show ?thesis
    using reg d(2-4) same by (intro exI [of _ info] exI [of _ w']) (simp add: seq_def delivered_def)
qed

text \<open>An operating system with one file, outside the directory \<open>public\<close>.\<close>

definition secret_os :: os where
  "secret_os =
     \<lparr>os_exists = (\<lambda>p. Inr (p = ''public/../secret'')), os_canonical = (\<lambda>_. Inr ''/secret''),
      os_status = (\<lambda>_. Inr Fs_file), os_filename = (\<lambda>_. ''secret''), os_last_write = (\<lambda>_. Inr 0),
      os_file_size = (\<lambda>_. Inr 3), os_list = (\<lambda>_. Inr []),
      os_open = (\<lambda>_. \<lparr>is_data = ''key'', is_good = True\<rparr>), os_stale_size = 0\<rparr>"

definition secret_env :: "(string, unit) env" where
  "secret_env = demo_env\<lparr>e_fs := (\<lambda>_. osfilesystem secret_os)\<rparr>"

definition secret_entry :: fs_entry where
  "secret_entry =
     \<lparr>fe_name = ''/secret'', fe_file_name = ''secret'', fe_lmodified = 0, fe_size = 3, fe_type = Fs_file\<rparr>"

theorem serve_dir_delivers_witness:
  "\<exists>info w'. serve_dir ttl_ref ''/'' ''public/'' False 0 new_router = Inr info
    \<and> seq (on_request secret_env info Http) (file_completions secret_env ''key'')
        (new_connection () (demo_request\<lparr>rq_resource := ''/../secret''\<rparr>)) = (w', Go)
    \<and> delivered (file_response secret_env secret_entry empty_response) ''key''
        (new_connection () (demo_request\<lparr>rq_resource := ''/../secret''\<rparr>)) w'"
proof -
  let ?w = "new_connection () (demo_request\<lparr>rq_resource := ''/../secret''\<rparr>) :: (string, unit) world"
  let ?u = "\<lparr>path = ''/../secret'', fname = ''secret'', ext = [], query = []\<rparr>"
  have env: "e_ttl secret_env = ttl_ref" "e_date secret_env = zero_date" "e_fs secret_env i = osfilesystem secret_os" for i
    by (simp_all add: secret_env_def demo_env_def)
  have T: "ttl_replace_ok (e_ttl secret_env)" "ttl_join_ok (e_ttl secret_env)" by (simp_all add: env)
  have "parse_route ttl_ref (''/'' @ ''{fs_path:.*}'') = Inr ([] @ [fs_part])" by code_simp
  then have pat: "parse_route (e_ttl secret_env) (''/'' @ ''{fs_path:.*}'') = Inr ([] @ [fs_part])" "all_literal []"
    by (simp_all add: env all_literal_def)
  have "parse_uri ''/../secret'' = Inr ?u" by code_simp
  then have rq: "get_method ?w = ''GET''" "parse_uri (get_resource Http ?w) = Inr ?u" "w_parsed ?w 0 = None"
    by (simp_all add: get_method_def new_connection_def demo_request_def)
  have p: "path ?u = dir_prefix [] @ ''../secret''" "one_line ''../secret''"
    by (simp_all add: dir_prefix_def one_line_def any_matches_def)
  have "get_header (e_ttl secret_env) ?w ''If-Modified-Since'' = []"
    by (simp add: get_header_map new_connection_def)
  then have start: "untouched ?w" "fresh_file secret_env 0 (''public/'' @ ''../secret'') secret_entry ''key'' ?w"
    by (simp_all add: untouched_def fresh_file_def new_connection_def env osfilesystem_def secret_os_def osfs_get_file_def
        osfs_open_file_def secret_entry_def is_file_def last_modified_def Let_def zero_date_def)
  have fresh: "w_resp ?w = empty_response" by (simp add: new_connection_def)
  from serve_dir_delivers [OF T pat rq p start, of False, unfolded env(1) fresh]
  show ?thesis by blast
qed

text \<open>
  A directory that is served under a path without a slash at its end is never served: its
  pattern has no parameter but a last segment that is literal text, so every other path is
  answered with status 404.
\<close>

theorem serve_dir_needs_slash:
  fixes w :: "('k, 'u) world" and E :: "('k, 'u) env"
  assumes T: "ttl_replace_ok (e_ttl E)" "ttl_join_ok (e_ttl E)"
    and pat: "ttl_split (e_ttl E) (uri @ ''{fs_path:.*}'') ''/'' = [d @ ''{fs_path:.*}'']"
      "d \<noteq> []" "CHR ''/'' \<notin> set d" "hd d \<noteq> CHR ''{''" "hd d \<noteq> CHR '':''"
    and rq: "get_method w = ''GET''" "parse_uri (get_resource Http w) = Inr u" "w_parsed w 0 = None"
    and other: "path u \<noteq> ''/'' @ d @ ''{fs_path:.*}''"
  shows "\<exists>info. serve_dir (e_ttl E) uri dir listing fs new_router = Inr info
    \<and> rs_status (w_resp (fst (on_request E info Http w))) = 404 \<and> snd (on_request E info Http w) = Go"
proof -
  define seg where "seg = d @ ''{fs_path:.*}''"
  define parts where "parts = [\<lparr>type_t = T_equals, param_name = [], equals_str = seg\<rparr>]"
  have seg: "seg \<noteq> []" "hd seg \<noteq> CHR ''{''" "hd seg \<noteq> CHR '':''" "CHR ''/'' \<notin> set seg"
    using pat by (simp_all add: seg_def)
  have parse: "parse_route (e_ttl E) (uri @ ''{fs_path:.*}'') = Inr parts"
    using pat(1) seg by (simp add: parse_route_eq part_spec_def parts_def seg_def [symmetric])
  have ok: "exprs_ok parts" "literals_ok parts" using seg by (simp_all add: parts_def)
  let ?e = "\<lparr>re_regex = route_rx parts, re_groups = length (route_keys parts), re_keys = route_keys parts,
    re_middleware = [], re_handler = Filesystem_handler (fs_handler uri dir listing fs), re_uri = uri @ ''{fs_path:.*}''\<rparr>"
  define info where "info = push_route ''GET'' ?e new_router"
  have reg: "serve_dir (e_ttl E) uri dir listing fs new_router = Inr info"
    using rx_compile_route [OF T ok(1), of "[]"] parse
    by (simp add: serve_dir_def route_def get_methods_def get_routes_def make_filesystem_route_handler_def
        make_entry_def fs_handler_def build_route_regex_eq [OF T(2)] info_def)
  have no: "match_path parts (path u) = None"
  proof (cases "path u")
    case (Cons c t)
    have "t \<noteq> seg" if "c = CHR ''/''" using other that Cons by (simp add: seg_def)
    then show ?thesis
      by (rule_tac slash_cases [where t = t])
         (use Cons in \<open>auto simp: match_path_def norm_info_def parts_def split_on_no_sep segment_ok_def\<close>)
  qed (simp add: match_path_def)
  then have "regex_match (route_rx parts) (path u) = None" using regex_match_route [OF ok] by simp
  then show ?thesis
    using reg rq
    by (intro exI [of _ info])
       (simp add: on_request_def do_routing_def get_parsed_uri_def get_method_def set_route_params_def info_def
         push_route_def new_router_def call_notfound_def set_status_def act_simps Let_def)
qed

theorem serve_dir_needs_slash_witness:
  "\<exists>info. serve_dir ttl_ref ''/static'' ''public/'' False 0 new_router = Inr info
    \<and> rs_status (w_resp (fst (on_request demo_env info Http
        (new_connection () (demo_request\<lparr>rq_resource := ''/static/a''\<rparr>))))) = 404"
proof -
  let ?w = "new_connection () (demo_request\<lparr>rq_resource := ''/static/a''\<rparr>) :: (string, unit) world"
  let ?u = "\<lparr>path = ''/static/a'', fname = ''a'', ext = [], query = []\<rparr>"
  have env: "e_ttl demo_env = ttl_ref" by (simp add: demo_env_def)
  have T: "ttl_replace_ok (e_ttl demo_env)" "ttl_join_ok (e_ttl demo_env)" by (simp_all add: env)
  have "ttl_split ttl_ref (''/static'' @ ''{fs_path:.*}'') ''/'' = [''static'' @ ''{fs_path:.*}'']" by code_simp
  then have pat: "ttl_split (e_ttl demo_env) (''/static'' @ ''{fs_path:.*}'') ''/'' = [''static'' @ ''{fs_path:.*}'']"
    by (simp add: env)
  have "parse_uri ''/static/a'' = Inr ?u" by code_simp
  then have rq: "get_method ?w = ''GET''" "parse_uri (get_resource Http ?w) = Inr ?u" "w_parsed ?w 0 = None"
    by (simp_all add: get_method_def new_connection_def demo_request_def)
  from serve_dir_needs_slash [OF T pat _ _ _ _ rq, where dir = "''public/''" and listing = False and fs = 0]
  show ?thesis by (auto simp: env)
qed

end
