(* ===== verification/Example_App.thy ===== *)
theory Example_App imports Serve_Dir
begin

text \<open>
  The router that \<^verbatim>\<open>src/example_app/main.cpp\<close> configures, on whole requests: logging, content
  types, the rewriting of \<^verbatim>\<open>/\<close> and the served directory \<^verbatim>\<open>./public/\<close> work together on one
  call, from the moment it is accepted until it is finished.
\<close>

section \<open>Configuration\<close>

text \<open>The calls on \<^verbatim>\<open>get_router()\<close>; the contents of \<^verbatim>\<open>mime.types\<close> are an argument, \<open>None\<close> without the file.\<close>

definition example_router :: "ttl \<Rightarrow> string option \<Rightarrow> routing_info result" where
  "example_router T mimefile =
     ebind (mime_detector_file T mimefile Begin (log_requests Begin (set_debug_mode True new_router))) (\<lambda>r.
     ebind (rewrite_regex ''/'' ''/index.html'' Default r) (\<lambda>r.
     serve_dir T ''/'' ''./public/'' True 0 r))"

definition index_rewrite :: rewrite_fn where
  "index_rewrite = Regex_rewrite (seq_of [Rx_char (CHR ''/'')]) 0 ''/index.html''"

definition example_info :: "mime \<Rightarrow> routing_info" where
  "example_info m = push_route ''GET'' (serve_entry_of ''/'' ''./public/'' True 0 [])
     (new_router\<lparr>ri_debug_mode := True,
        ri_middleware := [(Begin, Logger_mw), (Begin, Mime_mw m), (Default, Rewrite_mw index_rewrite)]\<rparr>)"

lemma compile_slash: "rx_compile ''/'' = Inr (seq_of [Rx_char (CHR ''/'')], 0)"
  by code_simp

lemma example_router_eq:
  assumes "ttl_replace_ok T" "ttl_join_ok T" "parse_route T ''/{fs_path:.*}'' = Inr [fs_part]"
  shows "example_router T mimefile = ebind (mime_type_file T mimefile) (\<lambda>m. Inr (example_info m))"
proof -
  have parse: "parse_route T (''/'' @ ''{fs_path:.*}'') = Inr ([] @ [fs_part])" "all_literal []"
    using assms(3) by (simp_all add: all_literal_def)
  have "rewrite_regex ''/'' ''/index.html'' Default r = Inr (use (Rewrite_mw index_rewrite) Default r)" for r
    by (simp add: rewrite_regex_def compile_slash index_rewrite_def)
  then show ?thesis
    by (cases "mime_type_file T mimefile")
       (simp_all add: example_router_def mime_detector_file_def serve_dir_registers [OF assms(1,2) parse(2,1)]
          log_requests_def use_def set_debug_mode_def new_router_def mm_insert_def example_info_def less_eq_pos_def pos_value_def)
qed

section \<open>The chain of middleware\<close>

text \<open>
  New wrappers have parsed nothing, and the cache of the present one is right. What a piece of
  middleware hands on is a connection that answers \<open>res\<close> as its resource, in a state that differs in
  the bookkeeping of wrappers only.
\<close>

definition fresh_objects :: "connection \<Rightarrow> ('k, 'u) world \<Rightarrow> bool" where
  "fresh_objects con w \<longleftrightarrow> object_id con < w_next w \<and> cache_ok con w \<and> (\<forall>i \<ge> w_next w. w_parsed w i = None)"

definition same_call :: "('k, 'u) world \<Rightarrow> ('k, 'u) world \<Rightarrow> bool" where
  "same_call w w' \<longleftrightarrow> w' = w\<lparr>w_parsed := w_parsed w', w_next := w_next w', w_log := w_log w'\<rparr>"

lemma same_call_simps [simp]:
  "same_call w w" "same_call w (w'\<lparr>w_parsed := c\<rparr>) = same_call w w'" "same_call w (w'\<lparr>w_next := n\<rparr>) = same_call w w'"
  "same_call w (w'\<lparr>w_log := l\<rparr>) = same_call w w'"
  by (cases w; cases w'; simp add: same_call_def)+

lemma same_call_trans: "same_call w w' \<Longrightarrow> same_call w' w'' \<Longrightarrow> same_call w w''"
  by (cases w; cases w'; cases w''; simp add: same_call_def)

definition handed_on :: "string \<Rightarrow> ('k, 'u) world \<Rightarrow> connection \<Rightarrow> ('k, 'u) world \<Rightarrow> bool" where
  "handed_on res w con' w' \<longleftrightarrow>
     get_resource con' w' = res \<and> fresh_objects con' w' \<and> same_call w w'"

lemma handed_on_trans: "handed_on r w con' w' \<Longrightarrow> handed_on s w' con'' w'' \<Longrightarrow> handed_on s w con'' w''"
  using same_call_trans by (auto simp: handed_on_def)

lemma logger_hands_on:
  assumes "fresh_objects con w"
  shows "\<exists>w'. (\<forall>next. logger_on_request con next w = next con w') \<and> handed_on (get_resource con w) w con w'"
proof -
  let ?w = "w\<lparr>w_log := w_log w @ [request_line con w]\<rparr>"
  have "handed_on (get_resource con w) w con ?w"
    using assms by (simp add: handed_on_def fresh_objects_def cache_ok_def split: option.splits)
  then show ?thesis by (intro exI [of _ ?w]) (simp add: logger_on_request_def act_simps)
qed

lemma mime_hands_on:
  assumes "fresh_objects con w" "parse_uri (get_resource con w) = Inr u"
  shows "\<exists>con' w'. (\<forall>next. mime_on_request m con next w = next con' w') \<and> handed_on (get_resource con w) w con' w'"
proof -
  define w1 where "w1 = fst (get_parsed_uri con w)"
  have p: "get_parsed_uri con w = (w1, Inr u)"
    using get_parsed_uri_ok [of con w] assms by (simp add: w1_def fresh_objects_def prod_eq_iff)
  obtain c where c: "w1 = w\<lparr>w_parsed := c\<rparr>" using get_parsed_uri_state [OF p] by blast
  have "i \<noteq> object_id con \<Longrightarrow> w_parsed w1 i = w_parsed w i" for i
    using assms(2) by (simp add: w1_def get_parsed_uri_def split: option.split)
  then have f: "fresh_objects con w1"
    using assms(1) get_parsed_uri_cached [of con w] p c by (simp add: fresh_objects_def)
  show ?thesis
  proof (cases "ext u \<noteq> [] \<and> has_type m (ext u)")
    case False
    have "handed_on (get_resource con w) w con w1"
      using f by (simp add: handed_on_def c)
    then show ?thesis using False p by (intro exI [of _ con] exI [of _ w1]) (auto simp: mime_on_request_def)
  next
    case True
    let ?con = "Mime_con con (get_type m (ext u)) (w_next w1)" and ?w = "w1\<lparr>w_next := w_next w1 + 1\<rparr>"
    have "handed_on (get_resource con w) w ?con ?w"
      using f by (simp add: handed_on_def fresh_objects_def cache_ok_def c split: option.splits)
    then show ?thesis using True p
      by (intro exI [of _ ?con] exI [of _ ?w]) (simp add: mime_on_request_def new_object_def act_simps)
  qed
qed

definition index_resource :: "string \<Rightarrow> string" where
  "index_resource s = (if s = ''/'' then ''/index.html'' else s)"

lemma rewrite_hands_on:
  assumes "fresh_objects con w"
  shows "\<exists>con' w'. (\<forall>next. rewrite_on_request E index_rewrite con next w = next con' w') \<and>
    handed_on (index_resource (get_resource con w)) w con' w'"
proof -
  have m: "regex_match (seq_of [Rx_char (CHR ''/'')]) s = (if s = ''/'' then Some (\<lambda>_. None) else None)" for s
    by (cases s) (simp_all add: regex_match_def run_seq)
  have f: "match_format ''/'' caps 0 ''/index.html'' = ''/index.html''" for caps by simp
  show ?thesis
  proof (cases "get_resource con w = ''/''")
    case True
    let ?con = "Rewrite_con con ''/index.html'' (w_next w)" and ?w = "w\<lparr>w_next := w_next w + 1\<rparr>"
    have "handed_on (index_resource (get_resource con w)) w ?con ?w"
      using assms True by (simp add: handed_on_def fresh_objects_def cache_ok_def index_resource_def split: option.splits)
    then show ?thesis using True
      by (intro exI [of _ ?con] exI [of _ ?w])
         (simp add: rewrite_on_request_def index_rewrite_def run_rewrite_def m f new_object_def act_simps)
  next
    case False
    have "handed_on (index_resource (get_resource con w)) w con w"
      using assms False by (simp add: handed_on_def index_resource_def)
    then show ?thesis using False
      by (intro exI [of _ con] exI [of _ w])
         (simp add: rewrite_on_request_def index_rewrite_def run_rewrite_def m)
  qed
qed

lemma example_chain:
  assumes "fresh_objects con w" "parse_uri (get_resource con w) = Inr u"
  shows "\<exists>con' w'. mw_helper_global E info (ri_middleware (example_info m)) con w = do_routing E info con' w'
    \<and> handed_on (index_resource (get_resource con w)) w con' w'"
proof -
  obtain w1 where 1: "\<And>next. logger_on_request con next w = next con w1" "handed_on (get_resource con w) w con w1"
    using logger_hands_on [OF assms(1)] by blast
  have f1: "fresh_objects con w1" "parse_uri (get_resource con w1) = Inr u" "get_resource con w1 = get_resource con w"
    using 1(2) assms(2) by (simp_all add: handed_on_def)
  obtain con2 w2 where 2: "\<And>next. mime_on_request m con next w1 = next con2 w2" "handed_on (get_resource con w1) w1 con2 w2"
    using mime_hands_on [OF f1(1,2)] by blast
  have f2: "fresh_objects con2 w2" "get_resource con2 w2 = get_resource con w" using 2(2) f1(3) by (simp_all add: handed_on_def)
  obtain con3 w3 where 3: "\<And>next. rewrite_on_request E index_rewrite con2 next w2 = next con3 w3"
    "handed_on (index_resource (get_resource con2 w2)) w2 con3 w3"
    using rewrite_hands_on [OF f2(1)] by blast
  have "mw_helper_global E info (ri_middleware (example_info m)) con w = do_routing E info con3 w3"
    by (simp add: example_info_def push_route_def new_router_def run_mw_def 1(1) 2(1) 3(1))
  moreover have "handed_on (index_resource (get_resource con w)) w con3 w3"
    using handed_on_trans [OF 1(2) handed_on_trans [OF 2(2) 3(2)]] f2(2) by simp
  ultimately show ?thesis by blast
qed

section \<open>A whole call\<close>

text \<open>The state in which \<^verbatim>\<open>on_request\<close> starts.\<close>

definition received :: "('k, 'u) env \<Rightarrow> request \<Rightarrow> ('k, 'u) world \<Rightarrow> ('k, 'u) world" where
  "received E rq w = w\<lparr>w_started := True, w_request := rq,
     w_req_headers := fold (\<lambda>(k, v). mm_insert (ttl_to_lower (e_ttl E) k) v) (rq_headers rq) (w_req_headers w)\<rparr>"

lemma call_starts:
  assumes "on_request E info Http (received E rq w) = (w', Go)"
  shows "seq (on_accepted True) (on_initial_read E info True rq) w = (w', Go)"
  using assms
  by (simp add: on_accepted_def on_initial_read_def act_simps received_def)

lemma same_call_fields:
  assumes "same_call w w'"
  shows "get_method w' = get_method w" "route_params_of w' = route_params_of w" "untouched w' = untouched w"
    "w_resp w' = w_resp w" "w_wire w' = w_wire w" "w_req_headers w' = w_req_headers w"
proof -
  obtain c n l where w': "w' = w\<lparr>w_parsed := c, w_next := n, w_log := l\<rparr>" using assms by (auto simp: same_call_def)
  show "get_method w' = get_method w" "route_params_of w' = route_params_of w" "untouched w' = untouched w"
    "w_resp w' = w_resp w" "w_wire w' = w_wire w" "w_req_headers w' = w_req_headers w"
    by (simp_all add: w' get_method_def route_params_of_def)
qed

lemma example_request:
  fixes w :: "('k, 'u) world" and m :: mime
  defines "info \<equiv> example_info m"
  assumes w: "fresh_objects Http w" "untouched w" "get_method w = ''GET''"
    and uri: "parse_uri (get_resource Http w) = Inr u" "parse_uri (index_resource (get_resource Http w)) = Inr v"
    and p: "path v = ''/'' @ p" "one_line p" "fresh_file E 0 (''./public/'' @ p) e d w"
  shows "\<exists>w1 w'. on_request E info Http w = (w1, Go) \<and> file_completions E d w1 = (w', Go)
    \<and> delivered (file_response E e (w_resp w)) d w w'"
proof -
  let ?w0 = "set_route_params \<lparr>rp_params = Map.empty, rp_info = Some info, rp_entry = None\<rparr> w"
  let ?e = "serve_entry_of ''/'' ''./public/'' True 0 []" and ?fh = "fs_handler ''/'' ''./public/'' True 0"
  have r0: "get_resource Http ?w0 = get_resource Http w" by (simp add: set_route_params_def)
  have w0: "fresh_objects Http ?w0"
    using w(1) by (simp add: fresh_objects_def cache_ok_def set_route_params_def split: option.splits)
  obtain con w1 where chain: "mw_helper_global E info (ri_middleware info) Http ?w0 = do_routing E info con w1"
    "handed_on (index_resource (get_resource Http w)) ?w0 con w1"
    using example_chain [OF w0, of u E info m] uri(1) r0 unfolding info_def by metis
  have r1: "get_resource con w1 = index_resource (get_resource Http w)" "cache_ok con w1" "same_call ?w0 w1"
    using chain(2) by (simp_all add: handed_on_def fresh_objects_def)
  note same = same_call_fields [OF r1(3)]
  have routes: "ri_routes info ''GET'' = Some [?e]" by (simp add: info_def example_info_def push_route_def new_router_def)
  have m1: "get_method w1 = ''GET''" using same(1) w(3) by (simp add: get_method_def set_route_params_def)
  have p1: "path v = dir_prefix [] @ p" using p(1) by (simp add: dir_prefix_def)
  have n1: "rp_params (current_params w1) = Map.empty" using same(2) by (simp add: current_params_def)
  obtain c where c: "do_routing E info con w1 = try_catch (http_skip_body E con (Some (Fs_serve ?fh))) (handle_exception E con)
      (set_route_params (fs_params info ?e p) (w1\<lparr>w_parsed := c\<rparr>))"
    using serve_enters [OF routes m1 r1(2) _ p1 p(2) n1] uri(2) r1(1) by auto
  let ?v = "set_route_params (fs_params info ?e p) (w1\<lparr>w_parsed := c\<rparr>)"
  have v: "w_resp ?v = w_resp w" "w_wire ?v = w_wire w" "w_req_headers ?v = w_req_headers w" "untouched ?v"
    using same w(2) by (simp_all add: set_route_params_def untouched_def)
  have "route_params_of ?v = Some (fs_params info ?e p)" "rp_params (fs_params info ?e p) ''fs_path'' = Some p"
    by (simp_all add: fs_params_def)
  moreover have "fresh_file E (fh_fs ?fh) (fh_path ?fh @ p) e d ?v"
    using p(3) v(3) by (simp add: fresh_file_def fs_handler_def make_filesystem_route_handler_def get_header_map)
  ultimately obtain w2 w' where d: "http_skip_body E con (Some (Fs_serve ?fh)) ?v = (w2, Go)"
    "file_completions E d w2 = (w', Go)" "delivered (file_response E e (w_resp ?v)) d ?v w'"
    using file_delivered [OF v(4), of "fs_params info ?e p" p E ?fh e d con] by blast
  have "on_request E info Http w = try_catch (do_routing E info con) (handle_exception E Http) w1"
    using chain(1) by (simp add: on_request_def seq_def modify_def try_catch_def)
  also have "\<dots> = (w2, Go)" using d(1) by (simp add: try_catch_Go c)
  finally show ?thesis using d(2,3) v by (auto simp: delivered_def)
qed

section \<open>Properties\<close>

lemma example_call:
  fixes E :: "('k, 'u) env" and x :: 'u and rq0 :: request
  defines "w \<equiv> new_connection x rq0"
  assumes T: "ttl_replace_ok (e_ttl E)" "ttl_join_ok (e_ttl E)" "parse_route (e_ttl E) ''/{fs_path:.*}'' = Inr [fs_part]"
    and info: "example_router (e_ttl E) mimefile = Inr info"
    and rq: "rq_method rq = ''GET''" "parse_uri (rq_resource rq) = Inr u" "parse_uri (index_resource (rq_resource rq)) = Inr v"
    and p: "path v = ''/'' @ p" "one_line p" "fresh_file E 0 (''./public/'' @ p) e d (received E rq w)"
  shows "\<exists>w'. seq (on_accepted True) (seq (on_initial_read E info True rq) (file_completions E d)) w = (w', Go)
    \<and> delivered (file_response E e empty_response) d w w'
    \<and> drop_warnings w' = []"
proof -
  obtain m where m: "info = example_info m"
    using info by (auto simp: example_router_eq [OF T] ebind_eq_Inr)
  let ?w = "received E rq w"
  have w: "fresh_objects Http ?w" "untouched ?w" "get_method ?w = ''GET''" "get_resource Http ?w = rq_resource rq"
    "w_resp ?w = empty_response" "w_wire ?w = w_wire w"
    using rq(1) by (simp_all add: w_def received_def new_connection_def fresh_objects_def cache_ok_def untouched_def get_method_def)
  obtain w1 w' where run: "on_request E info Http ?w = (w1, Go)" "file_completions E d w1 = (w', Go)"
    "delivered (file_response E e empty_response) d ?w w'"
    using example_request [OF w(1-3) _ _ p(1,2,3), of u m] rq(2,3) w(4,5) by (auto simp: m)
  have "seq (on_accepted True) (seq (on_initial_read E info True rq) (file_completions E d)) w = (w', Go)"
    using call_starts [OF run(1)] run(2) by (simp add: seq_assoc [symmetric]) (simp add: seq_def)
  then show ?thesis using run(3) w(6) by (auto simp: delivered_def drop_warnings_def)
qed

text \<open>
  The configured example answers a GET request: for \<^verbatim>\<open>/\<close> with the file \<^verbatim>\<open>./public/index.html\<close>,
  otherwise with the file the path names below \<^verbatim>\<open>./public/\<close>. From the acceptance of the call
  to its end the file is delivered, and the destructor has nothing to warn about. The
  headers are the length and the date only: a content type is never sent, although the
  middleware for it is registered, because the handler continues on the connection that
  \<^verbatim>\<open>skip_body\<close> passes on, which is not the wrapper.
\<close>

theorem example_serves:
  fixes E :: "('k, 'u) env" and x :: 'u and rq0 :: request
  assumes T: "ttl_replace_ok (e_ttl E)" "ttl_join_ok (e_ttl E)" "parse_route (e_ttl E) ''/{fs_path:.*}'' = Inr [fs_part]"
    and info: "example_router (e_ttl E) mimefile = Inr info"
    and rq: "rq_method rq = ''GET''" "parse_uri (rq_resource rq) = Inr u" "parse_uri (index_resource (rq_resource rq)) = Inr v"
    and p: "path v = ''/'' @ p" "one_line p" "fresh_file E 0 (''./public/'' @ p) e d (received E rq (new_connection x rq0))"
  shows "\<exists>w'. seq (on_accepted True) (seq (on_initial_read E info True rq) (file_completions E d)) (new_connection x rq0) = (w', Go)
    \<and> delivered (file_response E e empty_response) d (new_connection x rq0) w'
    \<and> drop_warnings w' = []"
  using example_call [OF T info rq p] .

text \<open>A directory with one page, and a table with its type.\<close>

definition page_os :: os where
  "page_os = secret_os\<lparr>os_exists := (\<lambda>p. Inr (p = ''./public/index.html'')), os_canonical := (\<lambda>_. Inr ''/srv/public/index.html''),
     os_open := (\<lambda>_. \<lparr>is_data = ''<p>hi</p>'', is_good = True\<rparr>)\<rparr>"

definition page_env :: "(string, unit) env" where
  "page_env = demo_env\<lparr>e_fs := (\<lambda>_. osfilesystem page_os)\<rparr>"

definition page_entry :: fs_entry where
  "page_entry = secret_entry\<lparr>fe_name := ''/srv/public/index.html''\<rparr>"

lemma page_env_facts:
  "e_ttl page_env = ttl_ref" "e_date page_env = zero_date" "e_fs page_env i = osfilesystem page_os"
  by (simp_all add: page_env_def demo_env_def)

lemma page_env_ttl:
  "ttl_replace_ok (e_ttl page_env)" "ttl_join_ok (e_ttl page_env)"
  "parse_route (e_ttl page_env) ''/{fs_path:.*}'' = Inr [fs_part]"
proof -
  have "parse_route ttl_ref ''/{fs_path:.*}'' = Inr [fs_part]" by code_simp
  then show "ttl_replace_ok (e_ttl page_env)" "ttl_join_ok (e_ttl page_env)"
    "parse_route (e_ttl page_env) ''/{fs_path:.*}'' = Inr [fs_part]" by (simp_all add: page_env_facts)
qed

lemma page_env_info: "\<exists>info. example_router (e_ttl page_env) (Some ''text/html html'') = Inr info"
proof -
  have "case mime_type_file ttl_ref (Some ''text/html html'') of Inl _ \<Rightarrow> False | Inr _ \<Rightarrow> True" by code_simp
  then show ?thesis using example_router_eq [OF page_env_ttl] by (auto simp: page_env_facts split: sum.splits)
qed

lemma page_found:
  assumes "map_of (w_req_headers w) ''if-modified-since'' = None"
  shows "fresh_file page_env 0 ''./public/index.html'' page_entry ''<p>hi</p>'' w"
proof -
  have "ttl_to_lower ttl_ref ''If-Modified-Since'' = ''if-modified-since''" by code_simp
  then have "get_header (e_ttl page_env) w ''If-Modified-Since'' = []"
    using assms by (simp add: get_header_map page_env_facts)
  then show ?thesis
    by (simp add: fresh_file_def page_env_facts osfilesystem_def page_os_def secret_os_def osfs_get_file_def osfs_open_file_def
        secret_entry_def page_entry_def is_file_def last_modified_def Let_def zero_date_def)
qed

lemma index_uri: "parse_uri ''/'' = Inr \<lparr>path = ''/'', fname = [], ext = [], query = []\<rparr>"
  "parse_uri ''/index.html'' = Inr \<lparr>path = ''/index.html'', fname = ''index.html'', ext = ''html'', query = []\<rparr>"
  by code_simp+

theorem example_serves_witness:
  "\<exists>info w'. example_router ttl_ref (Some ''text/html html'') = Inr info
    \<and> seq (on_accepted True) (seq (on_initial_read page_env info True (demo_request\<lparr>rq_resource := ''/''\<rparr>))
        (file_completions page_env ''<p>hi</p>'')) (new_connection () demo_request) = (w', Go)
    \<and> delivered (file_response page_env page_entry empty_response) ''<p>hi</p>'' (new_connection () demo_request) w'
    \<and> drop_warnings w' = []"
proof -
  let ?rq = "demo_request\<lparr>rq_resource := ''/''\<rparr>"
  let ?v = "\<lparr>path = ''/index.html'', fname = ''index.html'', ext = ''html'', query = []\<rparr>"
  obtain info where info: "example_router (e_ttl page_env) (Some ''text/html html'') = Inr info"
    using page_env_info by blast
  have rq: "rq_method ?rq = ''GET''" "parse_uri (rq_resource ?rq) = Inr \<lparr>path = ''/'', fname = [], ext = [], query = []\<rparr>"
    "parse_uri (index_resource (rq_resource ?rq)) = Inr ?v"
    by (simp_all add: demo_request_def index_resource_def index_uri)
  have p: "path ?v = ''/'' @ ''index.html''" "one_line ''index.html''" by (simp_all add: one_line_def any_matches_def)
  have found: "fresh_file page_env 0 (''./public/'' @ ''index.html'') page_entry ''<p>hi</p>''
      (received page_env ?rq (new_connection () demo_request))"
    using page_found [of "received page_env ?rq (new_connection () demo_request)"]
    by (simp add: new_connection_def received_def demo_request_def)
  show ?thesis using example_serves [OF page_env_ttl info rq p found] info by (auto simp: page_env_facts)
qed

end
