(* ===== verification/Example_Chat.thy ===== *)
theory Example_Chat imports Server Example_App
begin

text \<open>
  The websocket side of \<^verbatim>\<open>src/example_app/main.cpp\<close>: its two handlers make the hub a chat room.
  And its \<^verbatim>\<open>main\<close>: configuration, start, the loop over the console and the shutdown, with the
  exceptions on the way.
\<close>

section \<open>The chat room\<close>

text \<open>The handler numbered 0 is \<^verbatim>\<open>defaulthandler\<close>, the one numbered 1 is \<^verbatim>\<open>wshandler\<close>.\<close>

definition ws_log :: "string \<Rightarrow> ('k, 'u) ws_world act" where
  "ws_log s = modify (\<lambda>w. w\<lparr>ww_log := ww_log w @ [s]\<rparr>)"

definition peer_text :: "'k ws_con \<Rightarrow> string" where
  "peer_text x = wc_client_ip x @ '':'' @ dec_nat (unat (ws_client_port x))"

definition chat_connect :: "nat \<Rightarrow> nat \<Rightarrow> ('k, 'u) ws_world act" where
  "chat_connect h c =
     (if h = 0 then
        seq (set_connection_group c ''default'')
            (read_state (\<lambda>w. ws_log (''Opened connection from '' @ peer_text (ww_con w c))))
      else skip)"

definition chat_message :: "nat \<Rightarrow> nat \<Rightarrow> bool \<Rightarrow> string \<Rightarrow> ('k, 'u) ws_world act" where
  "chat_message h c bin msg =
     (if h = 1 then seq (ws_log (''Message '' @ msg)) (broadcast_con c bin msg) else skip)"

definition chat_disconnect :: "nat \<Rightarrow> nat \<Rightarrow> ('k, 'u) ws_world act" where
  "chat_disconnect h c =
     (if h = 1 then read_state (\<lambda>w. ws_log (''Closed connection from '' @ peer_text (ww_con w c))) else skip)"

definition chat_env :: "(string \<Rightarrow> string) \<Rightarrow> ('k \<Rightarrow> ('k, 'u) ws_world act) \<Rightarrow> ('k, 'u) ws_env" where
  "chat_env lower cb = \<lparr>we_lower = lower, we_cb = cb, we_connect = chat_connect, we_message = chat_message,
     we_disconnect = chat_disconnect\<rparr>"

definition chat_hub :: "('k, 'u) ws_world act" where
  "chat_hub = seq (set_default_handler (Some 0)) (add_group ''default'' (Some 1))"

text \<open>The two groups the example sets up; nothing it does later takes them away.\<close>

definition chat_groups :: "('k, 'u) ws_world \<Rightarrow> bool" where
  "chat_groups w \<longleftrightarrow>
     (\<exists>d. ww_groups w [] = Some d \<and> g_handler d = Some 0) \<and>
     (\<exists>g. ww_groups w ''default'' = Some g \<and> g_handler g = Some 1)"

lemma chat_hub_groups: "snd (chat_hub (new_hub w)) = Go \<and> chat_groups (fst (chat_hub (new_hub w)))
    \<and> members_ok (fst (chat_hub (new_hub w)))"
proof -
  have "members_ok (new_hub w)" by (simp add: members_ok_def new_hub_def empty_group_def)
  moreover have "keeps members_ok (chat_hub :: ('a, 'b) ws_world act)"
    unfolding chat_hub_def by (intro keeps_seq keeps_default_handler keeps_add_group)
  moreover have "snd (chat_hub (new_hub w)) = Go \<and> chat_groups (fst (chat_hub (new_hub w)))"
    by (simp add: chat_hub_def chat_groups_def set_default_handler_def add_group_def at_group_def act_simps new_hub_def
        empty_group_def upd_group_def)
  ultimately show ?thesis by (auto simp: keeps_def)
qed

definition members :: "('k, 'u) ws_world \<Rightarrow> nat set" where
  "members w = set (get_group_connections w ''default'')"

text \<open>Someone enters: the default handler moves the connection into the room.\<close>

lemma chat_enter:
  fixes lower :: "string \<Rightarrow> string" and cb :: "'k \<Rightarrow> ('k, 'u) ws_world act" and w :: "('k, 'u) ws_world"
  assumes ok: "members_ok w" "chat_groups w" and new: "\<And>n. c \<notin> set (get_group_connections w n)"
  defines "w' \<equiv> fst (hub_on_connect (chat_env lower cb) c w)"
  shows "snd (hub_on_connect (chat_env lower cb) c w) = Go" "members_ok w'" "chat_groups w'"
    "members w' = insert c (members w)"
    "\<And>d. wc_queue (ww_con w' d) = wc_queue (ww_con w d) \<and> wc_locked (ww_con w' d) = wc_locked (ww_con w d)
       \<and> wc_done (ww_con w' d) = wc_done (ww_con w d)"
proof -
  obtain d where d: "ww_groups w [] = Some d" "g_handler d = Some 0" using ok(2) by (auto simp: chat_groups_def)
  obtain g where g: "ww_groups w ''default'' = Some g" "g_handler g = Some 1" using ok(2) by (auto simp: chat_groups_def)
  have out: "c \<notin> set (g_cons h)" if "ww_groups w n = Some h" for n h
    using new [of n] that by (simp add: get_group_connections_def)
  define v where "v = upd_group [] (\<lambda>g. g\<lparr>g_cons := set_insert c (g_cons g)\<rparr>)
     (upd_con c (\<lambda>x. x\<lparr>wc_group := Some (Some [])\<rparr>) w)"
  have v: "members_ok v" unfolding v_def using ok(1) out by (intro members_join) auto
  have vg: "group_of v c = Some ([], d\<lparr>g_cons := set_insert c (g_cons d)\<rparr>)" "ww_groups v ''default'' = Some g"
    using d(1) g(1) by (simp_all add: v_def group_of_def)
  let ?u = "upd_group ''default'' (\<lambda>g. g\<lparr>g_cons := set_insert c (g_cons g)\<rparr>)
      (upd_con c (\<lambda>x. x\<lparr>wc_group := Some (Some ''default'')\<rparr>) (leave c [] v))"
  have move: "set_connection_group c ''default'' v = (?u, Go)"
    using vg by (simp add: set_connection_group_def act_simps leave_def)
  then have u: "members_ok ?u" using keepsD [OF keeps_set_connection_group v, of c "''default''"] by simp
  have run: "hub_on_connect (chat_env lower cb) c w =
      (?u\<lparr>ww_log := ww_log ?u @ [''Opened connection from '' @ peer_text (ww_con ?u c)]\<rparr>, Go)"
    using d move
    by (simp add: hub_on_connect_def at_group_def act_simps call_handler_def chat_env_def chat_connect_def ws_log_def
        flip: v_def)
  show "snd (hub_on_connect (chat_env lower cb) c w) = Go" by (simp add: run)
  show "members_ok w'" using u by (simp add: w'_def run members_ok_def)
  show "chat_groups w'" using d g by (simp add: w'_def run chat_groups_def leave_def v_def)
  show "members w' = insert c (members w)"
    using g by (simp add: w'_def run members_def get_group_connections_def leave_def v_def)
  show "wc_queue (ww_con w' d) = wc_queue (ww_con w d) \<and> wc_locked (ww_con w' d) = wc_locked (ww_con w d)
       \<and> wc_done (ww_con w' d) = wc_done (ww_con w d)" for d
    by (simp add: w'_def run leave_def v_def)
qed

lemma chat_speak:
  assumes "members_ok w" "chat_groups w" "c \<in> members w" "\<forall>d \<in> members w. \<not> wc_locked (ww_con w d)"
  shows "hub_on_message (chat_env lower cb) c b m w =
    (w\<lparr>ww_log := ww_log w @ [''Message '' @ m],
       ww_con := \<lambda>d. if d \<in> members w \<and> \<not> wc_done (ww_con w d)
          then enqueued (data_response b m) None (ww_con w d) else ww_con w d\<rparr>, Go)"
proof -
  obtain d where d: "ww_groups w [] = Some d" using assms(2) by (auto simp: chat_groups_def)
  obtain g where g: "ww_groups w ''default'' = Some g" "g_handler g = Some 1" using assms(2) by (auto simp: chat_groups_def)
  have mem: "members w = set (g_cons g)" using g by (simp add: members_def get_group_connections_def)
  have grp: "group_of w c = Some (''default'', g)" using members_single [OF assms(1) g(1)] assms(3) mem by simp
  let ?w = "w\<lparr>ww_log := ww_log w @ [''Message '' @ m]\<rparr>"
  have grp': "group_of ?w c = Some (''default'', g)" using grp by (simp add: group_of_def split: option.splits)
  have con: "ww_con ?w = ww_con w" by simp
  have "distinct (g_cons g)" using assms(1) g(1) by (auto simp: members_ok_def)
  then have "for_each (g_cons g) (\<lambda>c. send_message c b m) ?w =
     (?w\<lparr>ww_con := \<lambda>c. if c \<in> set (g_cons g) \<and> \<not> wc_done (ww_con w c)
          then enqueued (data_response b m) None (ww_con w c) else ww_con w c\<rparr>, Go)"
    using for_each_send [of "g_cons g" ?w b m] assms(4) mem unfolding con by blast
  then show ?thesis using d grp grp' g(2) mem
    by (simp add: hub_on_message_def at_group_def act_simps call_handler_def chat_env_def chat_message_def ws_log_def
        broadcast_con_def)
qed

section \<open>The program\<close>

text \<open>The loop over the console: what is left of the lines when it stops.\<close>

fun read_console :: "string list \<Rightarrow> string list" where
  "read_console [] = []"
| "read_console (line # ls) =
     (if line = ''quit'' \<or> line = ''shutdown'' \<or> line = ''q'' then ls else read_console ls)"

text \<open>
  \<^verbatim>\<open>main\<close> after the server was constructed. \<open>workers\<close> is what the worker threads do while the
  console is read, \<open>ok\<close> whether gRPC could start. The destructor shuts the server down however the block ends;
  what it throws ends the process.
\<close>

definition server_log :: "string \<Rightarrow> ('k, 'u) server act" where
  "server_log s = modify (\<lambda>v. v\<lparr>sv_log := sv_log v @ [s]\<rparr>)"

definition main_block :: "routing_info result \<Rightarrow> bool \<Rightarrow> ('k, 'u) server act \<Rightarrow> ('k, 'u) server act" where
  "main_block router ok workers =
     attempt router (\<lambda>info.
       seq (on_ws chat_hub)
      (seq (start_server ok)
      (seq (server_log ''Init done!'')
      (seq workers (shutdown_server None)))))"

definition destroy_server :: "('k, 'u) server act" where
  "destroy_server = seq (try_catch (shutdown_server None) (\<lambda>_. terminate)) clear_workers"

text \<open>The exit code, and what goes to the error output; \<open>None\<close> when the process is ended by the runtime.\<close>

definition fatal :: "exc \<Rightarrow> (int \<times> string) option" where
  "fatal e = (if is_std_exception e then Some (-1, ''Fatal error:'' @ exception_what e) else None)"

definition example_main ::
    "ttl \<Rightarrow> string option \<Rightarrow> string option \<Rightarrow> 32 word \<Rightarrow> bool \<Rightarrow> ('k, 'u) server act \<Rightarrow> ('k, 'u) ws_world
     \<Rightarrow> (int \<times> string) option" where
  "example_main T mimefile env cores ok workers w =
     (case new_server env cores 0 w of
        Inl e \<Rightarrow> fatal e
      | Inr v \<Rightarrow> (case main_block (example_router T mimefile) ok workers v of
          (v', Go) \<Rightarrow> (if snd (destroy_server v') = Go then Some (0, []) else None)
        | (v', Throw e) \<Rightarrow> (if snd (destroy_server v') = Go then fatal e else None)
        | _ \<Rightarrow> None))"

section \<open>Properties\<close>

text \<open>
  C18. The example is a chat room: a connection that is new to the hub enters the room, and what it
  then says is queued once, at the end, for everyone in the room who is not done, itself included,
  and for nobody else.
\<close>

theorem example_chat:
  assumes ok: "members_ok w" "chat_groups w" and new: "\<And>n. c \<notin> set (get_group_connections w n)"
    and free: "\<forall>d \<in> insert c (members w). \<not> wc_locked (ww_con w d)"
  shows "\<exists>w'. seq (hub_on_connect (chat_env lower cb) c) (hub_on_message (chat_env lower cb) c b m) w = (w', Go)
    \<and> members w' = insert c (members w)
    \<and> (\<forall>d. wc_queue (ww_con w' d) =
        (if d \<in> insert c (members w) \<and> \<not> wc_done (ww_con w d) then wc_queue (ww_con w d) @ [(data_response b m, None)]
         else wc_queue (ww_con w d)))"
proof -
  note enter = chat_enter [OF ok new, of lower cb]
  define w1 where "w1 = fst (hub_on_connect (chat_env lower cb) c w)"
  have 1: "hub_on_connect (chat_env lower cb) c w = (w1, Go)" using enter(1) by (simp add: w1_def prod_eq_iff)
  have w1: "members_ok w1" "chat_groups w1" "members w1 = insert c (members w)"
    "wc_queue (ww_con w1 d) = wc_queue (ww_con w d)" "wc_done (ww_con w1 d) = wc_done (ww_con w d)"
    "wc_locked (ww_con w1 d) = wc_locked (ww_con w d)" for d
    using enter(2-5) by (simp_all add: w1_def)
  have free1: "\<forall>d \<in> members w1. \<not> wc_locked (ww_con w1 d)" using free w1(3,6) by auto
  have member: "c \<in> members w1" by (simp add: w1(3))
  let ?w = "w1\<lparr>ww_log := ww_log w1 @ [''Message '' @ m],
       ww_con := \<lambda>d. if d \<in> members w1 \<and> \<not> wc_done (ww_con w1 d)
          then enqueued (data_response b m) None (ww_con w1 d) else ww_con w1 d\<rparr>"
  have "hub_on_message (chat_env lower cb) c b m w1 = (?w, Go)"
    by (rule chat_speak [OF w1(1,2) member free1])
  then have "seq (hub_on_connect (chat_env lower cb) c) (hub_on_message (chat_env lower cb) c b m) w = (?w, Go)"
    using 1 by (simp add: seq_def)
  moreover have "members ?w = insert c (members w)"
    using w1(3) by (simp add: members_def get_group_connections_def)
  ultimately show ?thesis
    using w1(3-5) by (intro exI [of _ ?w]) (simp add: enqueued_def)
qed

definition room_world :: "(nat, unit) ws_world" where
  "room_world = fst (chat_hub quiet_ws_world)"

theorem example_chat_witness:
  "\<exists>w'. seq (hub_on_connect (chat_env id (\<lambda>_. skip)) 4) (hub_on_message (chat_env id (\<lambda>_. skip)) 4 False ''hi'') room_world = (w', Go)
    \<and> members w' = {4} \<and> wc_queue (ww_con w' 4) = [(data_response False ''hi'', None)]"
proof -
  have hub: "chat_groups room_world" "members_ok room_world"
    using chat_hub_groups [of quiet_ws_world] by (simp_all add: room_world_def new_hub_quiet)
  have fields: "ww_con room_world = (\<lambda>_. quiet_ws_con)" "get_group_connections room_world n = []" for n
    by (auto simp: room_world_def chat_hub_def set_default_handler_def add_group_def at_group_def act_simps quiet_ws_world_def
        quiet_world_def new_hub_def empty_group_def upd_group_def get_group_connections_def)
  have "members room_world = {}" by (simp add: members_def fields)
  then show ?thesis
    using example_chat [OF hub(2,1), of 4 id "\<lambda>_. skip" False "''hi''"]
    by (auto simp: fields quiet_ws_con_def)
qed

text \<open>
  Without the file \<^verbatim>\<open>mime.types\<close> the example does not start: the exception of the router's
  configuration leaves \<^verbatim>\<open>main\<close>, the server is shut down without having run, and the exit code
  tells of the failure.
\<close>

theorem example_needs_mime_file:
  assumes T: "ttl_replace_ok T" "ttl_join_ok T" "parse_route T ''/{fs_path:.*}'' = Inr [fs_part]"
    and server: "new_server env cores 0 w = Inr v" "snd (hub_close_all (new_hub w)) = Go"
  shows "example_main T None env cores ok workers w = Some (-1, ''Fatal error:Failed to load mime file'')"
proof -
  have r: "example_router T None = Inl (Std_exception ''Failed to load mime file'')"
    by (simp add: example_router_eq [OF T] mime_type_file_def load_file_def)
  note v = new_server_fields [OF server(1)]
  obtain w' where close: "hub_close_all (new_hub w) = (w', Go)" using server(2) by (metis prod.collapse)
  then have "snd (destroy_server v) = Go"
    using v shutdown_server_eq [of v w'] by (simp add: destroy_server_def clear_workers_def act_simps)
  then show ?thesis
    by (simp add: example_main_def server(1) main_block_def r act_simps fatal_def is_std_exception_def exception_what_def)
qed

theorem example_needs_mime_file_witness:
  "example_main ttl_ref None (Some ''2'') 8 True skip quiet_ws_world = Some (-1, ''Fatal error:Failed to load mime file'')"
proof -
  have p: "parse_route ttl_ref ''/{fs_path:.*}'' = Inr [fs_part]" by code_simp
  have "snd (hub_close_all (new_hub quiet_ws_world)) = Go" by code_simp
  from example_needs_mime_file [OF ttl_ref_ok p new_demo_server this] show ?thesis .
qed

end
