(* ===== verification/Loop_Safety.thy ===== *)
theory Loop_Safety imports Event_Loop Ws_Delivery Example_Chat
begin

text \<open>
  The invariants of single connections, carried over to the loop of a worker: it gives new
  connections unused addresses, so what \<open>Ws_Delivery\<close> assumes of an acceptance holds in every state
  the loop reaches.
\<close>

section \<open>Addresses in use\<close>

text \<open>From \<open>N\<close> on no address was used, and no group has such a member.\<close>

definition known :: "nat \<Rightarrow> ('k, 'u) ws_world \<Rightarrow> bool" where
  "known N w \<longleftrightarrow> (\<forall>n \<ge> N. unused (ww_con w n)) \<and> (\<forall>m g. ww_groups w m = Some g \<longrightarrow> (\<forall>c \<in> set (g_cons g). c < N))"

named_theorems known_intros \<open>actions that use known addresses only\<close>

lemma knownD: "known N w \<Longrightarrow> ww_groups w m = Some g \<Longrightarrow> c \<in> set (g_cons g) \<Longrightarrow> c < N"
  by (auto simp: known_def)

lemma known_basic [known_intros]:
  "keeps (known N) skip" "keeps (known N) (throw e)" "keeps (known N) undefined_act" "keeps (known N) block"
  by auto

lemma known_seq [known_intros]: "keeps P a \<Longrightarrow> keeps P b \<Longrightarrow> keeps P (seq a b)"
  by auto

lemma known_try_catch [known_intros]: "keeps P a \<Longrightarrow> (\<And>e. keeps P (h e)) \<Longrightarrow> keeps P (try_catch a h)"
  by auto

lemma known_upd_con [known_intros]: "c < N \<Longrightarrow> keeps (known N) (modify (upd_con c f))"
  by (rule keeps_modify) (auto simp: known_def)

lemma known_same [known_intros]:
  "(\<And>w. ww_con (f w) = ww_con w) \<Longrightarrow> (\<And>w. ww_groups (f w) = ww_groups w) \<Longrightarrow> keeps (known N) (modify f)"
  by (rule keeps_modify) (simp add: known_def)

lemma known_upd_group [known_intros]:
  "(\<And>g. set (g_cons (f g)) \<subseteq> set (g_cons g) \<union> {c. c < N}) \<Longrightarrow> keeps (known N) (modify (upd_group n f))"
  by (rule keeps_modify) (fastforce simp: known_def upd_group_def)

lemma known_for_each: "(\<And>x. x \<in> set xs \<Longrightarrow> keeps P (f x)) \<Longrightarrow> keeps P (for_each xs f)"
  by (induction xs) auto

lemma known_release: "c < N \<Longrightarrow> known N w \<Longrightarrow> known N (fst (release c w))"
  by (rule keepsD) (auto simp: release_def intro: known_intros)

lemma known_locked [known_intros]:
  assumes "c < N" "keeps (known N) a"
  shows "keeps (known N) (locked c a)"
proof -
  have "known N (fst (locked c a w))" if w: "known N w" for w
  proof -
    obtain w1 f where a: "a (upd_con c (\<lambda>x. x\<lparr>wc_locked := True\<rparr>) w) = (w1, f)" by fastforce
    have "known N (upd_con c (\<lambda>x. x\<lparr>wc_locked := True\<rparr>) w)" using w assms(1) by (auto simp: known_def)
    then have w1: "known N w1" using assms(2) a by (metis keepsD fst_conv)
    then show ?thesis using w a known_release [OF assms(1) w1]
      by (cases f) (simp_all add: locked_def)
  qed
  then show ?thesis by (simp add: keeps_def)
qed

lemma known_read_state [known_intros]: "(\<And>w. known N w \<Longrightarrow> keeps (known N) (f w)) \<Longrightarrow> keeps (known N) (read_state f)"
  by (rule keeps_read_state)

lemma known_queue [known_intros]: "c < N \<Longrightarrow> keeps (known N) (queue_response c m cb)"
  unfolding queue_response_def write_front_def
  by (auto intro!: known_intros split: list.split)

lemma known_sends [known_intros]:
  "c < N \<Longrightarrow> keeps (known N) (send_message c b s)" "c < N \<Longrightarrow> keeps (known N) (send_message_cb c b s cb)"
  "c < N \<Longrightarrow> keeps (known N) (ws_close c)" "c < N \<Longrightarrow> keeps (known N) (ws_set_header lower c k v r)"
  unfolding send_message_def send_message_cb_def ws_close_def ws_set_header_def
  by (auto intro!: known_intros)

lemma known_at_group: "(\<And>g. (\<And>c. c \<in> set (g_cons g) \<Longrightarrow> c < N) \<Longrightarrow> keeps (known N) (f g)) \<Longrightarrow> keeps (known N) (at_group n f)"
  by (rule keeps_at_group) (meson keepsD knownD)

lemma known_call_handler [known_intros]: "(\<And>i. keeps P (f i)) \<Longrightarrow> keeps P (call_handler f h)"
  by auto

lemma group_of_known: "known N w \<Longrightarrow> group_of w c = Some (n, g) \<Longrightarrow> d \<in> set (g_cons g) \<Longrightarrow> d < N"
  by (auto simp: group_of_def knownD split: option.splits)

lemma known_broadcast [known_intros]:
  "keeps (known N) (broadcast n b m)" "keeps (known N) (broadcast_con c b m)" "keeps (known N) (close_group n)"
  unfolding broadcast_def broadcast_con_def close_group_def get_group_connections_def
  by (auto intro!: known_intros known_for_each intro: knownD [OF _ sym] knownD group_of_known split: option.split prod.split)

lemma known_groups [known_intros]:
  "keeps (known N) (set_default_handler h)" "keeps (known N) (add_group n h')"
  unfolding set_default_handler_def add_group_def
  by (auto intro!: known_at_group known_intros keeps_modify simp: Let_def known_def empty_group_def)

lemma known_set_connection_group [known_intros]: "c < N \<Longrightarrow> keeps (known N) (set_connection_group c n)"
  unfolding set_connection_group_def
  by (auto intro!: known_intros split: option.split dest: set_remove1_subset [THEN subsetD])

lemma known_close_all [known_intros]: "keeps (known N) hub_close_all"
  unfolding hub_close_all_def
  by (intro known_read_state known_for_each known_at_group known_seq known_sends known_upd_group) auto

section \<open>Handlers\<close>

text \<open>
  Handlers of the application that use their own connection, the hub, and its groups keep to known
  addresses, and do not wait for ever or do anything undefined.
\<close>

definition ws_env_local :: "('k, 'u) ws_env \<Rightarrow> bool" where
  "ws_env_local E \<longleftrightarrow>
     (\<forall>N k. keeps (known N) (we_cb E k)) \<and> (\<forall>N h. \<forall>c < N. keeps (known N) (we_connect E h c)) \<and>
     (\<forall>N h b m. \<forall>c < N. keeps (known N) (we_message E h c b m)) \<and> (\<forall>N h. \<forall>c < N. keeps (known N) (we_disconnect E h c))"

lemma known_hub_events:
  assumes "ws_env_local E" "c < N"
  shows "keeps (known N) (hub_on_connect E c)" "keeps (known N) (hub_on_message E c b m)" "keeps (known N) (hub_on_disconnect E c)"
  using assms unfolding hub_on_connect_def hub_on_message_def hub_on_disconnect_def Let_def ws_env_local_def
  by (auto intro!: known_at_group known_intros split: option.split dest: set_remove1_subset [THEN subsetD])

lemma known_issue [known_intros]: "c < N \<Longrightarrow> keeps (known N) (issue_ws c p)"
  unfolding issue_ws_def by (rule known_upd_con)

lemma known_release_act [known_intros]: "c < N \<Longrightarrow> keeps (known N) (release c)"
  unfolding release_def by (rule known_upd_con)

lemma known_unless_done [known_intros]:
  "c < N \<Longrightarrow> keeps (known N) a \<Longrightarrow> keeps (known N) b \<Longrightarrow> keeps (known N) (unless_done c a b)"
  unfolding unless_done_def by (auto intro!: known_intros)

lemma known_unlock_on_throw [known_intros]:
  assumes "c < N" "keeps (known N) a"
  shows "keeps (known N) (unlock_on_throw c a)"
proof -
  have "known N (fst (unlock_on_throw c a w))" if w: "known N w" for w
  proof -
    obtain w1 f where a: "a w = (w1, f)" by fastforce
    then have w1: "known N w1" using assms(2) w by (metis keepsD fst_conv)
    then show ?thesis using a known_release [OF assms(1) w1] by (cases f) (simp_all add: unlock_on_throw_def)
  qed
  then show ?thesis by (simp add: keeps_def)
qed

lemma known_log [known_intros]: "keeps (known N) (ws_log_exception e)"
  unfolding ws_log_exception_def by (auto intro!: known_intros)

lemma known_send_cb: "ws_env_local E \<Longrightarrow> c < N \<Longrightarrow> keeps (known N) (send_cb E c)"
  unfolding send_cb_def pop_and_write_def run_ws_cb_def write_front_def
  by (auto intro!: known_intros known_hub_events split: list.split option.split ws_cb.split simp: ws_env_local_def)

lemma known_complete:
  assumes "ws_env_local E" "c < N" "p \<noteq> Wp_accept"
  shows "keeps (known N) (ws_complete E c p ok a)"
  using assms unfolding ws_complete_def ws_on_request_def ws_on_connect_def ws_on_message_def
  by (auto intro!: known_intros known_hub_events known_send_cb split: ws_pending.split)

section \<open>The loop\<close>

lemma async_pending: "p \<notin> set (wc_pending (ww_con w c)) \<Longrightarrow> ws_async E c p ok a w = (w, Go)"
  by (simp add: ws_async_def act_simps)

lemma known_async:
  assumes "ws_env_local E" "c < N" "p \<noteq> Wp_accept"
  shows "keeps (known N) (ws_async E c p ok a)"
  unfolding ws_async_def
  using known_complete [OF assms] by (auto intro!: known_intros simp: assms(2))

lemma known_unused: "known N w \<Longrightarrow> N \<le> c \<Longrightarrow> p \<notin> set (wc_pending (ww_con w c))"
  by (auto simp: known_def unused_def)

text \<open>Accepting uses the next address.\<close>

lemma known_accept:
  assumes "known N w" "c < N"
  shows "known (Suc N) (fst (ws_async E c Wp_accept ok (a\<lparr>wa_con := N\<rparr>) w))"
proof -
  have mono: "known (Suc N) w" using assms(1) by (auto simp: known_def less_SucI)
  have "keeps (known (Suc N)) (ws_async E c Wp_accept ok (a\<lparr>wa_con := N\<rparr>))"
    unfolding ws_async_def ws_complete_def ws_on_accepted_def ws_start_def
    using assms(2) by (auto intro!: known_intros)
  then show ?thesis using mono by (rule keepsD)
qed

definition loop_ok :: "('k, 'j, 'u) loop \<Rightarrow> bool" where
  "loop_ok l \<longleftrightarrow> quiescent (lp_ws l) \<and> known (lp_next_ws l) (lp_ws l)"

lemma user_irrelevant [simp]: "quiescent (w\<lparr>ww_user := u\<rparr>) = quiescent w" "known N (w\<lparr>ww_user := u\<rparr>) = known N w"
  by (simp_all add: quiescent_def known_def)

lemma known_mono: "known N w \<Longrightarrow> N \<le> M \<Longrightarrow> known M w"
  by (fastforce simp: known_def)

lemma accept_goes_on:
  "snd (ws_async E c Wp_accept ok a w) = Go" "known N w \<Longrightarrow> c < N \<Longrightarrow> known N (fst (ws_async E c Wp_accept False a w))"
  by (auto simp: ws_async_def act_simps ws_complete_def ws_on_accepted_def ws_start_def issue_ws_def known_def)

lemma async_known:
  assumes "known N w" "ws_env_local E" "ws_async E c p ok (a\<lparr>wa_con := N\<rparr>) w = (w', g)"
  shows "known (if p = Wp_accept \<and> ok then Suc N else N) w'"
proof (cases "p \<in> set (wc_pending (ww_con w c))")
  case True
  then have c: "c < N" using known_unused [OF assms(1)] by (meson not_less)
  show ?thesis
  proof (cases "p = Wp_accept")
    case True
    then show ?thesis using assms(3) known_accept [OF assms(1) c, of E ok a] accept_goes_on(2) [OF assms(1) c, of E "a\<lparr>wa_con := N\<rparr>"]
      by (cases ok) simp_all
  next
    case False
    then show ?thesis using keepsD [OF known_async [OF assms(2) c False] assms(1), of ok "a\<lparr>wa_con := N\<rparr>"] assms(3) by simp
  qed
next
  case False
  then show ?thesis using assms(1,3) by (simp add: async_pending known_mono)
qed

lemma async_quiescent:
  assumes "quiescent w" "known N w" "ws_env_polite E" "ws_async E c p ok (a\<lparr>wa_con := N\<rparr>) w = (w', g)" "running g"
  shows "quiescent w' \<and> (\<forall>d. prefix (queued_total (ww_con w d)) (queued_total (ww_con w' d)))"
proof (cases "p \<in> set (wc_pending (ww_con w c))")
  case True
  then have "c < N" using known_unused [OF assms(2)] by (meson not_less)
  then have "arrival_ok w c p (a\<lparr>wa_con := N\<rparr>)" using assms(2) by (simp add: arrival_ok_def known_def)
  from ws_async_step [OF assms(1,3) this assms(4)] show ?thesis using assms(1,5) quiescent_le by blast
qed (use assms in \<open>simp add: async_pending\<close>)

text \<open>What happens on an HTTP connection leaves the websockets alone.\<close>

definition same_ws :: "('k, 'j, 'u) loop \<Rightarrow> ('k, 'j, 'u) loop \<Rightarrow> bool" where
  "same_ws l l' \<longleftrightarrow> lp_ws l' = lp_ws l \<and> lp_next_ws l' = lp_next_ws l"

lemma http_call_same_ws: "keeps (same_ws l) (turn S (Http_call c p ok rq))"
proof -
  have http: "keeps (same_ws l) (on_http c a)" for a
    by (auto simp: keeps_def on_http_def same_ws_def split: prod.split)
  have "keeps (same_ws l) (http_called S c p ok rq)" "keeps (same_ws l) (log_std e)" for e
    unfolding http_called_def start_http_def log_std_def
    by (auto split: http_call.split intro!: keeps_seq http keeps_modify simp: same_ws_def)
  then show ?thesis
    unfolding turn_def by (auto intro!: keeps_read_state keeps_seq keeps_try_catch keeps_modify simp: same_ws_def)
qed

text \<open>
  From one state of the loop to a later one nothing that a connection queued is dropped,
  repeated or overtaken: what was queued before comes first in what was queued by then.
\<close>

definition queued_grows :: "('k, 'j, 'u) loop \<Rightarrow> ('k, 'j, 'u) loop \<Rightarrow> bool" where
  "queued_grows l l' \<longleftrightarrow>
     (\<forall>c. prefix (queued_total (ww_con (lp_ws l) c)) (queued_total (ww_con (lp_ws l') c)))"

lemma queued_grows_refl: "lp_ws l' = lp_ws l \<Longrightarrow> queued_grows l l'"
  by (simp add: queued_grows_def)

lemma queued_grows_trans: "queued_grows l l1 \<Longrightarrow> queued_grows l1 l2 \<Longrightarrow> queued_grows l l2"
  unfolding queued_grows_def by (meson prefix_order.trans)

lemma loop_ok_turn:
  assumes "loop_ok l" "ws_env_polite (se_ws_env S)" "ws_env_local (se_ws_env S)" "turn S ev l = (l', f)" "running f"
  shows "loop_ok l' \<and> queued_grows l l'"
proof (cases ev)
  case (Http_call c p ok rq)
  have "same_ws l l'" using keepsD [OF http_call_same_ws, of l l S c p ok rq] assms(4) Http_call by (simp add: same_ws_def)
  then show ?thesis using assms(1) by (simp add: same_ws_def loop_ok_def queued_grows_refl)
next
  case (Http_done c i ok s)
  then show ?thesis using assms(1,4) by (auto simp: turn_def on_http_def loop_ok_def queued_grows_refl split: prod.splits)
next
  case (Ws_done c p ok a)
  let ?w = "(lp_ws l)\<lparr>ww_user := lp_user l\<rparr>" and ?N = "lp_next_ws l"
  have w: "quiescent ?w" "known ?N ?w" using assms(1) by (simp_all add: loop_ok_def)
  obtain w1 g where run: "ws_async (se_ws_env S) c p ok (a\<lparr>wa_con := ?N\<rparr>) ?w = (w1, g)" by fastforce
  have turn: "turn S ev l = (if g = Go
      then (l\<lparr>lp_ws := w1, lp_user := ww_user w1, lp_next_ws := if p = Wp_accept \<and> ok then Suc ?N else ?N\<rparr>, Go)
      else (l\<lparr>lp_ws := w1, lp_user := ww_user w1\<rparr>, g))"
    using run by (cases g) (simp_all add: Ws_done turn_def act_simps on_ws_world_def)
  have "f = g" using turn assms(4) by (auto split: if_splits)
  then have "quiescent w1" "\<forall>d. prefix (queued_total (ww_con (lp_ws l) d)) (queued_total (ww_con w1 d))"
    using async_quiescent [OF w assms(2) run] assms(5) by simp_all
  moreover have "known (if p = Wp_accept \<and> ok then Suc ?N else ?N) w1" by (rule async_known [OF w(2) assms(3) run])
  moreover have "p = Wp_accept \<Longrightarrow> g = Go" using accept_goes_on(1) run by (metis snd_conv)
  ultimately show ?thesis using turn assms(4) by (auto simp: loop_ok_def queued_grows_def split: if_splits)
next
  case No_function
  then show ?thesis using assms(1,4) by (simp add: turn_def act_simps queued_grows_refl)
qed

lemma loop_ok_turns:
  assumes "loop_ok l" "ws_env_polite (se_ws_env S)" "ws_env_local (se_ws_env S)" "for_each evs (turn S) l = (l', f)" "running f"
  shows "loop_ok l' \<and> queued_grows l l'"
  using assms(1,4)
proof (induction evs arbitrary: l)
  case (Cons ev evs)
  obtain l1 g where t: "turn S ev l = (l1, g)" by fastforce
  have g: "running g" using Cons.prems(2) t assms(5) by (cases g) (auto simp: act_simps)
  then have l1: "loop_ok l1" "queued_grows l l1" using loop_ok_turn [OF Cons.prems(1) assms(2,3) t] by simp_all
  show ?case
  proof (cases "g = Go")
    case True
    then show ?thesis using Cons.IH [OF l1(1)] Cons.prems(2) t queued_grows_trans [OF l1(2)] by (simp add: act_simps)
  next
    case False
    then have "l' = l1" using Cons.prems(2) t by (cases g) (auto simp: act_simps)
    then show ?thesis using l1 by simp
  qed
qed (simp add: act_simps queued_grows_refl)

lemma loop_ok_task:
  assumes "loop_ok l" "ws_env_polite (se_ws_env S)" "ws_env_local (se_ws_env S)" "async_task S evs l = (l', f)" "running f"
  shows "loop_ok l'"
proof -
  let ?N = "lp_next_ws l"
  let ?w = "upd_con ?N (\<lambda>_. new_ws_con\<lparr>wc_pending := [Wp_accept]\<rparr>) (lp_ws l)"
  have q: "quiescent ?w"
    using assms(1) by (simp add: loop_ok_def quiescent_def con_ok_def writing_def new_ws_con_def)
  have k: "known (Suc ?N) ?w"
    using assms(1) by (fastforce simp: loop_ok_def known_def)
  let ?l = "fst (start_http (fst (start_ws l)))"
  have "start_ws l = (l\<lparr>lp_ws := ?w\<lparr>ww_user := lp_user l\<rparr>, lp_user := lp_user l, lp_next_ws := Suc ?N\<rparr>, Go)"
    by (simp add: start_ws_def act_simps on_ws_world_def ws_start_def issue_ws_def comp_def new_ws_con_def upd_con_def)
  then have "loop_ok ?l" "for_each evs (turn S) ?l = (l', f)"
    using q k assms(4) by (simp_all add: async_task_def start_http_def act_simps loop_ok_def)
  then show ?thesis using loop_ok_turns assms(2,3,5) by blast
qed

section \<open>Properties\<close>

text \<open>
  C13. Whatever calls a worker accepts and in whatever order they complete, HTTP and websocket
  mixed, and wherever the run is cut in two, \<open>l1\<close> being the state after the first events and
  \<open>l2\<close> the one after the rest: as long as the worker runs, everything a websocket connection
  had written or still had queued in \<open>l1\<close> comes first, in the same order, in what it has
  written or queued in \<open>l2\<close>, so that nothing is dropped, repeated or overtaken, and once its
  queue is empty all of it was written. A connection has at most one write outstanding,
  exactly while its queue is not empty, and holds no mutex; no completion of a websocket is
  undefined. The handlers are those of an application that uses the hub and its own
  connections and does not block.
\<close>

theorem loop_ws_safe:
  assumes "quiescent (lp_ws l)" "known (lp_next_ws l) (lp_ws l)"
    and "ws_env_polite (se_ws_env S)" "ws_env_local (se_ws_env S)"
    and "async_task S evs1 l = (l1, Go)" "for_each evs2 (turn S) l1 = (l2, f)" "running f"
    and "x1 = ww_con (lp_ws l1) c" "x2 = ww_con (lp_ws l2) c"
  shows "prefix (queued_total x1) (queued_total x2) \<and>
    (wc_queue x2 \<noteq> [] \<or> prefix (queued_total x1) (wc_wire x2)) \<and>
    count_list (wc_pending x2) Wp_write \<le> 1 \<and>
    (wc_done x2 \<or> (Wp_write \<in> set (wc_pending x2) \<longleftrightarrow> wc_queue x2 \<noteq> [])) \<and>
    \<not> wc_locked x2 \<and> snd (turn S (Ws_done d p ok a) l2) \<noteq> Undefined"
proof -
  have "loop_ok l1" using loop_ok_task [OF _ assms(3-5)] assms(1,2) by (simp add: loop_ok_def running_def)
  then have ok: "loop_ok l2" and grows: "queued_grows l1 l2"
    using loop_ok_turns [OF _ assms(3,4,6,7)] by simp_all
  then have q: "quiescent (lp_ws l2)" and k: "known (lp_next_ws l2) (lp_ws l2)" by (simp_all add: loop_ok_def)
  let ?w = "(lp_ws l2)\<lparr>ww_user := lp_user l2\<rparr>" and ?a = "a\<lparr>wa_con := lp_next_ws l2\<rparr>"
  obtain w1 g where run: "ws_async (se_ws_env S) d p ok ?a ?w = (w1, g)" by fastforce
  have "g \<noteq> Undefined"
  proof (cases "p \<in> set (wc_pending (ww_con ?w d))")
    case True
    have k': "known (lp_next_ws l2) ?w" using k by simp
    have "d < lp_next_ws l2" using True known_unused [OF k'] by (meson not_less)
    then have "arrival_ok ?w d p ?a" using k' by (simp add: arrival_ok_def known_def)
    then show ?thesis using ws_async_step [of ?w _ d p ?a ok w1 g] assms(3) run q by (auto simp: meaningful_def)
  qed (use run in \<open>simp add: async_pending\<close>)
  then have "snd (turn S (Ws_done d p ok a) l2) \<noteq> Undefined"
    using run by (cases g) (simp_all add: turn_def act_simps on_ws_world_def)
  moreover have pre: "prefix (queued_total x1) (queued_total x2)"
    using grows assms(8,9) by (simp add: queued_grows_def)
  moreover have "wc_queue x2 \<noteq> [] \<or> prefix (queued_total x1) (wc_wire x2)"
    using pre by (cases "wc_queue x2") (auto simp: queued_total_def [of x2] split: if_splits)
  ultimately show ?thesis using q assms(9) by (auto simp: quiescent_def con_ok_def writing_def)
qed

text \<open>The chat room of the example in a worker: its handlers are polite and local.\<close>

lemma chat_polite: "(\<And>k. polite (cb k)) \<Longrightarrow> ws_env_polite (chat_env lower cb)"
  unfolding ws_env_polite_def chat_env_def chat_connect_def chat_message_def chat_disconnect_def ws_log_def
  by (auto intro!: polite_intros polite_same_con)

lemma chat_local: "(\<And>N k. keeps (known N) (cb k)) \<Longrightarrow> ws_env_local (chat_env lower cb)"
  unfolding ws_env_local_def chat_env_def chat_connect_def chat_message_def chat_disconnect_def ws_log_def
  by (auto intro!: known_intros)

definition chat_services :: "(string, nat, unit) services" where
  "chat_services = \<lparr>se_env = demo_env, se_info = new_router, se_ws_env = chat_env (map lower_char) (\<lambda>_. skip)\<rparr>"

definition empty_ws_world :: "(nat, unit) ws_world" where
  "empty_ws_world = \<lparr>ww_con = \<lambda>_. new_ws_con, ww_groups = \<lambda>_. None, ww_names = [], ww_log = [], ww_user = ()\<rparr>"

definition chat_loop :: "(string, nat, unit) loop" where
  "chat_loop = new_loop\<lparr>lp_ws := fst (chat_hub (new_hub empty_ws_world))\<rparr>"

text \<open>Two clients enter the room, one says something, an HTTP call is accepted in between.\<close>

definition chat_events :: "event list" where
  "chat_events = [Ws_done 0 Wp_accept True (ws_arrives []), Ws_done 0 Wp_request True (ws_arrives ''/chat''),
     Ws_done 1 Wp_accept True (ws_arrives []), Http_call 0 Accept True no_request,
     Ws_done 1 Wp_request True (ws_arrives ''/chat''), Ws_done 0 Wp_read True (ws_arrives []), Ws_done 0 Wp_write True (ws_arrives [])]"

lemma loop_ws_safe_witness:
  "let l1 = fst (async_task chat_services (take 6 chat_events) chat_loop);
       l2 = fst (for_each (drop 6 chat_events) (turn chat_services) l1) in
    length (queued_total (ww_con (lp_ws l1) 0)) = 2 \<and> length (wc_wire (ww_con (lp_ws l1) 0)) = 1 \<and>
    length (wc_wire (ww_con (lp_ws l2) 0)) = 2 \<and>
    prefix (queued_total (ww_con (lp_ws l1) 0)) (queued_total (ww_con (lp_ws l2) 0)) \<and>
    count_list (wc_pending (ww_con (lp_ws l2) 0)) Wp_write \<le> 1 \<and> \<not> wc_locked (ww_con (lp_ws l2) 0)"
proof -
  define l1 where "l1 = fst (async_task chat_services (take 6 chat_events) chat_loop)"
  define l2 where "l2 = fst (for_each (drop 6 chat_events) (turn chat_services) l1)"
  have run1: "async_task chat_services (take 6 chat_events) chat_loop = (l1, Go)"
  proof -
    have "snd (async_task chat_services (take 6 chat_events) chat_loop) = Go" by code_simp
    then show ?thesis by (simp add: l1_def prod_eq_iff)
  qed
  have run2: "for_each (drop 6 chat_events) (turn chat_services) l1 = (l2, Go)"
  proof -
    have "snd (for_each (drop 6 chat_events) (turn chat_services) l1) = Go" unfolding l1_def by code_simp
    then show ?thesis by (simp add: l2_def prod_eq_iff)
  qed
  have start: "lp_ws chat_loop = fst (chat_hub (new_hub empty_ws_world))" "lp_next_ws chat_loop = 0"
    by (simp_all add: chat_loop_def new_loop_def)
  have "polite chat_hub" unfolding chat_hub_def by (intro polite_intros)
  then have q: "quiescent (lp_ws chat_loop)"
    unfolding start(1) by (rule polite_quiescent)
      (simp add: quiescent_def new_hub_def empty_ws_world_def con_ok_def writing_def new_ws_con_def)
  have "keeps (known 0) chat_hub" unfolding chat_hub_def by (intro known_intros)
  then have k: "known (lp_next_ws chat_loop) (lp_ws chat_loop)"
    unfolding start by (rule keepsD)
      (auto simp: known_def new_hub_def empty_ws_world_def unused_def new_ws_con_def empty_group_def split: if_splits)
  have env: "ws_env_polite (se_ws_env chat_services)" "ws_env_local (se_ws_env chat_services)"
    by (auto simp: chat_services_def intro!: chat_polite chat_local)
  have "length (queued_total (ww_con (lp_ws l1) 0)) = 2" "length (wc_wire (ww_con (lp_ws l1) 0)) = 1"
    unfolding l1_def by code_simp+
  moreover have "length (wc_wire (ww_con (lp_ws l2) 0)) = 2" unfolding l2_def l1_def by code_simp
  ultimately show ?thesis using loop_ws_safe [OF q k env run1 run2 _ refl refl, of 0]
    by (simp add: l1_def l2_def Let_def running_def)
qed

end
