(* ===== verification/Loop_Http.thy ===== *)
theory Loop_Http imports Event_Loop Example_App
begin

text \<open>
  An HTTP call in the loop of a worker, among the events of all other connections: they do not
  reach it, so it runs as if it were alone. With that a page of the example is served whatever else goes on.
\<close>

section \<open>The events of one connection\<close>

fun about :: "nat \<Rightarrow> event \<Rightarrow> bool" where
  "about c (Http_call d p ok rq) = (d = c)"
| "about c (Http_done d i ok s) = (d = c)"
| "about c ev = False"

text \<open>What the loop does on a connection for an event of it.\<close>

fun own_act :: "('k, 'j, 'u) services \<Rightarrow> event \<Rightarrow> ('k, 'u) world act" where
  "own_act S (Http_call c Accept ok rq) = on_accepted ok"
| "own_act S (Http_call c Initial ok rq) = on_initial_read (se_env S) (se_info S) ok rq"
| "own_act S (Http_done c i ok s) = async_step (se_env S) i ok s"
| "own_act S ev = skip"

text \<open>The calls that are outstanding on a connection; an event of another call has no effect.\<close>

definition own_calls :: "nat \<Rightarrow> ('k, 'j, 'u) loop \<Rightarrow> (nat \<times> http_call) list" where
  "own_calls c l = filter (\<lambda>x. fst x = c) (lp_calls l)"

fun calls_after :: "event \<Rightarrow> (nat \<times> http_call) list \<Rightarrow> (nat \<times> http_call) list" where
  "calls_after (Http_call c p ok rq) cs = remove1 (c, p) cs @ (if p = Accept \<and> ok then [(c, Initial)] else [])"
| "calls_after ev cs = cs"

fun enabled :: "event \<Rightarrow> (nat \<times> http_call) list \<Rightarrow> bool" where
  "enabled (Http_call c p ok rq) cs = ((c, p) \<in> set cs)"
| "enabled ev cs = True"

fun own_run :: "('k, 'j, 'u) services \<Rightarrow> (nat \<times> http_call) list \<Rightarrow> event list \<Rightarrow> ('k, 'u) world \<Rightarrow> ('k, 'u) world" where
  "own_run S cs [] w = w"
| "own_run S cs (ev # evs) w =
     (if enabled ev cs then own_run S (calls_after ev cs) evs (fst (own_act S ev w)) else own_run S cs evs w)"

section \<open>Other connections do not interfere\<close>

text \<open>An application without shared state.\<close>

lemma unit_user [simp]: "w\<lparr>w_user := u\<rparr> = (w :: ('k, unit) world)"
  by (cases w) simp

definition part :: "nat \<Rightarrow> ('k, 'j, 'u) loop \<Rightarrow> ('k, 'j, 'u) loop \<Rightarrow> bool" where
  "part c l l' \<longleftrightarrow> lp_http l' c = lp_http l c \<and> own_calls c l' = own_calls c l \<and> lp_next l \<le> lp_next l'"

lemma part_on_http [intro]: "d \<noteq> c \<Longrightarrow> keeps (part c l) (on_http d a)"
  by (auto simp: keeps_def on_http_def part_def own_calls_def split: prod.split)

lemma part_on_ws [intro]: "keeps (part c l) (on_ws_world a)"
  by (auto simp: keeps_def on_ws_world_def part_def own_calls_def split: prod.split)

lemma part_start [intro]: "c < lp_next l \<Longrightarrow> keeps (part c l) start_http"
  by (auto simp: start_http_def part_def own_calls_def intro!: keeps_modify)

lemma part_log [intro]: "keeps (part c l) (log_std e)"
  by (auto simp: log_std_def part_def own_calls_def intro!: keeps_modify)

lemma other_turn:
  assumes "c < lp_next l" "\<not> about c ev"
  shows "keeps (part c l) (turn S ev)"
proof (cases ev)
  case (Http_call d p ok rq)
  then have d: "d \<noteq> c" using assms(2) by simp
  then have "keeps (part c l) (http_called S d p ok rq)"
    unfolding http_called_def using assms(1)
    by (auto split: http_call.split intro!: keeps_seq keeps_modify simp: part_def own_calls_def)
  then show ?thesis using d unfolding Http_call turn_def
    by (auto intro!: keeps_read_state keeps_seq keeps_try_catch keeps_modify simp: part_def own_calls_def filter_remove1)
next
  case (Ws_done d p ok a)
  then show ?thesis unfolding turn_def
    by (auto intro!: keeps_read_state keeps_seq keeps_modify simp: part_def own_calls_def)
qed (use assms in \<open>auto simp: turn_def\<close>)

lemma own_turn:
  fixes l :: "('k, 'j, unit) loop"
  assumes "c < lp_next l" "about c ev"
  shows "lp_http (fst (turn S ev l)) c = (if enabled ev (own_calls c l) then fst (own_act S ev (lp_http l c)) else lp_http l c)
    \<and> own_calls c (fst (turn S ev l)) = (if enabled ev (own_calls c l) then calls_after ev (own_calls c l) else own_calls c l)
    \<and> lp_next l \<le> lp_next (fst (turn S ev l))"
proof (cases ev)
  case (Http_call d p ok rq)
  then have d: "d = c" using assms(2) by simp
  let ?l = "l\<lparr>lp_calls := remove1 (c, p) (lp_calls l)\<rparr>"
  have enabled: "enabled ev (own_calls c l) \<longleftrightarrow> (c, p) \<in> set (lp_calls l)" using Http_call d by (simp add: own_calls_def)
  have rem: "filter (\<lambda>x. fst x = c) (remove1 (c, p) (lp_calls l)) = remove1 (c, p) (own_calls c l)"
    by (simp add: own_calls_def filter_remove1)
  show ?thesis
  proof (cases "(c, p) \<in> set (lp_calls l)")
    case True
    then have turn: "turn S ev l = try_catch (http_called S c p ok rq) log_std ?l"
      using Http_call d by (simp add: turn_def act_simps)
    show ?thesis
    proof (cases p)
      case Accept
      then show ?thesis using turn enabled True rem Http_call d assms(1)
        by (auto simp: http_called_def act_simps on_http_def on_accepted_def start_http_def own_calls_def)
    next
      case Initial
      obtain w f where run: "on_initial_read (se_env S) (se_info S) ok rq (lp_http l c) = (w, f)" by fastforce
      then show ?thesis using turn enabled True rem Http_call d Initial
        by (cases f) (auto simp: http_called_def act_simps on_http_def log_std_def own_calls_def split: exc.split)
    qed
  qed (use Http_call d enabled in \<open>simp add: turn_def act_simps\<close>)
next
  case (Http_done d i ok s)
  then show ?thesis using assms(2) by (auto simp: turn_def on_http_def own_calls_def split: prod.split)
qed (use assms(2) in auto)

text \<open>A connection runs on its own events, whatever the loop does in between.\<close>

lemma isolated:
  fixes l :: "('k, 'j, unit) loop"
  assumes "c < lp_next l" "for_each evs (turn S) l = (l', Go)"
  shows "lp_http l' c = own_run S (own_calls c l) (filter (about c) evs) (lp_http l c)"
  using assms
proof (induction evs arbitrary: l)
  case (Cons ev evs)
  let ?l = "fst (turn S ev l)"
  have go: "for_each evs (turn S) ?l = (l', Go)"
    using Cons.prems(2) by (cases "turn S ev l"; cases "snd (turn S ev l)") (auto simp: act_simps)
  show ?case
  proof (cases "about c ev")
    case True
    note own = own_turn [OF Cons.prems(1) True, of S]
    then have "c < lp_next ?l" using Cons.prems(1) by simp
    then show ?thesis using Cons.IH [OF _ go] own True by simp
  next
    case False
    have "part c l ?l" using keepsD [OF other_turn [OF Cons.prems(1) False]] by (simp add: part_def)
    then show ?thesis using Cons.IH [OF _ go] False Cons.prems(1) by (simp add: part_def)
  qed
qed (simp add: act_simps)

section \<open>A page of the example\<close>

text \<open>The events of a call that is answered with the file \<open>d\<close>.\<close>

definition page_events :: "nat \<Rightarrow> request \<Rightarrow> string \<Rightarrow> event list" where
  "page_events c rq d = [Http_call c Accept True no_request, Http_call c Initial True rq, Http_done c 0 False []]
     @ replicate (length d div chunk_size + 1) (Http_done c 0 True []) @ [Http_done c 0 True []]"

lemma own_run_append:
  assumes "\<forall>ev \<in> set evs. \<exists>i ok s. ev = Http_done c i ok s"
  shows "own_run S cs (evs @ evs') w = own_run S cs evs' (own_run S cs evs w)"
  using assms by (induction evs arbitrary: w) auto

lemma own_writes: "writes_done (se_env S) n w = (w', Go) \<Longrightarrow> own_run S cs (replicate n (Http_done c 0 True [])) w = w'"
  by (induction n arbitrary: w) (auto simp: act_simps split: prod.splits flow.splits)

lemma seq_Go: "seq a b v = (v', Go) \<longleftrightarrow> (\<exists>u. a v = (u, Go) \<and> b u = (v', Go))"
  by (auto simp: act_simps split: prod.splits flow.splits)

lemma own_page:
  assumes "seq (on_accepted True) (seq (on_initial_read (se_env S) (se_info S) True rq) (file_completions (se_env S) d)) w = (w', Go)"
  shows "own_run S [(c, Accept)] (page_events c rq d) w = w'"
proof -
  obtain w1 w2 w3 w4 where "on_accepted True w = (w1, Go)" "on_initial_read (se_env S) (se_info S) True rq w1 = (w2, Go)"
    "async_step (se_env S) 0 False [] w2 = (w3, Go)" "writes_done (se_env S) (length d div chunk_size + 1) w3 = (w4, Go)"
    "async_step (se_env S) 0 True [] w4 = (w', Go)"
    using assms unfolding file_completions_def seq_Go by blast
  moreover have "own_run S [] (replicate m (Http_done c 0 True []) @ evs) v
      = own_run S [] evs (own_run S [] (replicate m (Http_done c 0 True [])) v)" for m evs v
    by (rule own_run_append) auto
  ultimately show ?thesis
    using own_writes [where S = S and n = "length d div chunk_size + 1" and w = w3 and w' = w4 and cs = "[]" and c = c]
    by (simp add: page_events_def del: replicate_Suc)
qed

lemma idle_own: "idle c l \<Longrightarrow> own_calls c l = [(c, Accept)]"
proof -
  assume idle: "idle c l"
  have "own_calls c l = filter (\<lambda>x. fst x = c) (filter (\<lambda>x. snd x = Accept) (lp_calls l))"
    unfolding own_calls_def filter_filter
  proof (rule filter_cong [OF refl])
    fix x :: "nat \<times> http_call" assume "x \<in> set (lp_calls l)"
    moreover have "(c, Initial) \<notin> set (lp_calls l)" using idle by (simp add: idle_def)
    ultimately show "(fst x = c) = (snd x = Accept \<and> fst x = c)"
      using http_call.exhaust [of "snd x"] by (metis prod.collapse)
  qed
  also have "\<dots> = filter (\<lambda>x. fst x = c) [(c, Accept)]" using idle by (simp only: idle_def)
  finally show ?thesis by simp
qed

text \<open>Traffic that cannot end the loop, and that the connection's own events do not either.\<close>

fun quiet :: "event \<Rightarrow> bool" where
  "quiet (Http_call d Accept ok rq) = True"
| "quiet (Http_call d Initial ok rq) = (\<not> ok)"
| "quiet (Ws_done d p ok a) = (p = Wp_accept)"
| "quiet No_function = True"
| "quiet ev = False"

lemma quiet_goes_on:
  assumes "quiet ev"
  shows "snd (turn S ev l) = Go"
proof (cases ev)
  case (Http_call d p ok rq)
  then show ?thesis using assms
    by (cases p) (auto simp: turn_def act_simps http_called_def on_http_def on_accepted_def start_http_def on_initial_read_def
        split: prod.split flow.split)
next
  case (Ws_done d p ok a)
  then show ?thesis using assms
    by (auto simp: turn_def act_simps on_ws_world_def ws_async_def ws_complete_def ws_on_accepted_def ws_start_def issue_ws_def)
qed (use assms in \<open>auto simp: turn_def act_simps\<close>)

fun own_go :: "('k, 'j, 'u) services \<Rightarrow> (nat \<times> http_call) list \<Rightarrow> event list \<Rightarrow> ('k, 'u) world \<Rightarrow> bool" where
  "own_go S cs [] w = True"
| "own_go S cs (ev # evs) w =
     (if enabled ev cs then snd (own_act S ev w) = Go \<and> own_go S (calls_after ev cs) evs (fst (own_act S ev w))
      else own_go S cs evs w)"

lemma own_goes_on:
  fixes l :: "('k, 'j, unit) loop"
  assumes "about c ev" "enabled ev (own_calls c l) \<Longrightarrow> snd (own_act S ev (lp_http l c)) = Go"
  shows "snd (turn S ev l) = Go"
proof (cases ev)
  case (Http_call d p ok rq)
  then show ?thesis using assms
    by (cases p) (auto simp: turn_def act_simps http_called_def on_http_def on_accepted_def start_http_def own_calls_def
        split: prod.split flow.split)
next
  case (Http_done d i ok s)
  then show ?thesis using assms by (auto simp: turn_def on_http_def split: prod.split)
qed (use assms in auto)

lemma quiet_traffic_goes_on:
  fixes l :: "('k, 'j, unit) loop"
  assumes "c < lp_next l" "\<forall>ev \<in> set evs. about c ev \<or> quiet ev"
    "own_go S (own_calls c l) (filter (about c) evs) (lp_http l c)"
  shows "snd (for_each evs (turn S) l) = Go"
  using assms
proof (induction evs arbitrary: l)
  case (Cons ev evs)
  let ?l = "fst (turn S ev l)"
  have rest: "for_each (ev # evs) (turn S) l = for_each evs (turn S) ?l" if "snd (turn S ev l) = Go"
    using that by (cases "turn S ev l") (simp add: act_simps)
  show ?case
  proof (cases "about c ev")
    case True
    then have go: "snd (turn S ev l) = Go" using Cons.prems(3) by (intro own_goes_on [OF True]) auto
    note own = own_turn [OF Cons.prems(1) True, of S]
    then show ?thesis using Cons.IH [of ?l] Cons.prems rest [OF go] True by (auto split: if_splits)
  next
    case False
    then have go: "snd (turn S ev l) = Go" using Cons.prems(2) quiet_goes_on by auto
    have "part c l ?l" using keepsD [OF other_turn [OF Cons.prems(1) False]] by (simp add: part_def)
    then show ?thesis using Cons.IH [of ?l] Cons.prems rest [OF go] False by (simp add: part_def)
  qed
qed (simp add: act_simps)

lemma own_go_append:
  assumes "\<forall>ev \<in> set evs. \<exists>i ok s. ev = Http_done c i ok s"
  shows "own_go S cs (evs @ evs') w \<longleftrightarrow> own_go S cs evs w \<and> own_go S cs evs' (own_run S cs evs w)"
  using assms by (induction evs arbitrary: w) auto

lemma own_writes_go: "writes_done (se_env S) n w = (w', Go) \<Longrightarrow> own_go S cs (replicate n (Http_done c 0 True [])) w"
  by (induction n arbitrary: w) (auto simp: act_simps split: prod.splits flow.splits)

lemma own_page_go:
  assumes "seq (on_accepted True) (seq (on_initial_read (se_env S) (se_info S) True rq) (file_completions (se_env S) d)) w = (w', Go)"
  shows "own_go S [(c, Accept)] (page_events c rq d) w"
proof -
  obtain w1 w2 w3 w4 where w: "on_accepted True w = (w1, Go)" "on_initial_read (se_env S) (se_info S) True rq w1 = (w2, Go)"
    "async_step (se_env S) 0 False [] w2 = (w3, Go)" "writes_done (se_env S) (length d div chunk_size + 1) w3 = (w4, Go)"
    "async_step (se_env S) 0 True [] w4 = (w', Go)"
    using assms unfolding file_completions_def seq_Go by blast
  have "own_go S [] (replicate m (Http_done c 0 True []) @ evs) v
      \<longleftrightarrow> own_go S [] (replicate m (Http_done c 0 True [])) v \<and> own_go S [] evs (own_run S [] (replicate m (Http_done c 0 True [])) v)"
    for m evs v
    by (rule own_go_append) auto
  then show ?thesis using w own_writes [OF w(4), of "[]" c] own_writes_go [OF w(4), of "[]" c]
    by (simp add: page_events_def del: replicate_Suc)
qed

section \<open>Properties\<close>

text \<open>
  C17. A request for a page of the example is answered completely and in order whatever else the worker does in
  between: the connection that waits takes the call, its own events decide what is sent on it, and the events
  of other connections, accepted before or later, and of websockets do not reach it.
\<close>

theorem page_served_amid_traffic:
  fixes S :: "('k, 'j, unit) services" and l :: "('k, 'j, unit) loop"
  assumes T: "ttl_replace_ok (e_ttl (se_env S))" "ttl_join_ok (e_ttl (se_env S))"
      "parse_route (e_ttl (se_env S)) ''/{fs_path:.*}'' = Inr [fs_part]"
    and info: "example_router (e_ttl (se_env S)) mimefile = Inr (se_info S)"
    and rq: "rq_method rq = ''GET''" "parse_uri (rq_resource rq) = Inr u" "parse_uri (index_resource (rq_resource rq)) = Inr v"
    and p: "path v = ''/'' @ p" "one_line p"
      "fresh_file (se_env S) 0 (''./public/'' @ p) e d (received (se_env S) rq (new_connection () no_request))"
    and idle: "idle c l" and run: "for_each evs (turn S) l = (l', Go)" "filter (about c) evs = page_events c rq d"
  shows "delivered (file_response (se_env S) e empty_response) d (new_connection () no_request) (lp_http l' c)
    \<and> drop_warnings (lp_http l' c) = []"
proof -
  obtain w' where w': "seq (on_accepted True) (seq (on_initial_read (se_env S) (se_info S) True rq) (file_completions (se_env S) d))
      (new_connection () no_request) = (w', Go)"
    "delivered (file_response (se_env S) e empty_response) d (new_connection () no_request) w'" "drop_warnings w' = []"
    using example_call [OF T info rq p] by blast
  have "lp_http l c = new_connection () no_request" "c < lp_next l" using idle by (auto simp: idle_def)
  then have "lp_http l' c = w'"
    using isolated [OF _ run(1), of c] run(2) own_page [OF w'(1), of c] idle_own [OF idle] by simp
  then show ?thesis using w' by simp
qed

text \<open>The page of \<open>Example_App\<close>, with a websocket and another call accepted in between.\<close>

definition page_info :: routing_info where
  "page_info = (case example_router ttl_ref (Some ''text/html html'') of Inr info \<Rightarrow> info | Inl e \<Rightarrow> new_router)"

definition page_services :: "(string, nat, unit) services" where
  "page_services = \<lparr>se_env = page_env, se_info = page_info, se_ws_env = quiet_ws_env\<rparr>"

definition page_request :: request where
  "page_request = demo_request\<lparr>rq_resource := ''/''\<rparr>"

definition page_traffic :: "event list" where
  "page_traffic =
     [Http_call 0 Accept True no_request, Ws_done 0 Wp_accept True (ws_arrives []), Http_call 1 Accept True no_request,
      Http_call 0 Initial True page_request, Http_call 1 Initial False no_request,
      Http_done 0 0 False [], No_function, Http_done 0 0 True [], Http_done 0 0 True []]"

lemma page_served_amid_traffic_witness:
  "\<exists>l'. for_each page_traffic (turn page_services) (fst (start_http new_loop)) = (l', Go)
    \<and> delivered (file_response page_env page_entry empty_response) ''<p>hi</p>'' (new_connection () no_request) (lp_http l' 0)"
proof -
  let ?l = "fst (start_http new_loop)" and ?v = "\<lparr>path = ''/index.html'', fname = ''index.html'', ext = ''html'', query = []\<rparr>"
  have env: "se_env page_services = page_env" by (simp add: page_services_def)
  obtain info where "example_router (e_ttl page_env) (Some ''text/html html'') = Inr info" using page_env_info by blast
  then have info: "example_router (e_ttl page_env) (Some ''text/html html'') = Inr (se_info page_services)"
    by (simp add: page_services_def page_info_def page_env_facts)
  have rq: "rq_method page_request = ''GET''" "parse_uri (rq_resource page_request) = Inr \<lparr>path = ''/'', fname = [], ext = [], query = []\<rparr>"
    "parse_uri (index_resource (rq_resource page_request)) = Inr ?v"
    by (simp_all add: page_request_def demo_request_def index_resource_def index_uri)
  have p: "path ?v = ''/'' @ ''index.html''" "one_line ''index.html''" by (simp_all add: one_line_def any_matches_def)
  have found: "fresh_file page_env 0 (''./public/'' @ ''index.html'') page_entry ''<p>hi</p>''
      (received page_env page_request (new_connection () no_request))"
    using page_found [of "received page_env page_request (new_connection () no_request)"]
    by (simp add: new_connection_def received_def page_request_def demo_request_def)
  have idle: "idle 0 ?l" by (simp add: start_http_def act_simps idle_def new_loop_def)
  have own: "filter (about 0) page_traffic = page_events 0 page_request ''<p>hi</p>''"
    by (simp add: page_traffic_def page_events_def chunk_size_def)
  obtain w' where call: "seq (on_accepted True) (seq (on_initial_read page_env (se_info page_services) True page_request)
      (file_completions page_env ''<p>hi</p>'')) (new_connection () no_request) = (w', Go)"
    using example_call [OF page_env_ttl info rq p found] by blast
  have "lp_http ?l 0 = new_connection () no_request" using idle by (auto simp: idle_def)
  then have "own_go page_services (own_calls 0 ?l) (filter (about 0) page_traffic) (lp_http ?l 0)"
    using own_page_go [of page_services page_request "''<p>hi</p>''"] call own idle_own [OF idle] by (simp add: env)
  then have "snd (for_each page_traffic (turn page_services) ?l) = Go"
    using idle by (intro quiet_traffic_goes_on [where c = 0]) (auto simp: idle_def page_traffic_def)
  then obtain l' where l': "for_each page_traffic (turn page_services) ?l = (l', Go)" by (metis prod.collapse)
  show ?thesis
    using page_served_amid_traffic [of page_services, unfolded env, OF page_env_ttl info rq p found idle l' own] l' by blast
qed

end
