(* ===== verification/Debug_Client.thy ===== *)
theory Debug_Client imports Example_App Ws_Delivery
begin

text \<open>
  \<^verbatim>\<open>src/debug_client/main.cpp\<close>: a program that makes one HTTP call and one websocket call and prints
  what comes back. The stubs that gRPC generates are parameters: what a call delivers is given by
  a record. The client is the other end of the connections of the model, so the properties put
  the two together.
\<close>

section \<open>Calls\<close>

text \<open>
  What the stream of a call answers: whether \<^verbatim>\<open>Write\<close> and \<^verbatim>\<open>WritesDone\<close> succeed, the messages
  \<^verbatim>\<open>Read\<close> delivers before it fails, and the message of a bad status of \<^verbatim>\<open>Finish\<close>.
\<close>

record 'r call =
  ca_write :: bool
  ca_writes_done :: bool
  ca_reads :: "'r list"
  ca_status :: "string option"

text \<open>What the client sent and printed. The websocket request has a method too, which no code of the server reads.\<close>

record client =
  dc_requests :: "request list"
  dc_ws_requests :: "ws_request list"
  dc_out :: string
  dc_err :: string

definition new_client :: client where
  "new_client = \<lparr>dc_requests = [], dc_ws_requests = [], dc_out = [], dc_err = []\<rparr>"

abbreviation nl :: string where
  "nl \<equiv> [CHR 0x0A]"

definition put_out :: "string \<Rightarrow> client \<Rightarrow> client" where
  "put_out s c = c\<lparr>dc_out := dc_out c @ s\<rparr>"

text \<open>A message on the error output and \<^verbatim>\<open>exit(-1)\<close>; the exit code is \<open>None\<close> while the program runs.\<close>

definition give_up :: "string \<Rightarrow> client \<Rightarrow> client \<times> int option" where
  "give_up s c = (c\<lparr>dc_err := dc_err c @ s\<rparr>, Some (-1))"

definition finish_call :: "'r call \<Rightarrow> client \<Rightarrow> client \<times> int option" where
  "finish_call S c = (case ca_status S of
     Some e \<Rightarrow> give_up (''Failed to execute rpc: '' @ e @ nl) c
   | None \<Rightarrow> (c, None))"

definition header_lines :: "(string \<times> string) list \<Rightarrow> string" where
  "header_lines hs = concat (map (\<lambda>(k, v). k @ '': '' @ v @ nl) hs)"

definition test_headers :: "(string \<times> string) list" where
  "test_headers = map (\<lambda>i. (''Header-'' @ dec_nat i, ''Content '' @ dec_nat i)) [0..<4]"

section \<open>The HTTP call\<close>

definition test_request :: "32 word \<Rightarrow> request" where
  "test_request rand = \<lparr>rq_method = ''GET'', rq_resource = ''/'', rq_protocol = ''HTTP/1.1'', rq_headers = test_headers,
     rq_client = \<lparr>ci_remote_ip = ''127.0.0.1'', ci_remote_port = ucast (ucast rand :: 16 word), ci_local_ip = ''127.0.0.1'',
       ci_local_port = 80, ci_encrypted = True\<rparr>\<rparr>"

definition print_response :: "response \<Rightarrow> string" where
  "print_response r = dec_int (rs_status r) @ '' '' @ rs_message r @ nl @ header_lines (rs_headers r) @ nl @ nl
     @ (if rs_content r \<noteq> [] then rs_content r @ nl else [])"

definition test_http :: "32 word \<Rightarrow> response call \<Rightarrow> client \<Rightarrow> client \<times> int option" where
  "test_http rand S c =
     (let c = c\<lparr>dc_requests := dc_requests c @ [test_request rand]\<rparr>
      in if \<not> ca_write S then give_up ''Failed to write initial packet'' c
      else if \<not> ca_writes_done S then give_up (''Failed to finish writing'' @ nl) c
      else case ca_reads S of
        [] \<Rightarrow> give_up (''Failed to read initial response'' @ nl) c
      | r # rs \<Rightarrow> finish_call S (put_out (print_response r @ concat (map (\<lambda>r. rs_content r @ nl) rs)) c))"

section \<open>The websocket call\<close>

definition test_ws_request :: "32 word \<Rightarrow> ws_request" where
  "test_ws_request rand = \<lparr>wq_resource = ''/'', wq_protocol = ''HTTP/1.1'', wq_headers = test_headers,
     wq_client_ip = ''127.0.0.1'', wq_client_port = ucast (ucast rand :: 16 word), wq_server_ip = ''127.0.0.1'',
     wq_server_port = 80, wq_encrypted = True\<rparr>"

text \<open>The thread that receives: it stops at a close message, or when nothing more comes.\<close>

fun receive :: "ws_response list \<Rightarrow> string" where
  "receive [] = []"
| "receive (r # rs) = (case wm_type (wr_message r) of
     Ws_text \<Rightarrow> ''Textmsg:'' @ wm_content (wr_message r) @ nl @ receive rs
   | Ws_binary \<Rightarrow> ''Binmsg: '' @ dec_nat (length (wm_content (wr_message r))) @ '' bytes'' @ nl @ receive rs
   | Ws_close \<Rightarrow> ''Close received'' @ nl)"

definition test_ws :: "32 word \<Rightarrow> ws_response call \<Rightarrow> client \<Rightarrow> client \<times> int option" where
  "test_ws rand S c =
     (let c = c\<lparr>dc_ws_requests := dc_ws_requests c @ [test_ws_request rand]\<rparr>
      in if \<not> ca_write S then give_up ''Failed to write initial packet'' c
      else case ca_reads S of
        [] \<Rightarrow> give_up (''Failed to read initial response'' @ nl) c
      | r # rs \<Rightarrow> finish_call S (put_out (header_lines (wr_headers r) @ receive rs) c))"

definition debug_main :: "32 word \<Rightarrow> 32 word \<Rightarrow> response call \<Rightarrow> ws_response call \<Rightarrow> client \<times> int" where
  "debug_main r1 r2 H W = (case test_http r1 H new_client of
     (c, Some code) \<Rightarrow> (c, code)
   | (c, None) \<Rightarrow> (case test_ws r2 W c of (c, Some code) \<Rightarrow> (c, code) | (c, None) \<Rightarrow> (c, 0)))"

section \<open>The two ends together\<close>

text \<open>What a server wrote, as the messages the client's stream delivers.\<close>

fun wire_messages :: "wire list \<Rightarrow> response list" where
  "wire_messages [] = []"
| "wire_messages (W_write r hint # ws) = r # wire_messages ws"
| "wire_messages (W_write_finish r # ws) = r # wire_messages ws"
| "wire_messages (W_finish # ws) = wire_messages ws"

definition successful :: "'r list \<Rightarrow> 'r call" where
  "successful rs = \<lparr>ca_write = True, ca_writes_done = True, ca_reads = rs, ca_status = None\<rparr>"

lemma content_only_content [simp]: "rs_content (content_only c) = c"
  by (simp add: content_only_def)

lemma wire_messages_chunks:
  "wire_messages (map (\<lambda>c. W_write (content_only c) False) cs @ [W_finish]) = map content_only cs"
  by (induction cs) simp_all

lemma client_prints_delivered:
  assumes "delivered (file_response E e empty_response) d w w'" "w_wire w = []"
  obtains cs where "concat cs = d"
    "test_http r (successful (wire_messages (w_wire w'))) new_client =
      (new_client\<lparr>dc_requests := [test_request r],
         dc_out := ''200 OK'' @ nl @ header_lines (file_headers E e) @ nl @ nl @ concat (map (\<lambda>c. c @ nl) cs)\<rparr>, None)"
proof -
  obtain c cs where w: "w_wire w' = W_write ((file_response E e empty_response)\<lparr>rs_content := c\<rparr>) False
      # map (\<lambda>c. W_write (content_only c) False) cs @ [W_finish]" "concat (c # cs) = d"
    using assms by (auto simp: delivered_def)
  have d: "dec_int 200 = ''200''" by code_simp
  let ?cs = "if c \<noteq> [] then c # cs else cs"
  have "concat ?cs = d" using w(2) by (cases "c = []") simp_all
  moreover have "test_http r (successful (wire_messages (w_wire w'))) new_client =
      (new_client\<lparr>dc_requests := [test_request r],
         dc_out := ''200 OK'' @ nl @ header_lines (file_headers E e) @ nl @ nl @ concat (map (\<lambda>c. c @ nl) ?cs)\<rparr>, None)"
    by (simp add: w(1) wire_messages_chunks test_http_def successful_def finish_call_def put_out_def print_response_def
        file_response_def empty_response_def new_client_def d comp_def)
  ultimately show ?thesis using that by blast
qed

section \<open>Properties\<close>

text \<open>
  C7. The debug client against the example server: its request for \<^verbatim>\<open>/\<close> is answered with the index page of
  the served directory, and it prints the status, the length and date (no content type, which the
  middleware does not add to files), then the bytes of the page in order, a line break behind every piece.
\<close>

theorem client_shows_page:
  fixes E :: "('k, 'u) env" and x :: 'u
  assumes T: "ttl_replace_ok (e_ttl E)" "ttl_join_ok (e_ttl E)" "parse_route (e_ttl E) ''/{fs_path:.*}'' = Inr [fs_part]"
    and info: "example_router (e_ttl E) mimefile = Inr info"
    and page: "fresh_file E 0 ''./public/index.html'' e d (received E (test_request r) (new_connection x rq0))"
  shows "\<exists>w' cs. seq (on_accepted True) (seq (on_initial_read E info True (test_request r)) (file_completions E d))
      (new_connection x rq0) = (w', Go)
    \<and> concat cs = d
    \<and> test_http r (successful (wire_messages (w_wire w'))) new_client =
      (new_client\<lparr>dc_requests := [test_request r],
         dc_out := ''200 OK'' @ nl @ header_lines (file_headers E e) @ nl @ nl @ concat (map (\<lambda>c. c @ nl) cs)\<rparr>, None)"
proof -
  let ?v = "\<lparr>path = ''/index.html'', fname = ''index.html'', ext = ''html'', query = []\<rparr>"
  have rq: "rq_method (test_request r) = ''GET''"
    "parse_uri (rq_resource (test_request r)) = Inr \<lparr>path = ''/'', fname = [], ext = [], query = []\<rparr>"
    "parse_uri (index_resource (rq_resource (test_request r))) = Inr ?v"
    by (simp_all add: test_request_def index_resource_def index_uri)
  have p: "path ?v = ''/'' @ ''index.html''" "one_line ''index.html''" by (simp_all add: one_line_def any_matches_def)
  obtain w' where w': "seq (on_accepted True) (seq (on_initial_read E info True (test_request r)) (file_completions E d))
      (new_connection x rq0) = (w', Go)" "delivered (file_response E e empty_response) d (new_connection x rq0) w'"
    using example_call [OF T info rq p, of e d x rq0] page by auto
  have "w_wire (new_connection x rq0 :: ('k, 'u) world) = []" by (simp add: new_connection_def)
  then show ?thesis using w' client_prints_delivered [OF w'(2), of r] by metis
qed

lemma client_shows_page_witness:
  "\<exists>info w' cs. example_router ttl_ref (Some ''text/html html'') = Inr info
    \<and> seq (on_accepted True) (seq (on_initial_read page_env info True (test_request 7)) (file_completions page_env ''<p>hi</p>''))
        (new_connection () demo_request) = (w', Go)
    \<and> concat cs = ''<p>hi</p>''
    \<and> test_http 7 (successful (wire_messages (w_wire w'))) new_client =
      (new_client\<lparr>dc_requests := [test_request 7],
         dc_out := ''200 OK'' @ nl @ header_lines (file_headers page_env page_entry) @ nl @ nl @ concat (map (\<lambda>c. c @ nl) cs)\<rparr>, None)"
proof -
  obtain info where info: "example_router (e_ttl page_env) (Some ''text/html html'') = Inr info"
    using page_env_info by blast
  have "filter (\<lambda>x. ttl_to_lower ttl_ref (fst x) = ''if-modified-since'') test_headers = []" by code_simp
  then have "fresh_file page_env 0 ''./public/index.html'' page_entry ''<p>hi</p>''
      (received page_env (test_request 7) (new_connection () demo_request))"
    by (intro page_found) (simp add: test_request_def received_def new_connection_def page_env_facts map_of_inserted)
  from client_shows_page [OF page_env_ttl info this] show ?thesis using info by (auto simp: page_env_facts)
qed

text \<open>
  The program ends with code 0 exactly when both calls went through, and with -1 otherwise; a failed HTTP call
  keeps it from making the other.
\<close>

theorem debug_main_exit:
  "(snd (debug_main r1 r2 H W) = 0 \<longleftrightarrow>
      ca_write H \<and> ca_writes_done H \<and> ca_reads H \<noteq> [] \<and> ca_status H = None \<and>
      ca_write W \<and> ca_reads W \<noteq> [] \<and> ca_status W = None)
   \<and> snd (debug_main r1 r2 H W) \<in> {0, -1}
   \<and> (dc_ws_requests (fst (debug_main r1 r2 H W)) = [] \<longleftrightarrow> snd (test_http r1 H new_client) \<noteq> None)"
  by (auto simp: debug_main_def test_http_def test_ws_def finish_call_def give_up_def put_out_def new_client_def Let_def
      split: list.split option.split)

text \<open>
  C29. A handler that greets a new connection in \<^verbatim>\<open>on_connect\<close> queues its message in front of the response with
  the headers. The client takes the first message for that response: the greeting is lost, and the headers are
  shown as an empty text.
\<close>

theorem greeting_lost:
  assumes "ww_con w c = new_ws_con\<lparr>wc_pending := [Wp_request]\<rparr>"
    and "ww_groups w [] = Some g" "g_handler g = Some h" "we_connect E h c = seq (ws_set_header (we_lower E) c k v True) (send_message c b s)"
    and "w' = fst (seq (ws_async E c Wp_request True a) (ws_writes E c 2) w)"
  shows "wc_wire (ww_con w' c) = [data_response b s, \<lparr>wr_headers = [(we_lower E k, v)], wr_message = \<lparr>wm_type = Ws_text, wm_content = []\<rparr>\<rparr>]
    \<and> dc_out (fst (test_ws r (successful (wc_wire (ww_con w' c))) new_client)) = ''Textmsg:'' @ nl"
proof -
  let ?hdr = "\<lparr>wr_headers = [(we_lower E k, v)], wr_message = \<lparr>wm_type = Ws_text, wm_content = []\<rparr>\<rparr>"
  let ?x = "(store_request (we_lower E) (wa_request a) new_ws_con)\<lparr>wc_group := Some (Some []),
     wc_resp_headers := [(we_lower E k, v)], wc_queue := [(data_response b s, None), (?hdr, Some Ws_nop)],
     wc_wire := [data_response b s], wc_pending := [Wp_read, Wp_write]\<rparr>"
  obtain w1 where w1: "ws_async E c Wp_request True a w = (w1, Go)" "ww_con w1 c = ?x"
    using assms(1-4)
    by (simp add: ws_async_def act_simps ws_complete_def ws_on_request_def ws_on_connect_def issue_ws_def hub_on_connect_def
        at_group_def call_handler_def ws_set_header_def send_message_eq queue_response_enqueued store_request_def new_ws_con_def
        enqueued_def mm_insert_def mm_erase_def)
  have x: "con_ok ?x" "\<not> wc_locked ?x" "\<not> wc_done ?x" "plain_queue ?x" "2 \<le> length (wc_queue ?x)"
    by (simp_all add: con_ok_def writing_def plain_queue_def store_request_def new_ws_con_def data_response_def)
  have "ws_writes E c 2 w1 = (upd_con c (con_written ^^ 2) w1, Go)"
    by (rule ws_writes_eq; unfold w1(2); rule x)
  then have "w' = upd_con c (con_written ^^ 2) w1"
    using assms(5) w1(1) by (simp add: seq_def)
  then have wire: "wc_wire (ww_con w' c) = [data_response b s, ?hdr]"
    using w1(2) by (simp add: numeral_2_eq_2 con_written_defs store_request_def new_ws_con_def)
  show ?thesis
    by (simp add: wire test_ws_def successful_def finish_call_def put_out_def new_client_def header_lines_def data_response_def Let_def)
qed

text \<open>A hub whose default handler greets.\<close>

definition greeting_env :: "(nat, unit) ws_env" where
  "greeting_env = quiet_ws_env\<lparr>we_connect := \<lambda>h c. seq (ws_set_header (map lower_char) c ''Server'' ''chat'' True)
     (send_message c False ''welcome'')\<rparr>"

definition greeting_world :: "(nat, unit) ws_world" where
  "greeting_world = upd_con 5 (\<lambda>_. new_ws_con\<lparr>wc_pending := [Wp_request]\<rparr>) (fst (set_default_handler (Some 0) quiet_ws_world))"

lemma greeting_lost_witness:
  "let w' = fst (seq (ws_async greeting_env 5 Wp_request True no_arrival) (ws_writes greeting_env 5 2) greeting_world) in
    wc_wire (ww_con w' 5) = [data_response False ''welcome'', \<lparr>wr_headers = [(map lower_char ''Server'', ''chat'')], wr_message = \<lparr>wm_type = Ws_text, wm_content = []\<rparr>\<rparr>]
    \<and> dc_out (fst (test_ws 7 (successful (wc_wire (ww_con w' 5))) new_client)) = ''Textmsg:'' @ nl"
proof -
  have g: "ww_groups greeting_world [] = Some (empty_group [] (Some 0))" by code_simp
  have lower: "we_lower greeting_env = map lower_char"
    by (simp add: greeting_env_def quiet_ws_env_def ws_env_with_def)
  show ?thesis
    unfolding Let_def lower [symmetric]
    by (rule greeting_lost [OF _ g _ _ refl])
       (simp_all add: greeting_world_def empty_group_def greeting_env_def quiet_ws_env_def ws_env_with_def)
qed

end
