(* ===== verification/Ws_Closing.thy ===== *)
theory Ws_Closing imports Ws_Delivery
begin

text \<open>
  How connections end: the close frame of the server, the one of the client, a client that is
  gone. The properties state what the code does in corners its authors did not have in mind.
\<close>

section \<open>Closing\<close>

lemma popped_simps [simp]:
  "ww_con (popped c w) d = (if d = c then (con_written (ww_con w c))\<lparr>wc_locked := True\<rparr> else ww_con w d)"
  "ww_groups (popped c w) = ww_groups w" "ww_user (popped c w) = ww_user w"
  by (simp_all add: popped_def)

lemma con_written_group [simp]: "wc_group (con_written x) = wc_group x"
  by (simp add: con_written_defs)

lemma group_of_popped [simp]: "group_of (popped c w) d = group_of w d"
  by (simp add: group_of_def split: option.split)

lemma ws_async_close:
  assumes "\<not> wc_locked (ww_con w c)" "Wp_write \<in> set (wc_pending (ww_con w c))"
    "wc_queue (ww_con w c) = (m, cb) # q" "wm_type (wr_message m) = Ws_close"
  shows "ws_async E c Wp_write ok a w = try_catch (seq (unlock_on_throw c (hub_on_disconnect E c))
      (unless_done c (release c) (seq (issue_ws c Wp_finish) (seq (release c) (run_ws_cb E cb))))) ws_log_exception (popped c w)"
  using assms send_cb_eq [OF assms(1,3), of E]
  by (simp add: ws_async_def ws_complete_def read_state_simp act_eqs(6,7) modify_def)

text \<open>
  C27. When the close frame was written, the group's handler is told with the mutex of the queue
  held. If it sends a last message on the connection, the thread waits for itself: the mutex
  stays locked, and every later sender waits as well.
\<close>

theorem goodbye_deadlocks:
  assumes "quiescent w" "Wp_write \<in> set (wc_pending (ww_con w c))" "\<not> wc_done (ww_con w c)"
    "wc_queue (ww_con w c) = (m, cb) # q" "wm_type (wr_message m) = Ws_close" "ww_groups w [] \<noteq> None"
    "group_of w c = Some (n, g)" "g_handler g = Some h" "we_disconnect E h c = send_message c b s"
  shows "ws_async E c Wp_write ok a w = (popped c w, Hang) \<and>
    send_message c b' s' (popped c w) = (popped c w, Hang)"
proof -
  have free: "\<not> wc_locked (ww_con w c)" using assms(1) by (simp add: quiescent_def)
  have hang: "send_message c b' s' (popped c w) = (popped c w, Hang)" for b' s'
    using assms(3) by (simp add: send_message_def send_message_cb_def act_simps queue_response_locked)
  then have "hub_on_disconnect E c (popped c w) = (popped c w, Hang)"
    using assms(6-9) by (auto simp: hub_on_disconnect_def at_group_def act_simps)
  then show ?thesis using hang ws_async_close [OF free assms(2,4,5), of E ok a]
    by (simp add: act_simps unlock_on_throw_def)
qed

text \<open>A disconnect handler that counts, as an application would to free what it keeps per connection.\<close>

definition counts_losses :: "('k, nat list) ws_env \<Rightarrow> bool" where
  "counts_losses E \<longleftrightarrow> (\<forall>h c. we_disconnect E h c = modify (\<lambda>w. w\<lparr>ww_user := c # ww_user w\<rparr>))"

lemma disconnect_counted:
  assumes "counts_losses E" "ww_groups w [] = Some d" "g_handler d = Some h" "group_of w c = Some ([], d)"
  shows "hub_on_disconnect E c w =
    (upd_con c (\<lambda>x. x\<lparr>wc_group := Some None\<rparr>)
       (upd_group [] (\<lambda>g. g\<lparr>g_cons := remove1 c (g_cons g)\<rparr>) (w\<lparr>ww_user := c # ww_user w\<rparr>)), Go)"
  using assms by (simp add: hub_on_disconnect_def at_group_def act_simps counts_losses_def)

lemma disconnect_counted_again:
  assumes "counts_losses E" "ww_groups w [] = Some d" "g_handler d = Some h" "group_of w c = None"
  shows "hub_on_disconnect E c w = (w\<lparr>ww_user := c # ww_user w\<rparr>, Go)"
  using assms by (simp add: hub_on_disconnect_def at_group_def act_simps counts_losses_def call_handler_def)

text \<open>
  A connection the server closed is reported lost twice: once when its close frame was
  written, once more when the client answers with its own. The second report goes to the
  default handler.
\<close>

theorem disconnect_reported_twice:
  assumes "quiescent w" "Wp_write \<in> set (wc_pending (ww_con w c))" "Wp_read \<in> set (wc_pending (ww_con w c))"
    "\<not> wc_done (ww_con w c)" "wc_queue (ww_con w c) = [(m, Some Ws_nop)]" "wm_type (wr_message m) = Ws_close"
    "ww_groups w [] = Some d" "g_handler d = Some h" "group_of w c = Some ([], d)" "counts_losses E"
    "wm_type (wa_message a) = Ws_close"
  shows "snd (ws_async E c Wp_write ok a w) = Go \<and>
    ww_user (fst (ws_async E c Wp_read True a (fst (ws_async E c Wp_write ok a w)))) = c # c # ww_user w"
proof -
  have free: "\<not> wc_locked (ww_con w c)" using assms(1) by (simp add: quiescent_def)
  let ?y = "con_written (ww_con w c)"
  let ?w1 = "upd_con c (\<lambda>_. ?y\<lparr>wc_group := Some None, wc_done := True, wc_pending := wc_pending ?y @ [Wp_finish], wc_locked := False\<rparr>)
     (upd_group [] (\<lambda>g. g\<lparr>g_cons := remove1 c (g_cons g)\<rparr>) (w\<lparr>ww_user := c # ww_user w\<rparr>))"
  let ?d = "d\<lparr>g_cons := remove1 c (g_cons d)\<rparr>"
  have "hub_on_disconnect E c (popped c w) =
    (upd_con c (\<lambda>x. x\<lparr>wc_group := Some None\<rparr>)
       (upd_group [] (\<lambda>g. g\<lparr>g_cons := remove1 c (g_cons g)\<rparr>) ((popped c w)\<lparr>ww_user := c # ww_user w\<rparr>)), Go)"
    using disconnect_counted [OF assms(10), of "popped c w" d h c] assms(7-9) by simp
  then have "ws_async E c Wp_write ok a w = (?w1, Go)"
    using ws_async_close [OF free assms(2,5,6), of E ok a] assms(4)
    by (simp add: act_simps unlock_on_throw_def unless_done_def issue_ws_def release_eq run_ws_cb_def)
       (cases w, simp add: upd_con_def upd_group_def popped_def)
  moreover have "Wp_read \<in> set (wc_pending (ww_con ?w1 c))"
    using assms(3) by (simp add: con_written_defs in_set_remove1)
  moreover have "hub_on_disconnect E c (upd_con c (\<lambda>x. x\<lparr>wc_pending := remove1 Wp_read (wc_pending x)\<rparr>) ?w1) =
      ((upd_con c (\<lambda>x. x\<lparr>wc_pending := remove1 Wp_read (wc_pending x)\<rparr>) ?w1)\<lparr>ww_user := c # c # ww_user w\<rparr>, Go)"
    using disconnect_counted_again [OF assms(10), of _ ?d h c] assms(7,8) by (simp add: group_of_def)
  ultimately show ?thesis using assms(11)
    by (simp add: ws_async_def act_simps ws_complete_def ws_on_message_def unless_done_def)
qed

text \<open>
  A message that was queued behind a close frame is still written, after it, and the call
  that finishes the stream is issued while that write is pending.
\<close>

theorem message_after_close:
  assumes "quiescent w" "Wp_write \<in> set (wc_pending (ww_con w c))" "\<not> wc_done (ww_con w c)"
    "wc_queue (ww_con w c) = (m, Some Ws_nop) # (m', cb) # q" "wm_type (wr_message m) = Ws_close"
    "ww_groups w [] = Some d" "g_handler d = None" "group_of w c = None"
  shows "wc_wire (ww_con (fst (ws_async E c Wp_write ok a w)) c) = wc_wire (ww_con w c) @ [m'] \<and>
    {Wp_write, Wp_finish} \<subseteq> set (wc_pending (ww_con (fst (ws_async E c Wp_write ok a w)) c)) \<and>
    last (wc_wire (ww_con w c)) = m"
proof -
  have free: "\<not> wc_locked (ww_con w c)" and ok: "con_ok (ww_con w c)" using assms(1) by (simp_all add: quiescent_def)
  have "hub_on_disconnect E c (popped c w) = (popped c w, Go)"
    using assms(6-8) by (simp add: hub_on_disconnect_def at_group_def act_simps call_handler_def)
  then show ?thesis using ws_async_close [OF free assms(2,4,5), of E ok a] assms(2-4) ok
    by (simp add: act_simps unlock_on_throw_def unless_done_def issue_ws_def release_eq run_ws_cb_def)
       (simp add: con_written_defs con_ok_def writing_def)
qed

text \<open>
  When reading fails because the client is gone, the connection is not reported lost: it
  stays in its group, is not done, and messages to the group are still queued for it.
\<close>

theorem lost_connection_stays:
  assumes "Wp_read \<in> set (wc_pending (ww_con w c))" "c \<in> set (get_group_connections w n)" "\<not> wc_done (ww_con w c)"
    "w' = fst (ws_async E c Wp_read False a w)"
  shows "c \<in> set (get_group_connections w' n) \<and> \<not> wc_done (ww_con w' c) \<and> ww_user w' = ww_user w \<and>
    wc_queue (ww_con w' c) = wc_queue (ww_con w c) \<and>
    wc_pending (ww_con w' c) = remove1 Wp_read (wc_pending (ww_con w c))"
  using assms by (simp add: ws_async_def act_simps ws_complete_def get_group_connections_def)

text \<open>Connection 3 joined the default group, whose handler is 0, and the server closes it.\<close>

definition closing_world :: "'u \<Rightarrow> (nat, 'u) ws_world" where
  "closing_world u = fst (seq (set_default_handler (Some 0)) (seq (issue_ws 3 Wp_read)
     (seq (hub_on_connect quiet_ws_env 3) (ws_close 3))) (quiet_world u))"

lemma closing_world_quiescent: "quiescent (closing_world u)"
  unfolding closing_world_def
  by (intro polite_quiescent quiet_world_quiescent polite_intros polite_hub_events quiet_ws_env_polite) simp_all

definition close_response :: ws_response where
  "close_response = \<lparr>wr_headers = [], wr_message = \<lparr>wm_type = Ws_close, wm_content = []\<rparr>\<rparr>"

lemma closing_world_facts:
  "Wp_write \<in> set (wc_pending (ww_con (closing_world ([] :: nat list)) 3))"
  "Wp_read \<in> set (wc_pending (ww_con (closing_world ([] :: nat list)) 3))"
  "\<not> wc_done (ww_con (closing_world ([] :: nat list)) 3)"
  "wc_queue (ww_con (closing_world ([] :: nat list)) 3) = [(close_response, Some Ws_nop)]"
  "wm_type (wr_message close_response) = Ws_close"
  "ww_groups (closing_world ([] :: nat list)) [] = Some \<lparr>g_cons = [3], g_handler = Some 0, g_name = []\<rparr>"
  "group_of (closing_world ([] :: nat list)) 3 = Some ([], \<lparr>g_cons = [3], g_handler = Some 0, g_name = []\<rparr>)"
  by code_simp+

lemma goodbye_deadlocks_witness:
  "let w = closing_world ([] :: nat list); E = ws_env_with (\<lambda>h c. send_message c False ''bye'') in
   ws_async E 3 Wp_write True no_arrival w = (popped 3 w, Hang) \<and>
   send_message 3 False ''hi'' (popped 3 w) = (popped 3 w, Hang)"
  unfolding Let_def
proof (rule goodbye_deadlocks [OF _ closing_world_facts(1,3,4,5) _ closing_world_facts(7)])
  show "quiescent (closing_world ([] :: nat list))" by (rule closing_world_quiescent)
qed (simp_all add: closing_world_facts ws_env_with_def)

lemma disconnect_reported_twice_witness:
  "let w = closing_world ([] :: nat list); E = ws_env_with (\<lambda>h c. modify (\<lambda>w. w\<lparr>ww_user := c # ww_user w\<rparr>));
       a = no_arrival\<lparr>wa_message := wr_message close_response\<rparr> in
   snd (ws_async E 3 Wp_write True a w) = Go \<and>
   ww_user (fst (ws_async E 3 Wp_read True a (fst (ws_async E 3 Wp_write True a w)))) = 3 # 3 # ww_user w"
  unfolding Let_def
proof (rule disconnect_reported_twice [OF _ closing_world_facts(1,2,3,4,5,6) _ closing_world_facts(7)])
  show "quiescent (closing_world ([] :: nat list))" by (rule closing_world_quiescent)
  show "counts_losses (ws_env_with (\<lambda>h c. modify (\<lambda>w. w\<lparr>ww_user := c # ww_user w\<rparr>)))"
    by (simp add: counts_losses_def ws_env_with_def)
qed (simp_all add: close_response_def)

text \<open>A connection without a group, which the server closes and then sends a message on.\<close>

definition late_world :: "(nat, unit) ws_world" where
  "late_world = fst (seq (ws_close 5) (send_message 5 False ''late'') quiet_ws_world)"

lemma message_after_close_witness:
  "wc_wire (ww_con (fst (ws_async quiet_ws_env 5 Wp_write True no_arrival late_world)) 5)
      = wc_wire (ww_con late_world 5) @ [data_response False ''late''] \<and>
    {Wp_write, Wp_finish} \<subseteq> set (wc_pending (ww_con (fst (ws_async quiet_ws_env 5 Wp_write True no_arrival late_world)) 5)) \<and>
    last (wc_wire (ww_con late_world 5)) = close_response"
proof (rule message_after_close)
  show "quiescent late_world" unfolding late_world_def quiet_ws_world_def
    by (intro polite_quiescent quiet_world_quiescent polite_intros)
  show "wc_queue (ww_con late_world 5) = (close_response, Some Ws_nop) # [(data_response False ''late'', None)]"
    by code_simp
  show "ww_groups late_world [] = Some (empty_group [] None)" by code_simp
qed code_simp+

lemma lost_connection_stays_witness:
  "let w = closing_world ([] :: nat list); w' = fst (ws_async quiet_ws_env 3 Wp_read False no_arrival w) in
   3 \<in> set (get_group_connections w' []) \<and> \<not> wc_done (ww_con w' 3) \<and> ww_user w' = ww_user w \<and>
    wc_queue (ww_con w' 3) = wc_queue (ww_con w 3) \<and>
    wc_pending (ww_con w' 3) = remove1 Wp_read (wc_pending (ww_con w 3))"
  unfolding Let_def
  by (rule lost_connection_stays [OF closing_world_facts(2) _ closing_world_facts(3) refl])
     (simp add: get_group_connections_def closing_world_facts)

end
