(* ===== verification/Lock_Order.thy ===== *)
theory Lock_Order imports Ws_Connection
begin

text \<open>
  Two threads and the mutexes of groups and queues. Each thread runs the lock operations of one
  of the functions of \<^verbatim>\<open>src/websocket/hub.cpp\<close> and \<^verbatim>\<open>src/handler.cpp\<close>; what it does in between
  does not matter here. A step is one operation; taking a mutex that is held is no step.
\<close>

section \<open>Lock traces\<close>

datatype mutex = Group_mutex string | Queue_mutex nat

datatype lock_op = Acquire mutex | Release mutex

text \<open>
  Sending to members with the mutex of the group held; the end of a close frame, which leaves
  the group with the mutex of the queue held; a message queued; a connection moved.
\<close>

definition queue_response_locks :: "nat \<Rightarrow> lock_op list" where
  "queue_response_locks c = [Acquire (Queue_mutex c), Release (Queue_mutex c)]"

definition broadcast_locks :: "string \<Rightarrow> nat list \<Rightarrow> lock_op list" where
  "broadcast_locks n cs =
     Acquire (Group_mutex n) # concat (map queue_response_locks cs) @ [Release (Group_mutex n)]"

definition on_disconnect_locks :: "string \<Rightarrow> lock_op list" where
  "on_disconnect_locks n = [Acquire (Group_mutex n), Release (Group_mutex n)]"

definition send_cb_locks :: "nat \<Rightarrow> string option \<Rightarrow> lock_op list" where
  "send_cb_locks c closing =
     Acquire (Queue_mutex c)
     # (case closing of Some n \<Rightarrow> on_disconnect_locks n | None \<Rightarrow> [])
     @ [Release (Queue_mutex c)]"

definition set_connection_group_locks :: "string \<Rightarrow> string \<Rightarrow> lock_op list" where
  "set_connection_group_locks old new = on_disconnect_locks old @ on_disconnect_locks new"

text \<open>A call a thread makes: a message, a broadcast, a move, a client gone, a completed write, a completed close frame.\<close>

datatype lock_call =
    Call_send nat | Call_broadcast string "nat list" | Call_move string string
  | Call_disconnect string | Call_written nat | Call_closed nat string

fun locks_of :: "lock_call \<Rightarrow> lock_op list" where
  "locks_of (Call_send c) = queue_response_locks c"
| "locks_of (Call_broadcast n cs) = broadcast_locks n cs"
| "locks_of (Call_move old new) = set_connection_group_locks old new"
| "locks_of (Call_disconnect n) = on_disconnect_locks n"
| "locks_of (Call_written c) = send_cb_locks c None"
| "locks_of (Call_closed c n) = send_cb_locks c (Some n)"

fun is_closed_call :: "lock_call \<Rightarrow> bool" where
  "is_closed_call (Call_closed c n) = True"
| "is_closed_call _ = False"

section \<open>Threads\<close>

text \<open>The owner of every mutex, and what is left to do for each thread.\<close>

record threads =
  t_owner :: "mutex \<Rightarrow> nat option"
  t_todo :: "nat \<Rightarrow> lock_op list"

definition start_threads :: "(nat \<Rightarrow> lock_op list) \<Rightarrow> threads" where
  "start_threads P = \<lparr>t_owner = \<lambda>_. None, t_todo = P\<rparr>"

inductive lock_step :: "threads \<Rightarrow> threads \<Rightarrow> bool" where
  acquire: "t_todo s i = Acquire m # ops \<Longrightarrow> t_owner s m = None \<Longrightarrow>
     lock_step s (s\<lparr>t_owner := (t_owner s)(m := Some i), t_todo := (t_todo s)(i := ops)\<rparr>)"
| release: "t_todo s i = Release m # ops \<Longrightarrow> t_owner s m = Some i \<Longrightarrow>
     lock_step s (s\<lparr>t_owner := (t_owner s)(m := None), t_todo := (t_todo s)(i := ops)\<rparr>)"

inductive_simps lock_step_iff: "lock_step s t"

definition deadlocked :: "threads \<Rightarrow> bool" where
  "deadlocked s \<longleftrightarrow> (\<exists>i. t_todo s i \<noteq> []) \<and> (\<forall>t. \<not> lock_step s t)"

section \<open>An order of the mutexes\<close>

fun rank :: "mutex \<Rightarrow> nat" where
  "rank (Group_mutex n) = 0"
| "rank (Queue_mutex c) = 1"

text \<open>A trace that takes mutexes in ascending rank only, and gives back what it took.\<close>

fun ordered :: "mutex list \<Rightarrow> lock_op list \<Rightarrow> bool" where
  "ordered hs [] = (hs = [])"
| "ordered hs (Acquire m # ops) = ((\<forall>h \<in> set hs. rank h < rank m) \<and> ordered (m # hs) ops)"
| "ordered hs (Release m # ops) = (m \<in> set hs \<and> ordered (remove1 m hs) ops)"

lemma ordered_append: "ordered hs a \<Longrightarrow> ordered [] b \<Longrightarrow> ordered hs (a @ b)"
  by (induction hs a rule: ordered.induct) auto

lemma ordered_members: "ordered [Group_mutex n] ops \<Longrightarrow>
    ordered [Group_mutex n] (concat (map queue_response_locks cs) @ ops)"
  by (induction cs) (auto simp: queue_response_locks_def)

lemma ordered_calls: "\<not> is_closed_call k \<Longrightarrow> ordered [] (locks_of k)"
  by (cases k) (simp_all add: queue_response_locks_def broadcast_locks_def set_connection_group_locks_def
      on_disconnect_locks_def send_cb_locks_def ordered_members)

lemma ordered_concat: "\<forall>k \<in> set ks. \<not> is_closed_call k \<Longrightarrow> ordered [] (concat (map locks_of ks))"
  by (induction ks) (simp_all add: ordered_append ordered_calls)

definition lock_inv :: "threads \<Rightarrow> bool" where
  "lock_inv s \<longleftrightarrow> (\<exists>H. \<forall>i. distinct (H i) \<and> set (H i) = {m. t_owner s m = Some i} \<and> ordered (H i) (t_todo s i))"

lemma lock_inv_step:
  assumes "lock_inv s" "lock_step s t"
  shows "lock_inv t"
proof -
  obtain H where H: "distinct (H i)" "set (H i) = {m. t_owner s m = Some i}" "ordered (H i) (t_todo s i)" for i
    using assms(1) by (auto simp: lock_inv_def)
  from assms(2) show ?thesis
  proof (cases rule: lock_step.cases)
    case 1: (acquire i m ops)
    have "m \<notin> set (H j)" for j using H(2) [of j] 1 by simp
    then show ?thesis using H H(3) [of i] 1 unfolding lock_inv_def
      by (intro exI [of _ "H(i := m # H i)"]) auto
  next
    case 2: (release i m ops)
    have "m \<notin> set (H j)" if "j \<noteq> i" for j using H(2) [of j] 2 that by simp
    then show ?thesis using H H(3) [of i] 2 unfolding lock_inv_def
      by (intro exI [of _ "H(i := remove1 m (H i))"]) auto
  qed
qed

lemma lock_inv_not_deadlocked:
  assumes "lock_inv s"
  shows "\<not> deadlocked s"
proof
  assume dead: "deadlocked s"
  obtain H where H: "set (H i) = {m. t_owner s m = Some i}" "ordered (H i) (t_todo s i)" for i
    using assms by (auto simp: lock_inv_def)
  have waits: "\<exists>m ops j. t_todo s i = Acquire m # ops \<and> t_owner s m = Some j \<and> (\<forall>h \<in> set (H i). rank h < rank m)"
    if i: "t_todo s i \<noteq> []" for i
  proof -
    obtain p ops where p: "t_todo s i = p # ops" using i by (cases "t_todo s i") auto
    show ?thesis
    proof (cases p)
      case (Acquire m)
      then have "t_owner s m \<noteq> None" using dead p lock_step.acquire [of s i m ops] by (auto simp: deadlocked_def)
      then show ?thesis using p Acquire H(2) [of i] by auto
    next
      case (Release m)
      then have "t_owner s m = Some i" using H(1,2) [of i] p by auto
      then show ?thesis using dead p Release lock_step.release [of s i m ops] by (auto simp: deadlocked_def)
    qed
  qed
  have further: "\<exists>m' j. rank m < rank m' \<and> t_owner s m' = Some j" if "t_owner s m = Some i" for m i
  proof -
    have m: "m \<in> set (H i)" using that H(1) by simp
    then have "t_todo s i \<noteq> []" using H(2) [of i] by auto
    then show ?thesis using waits [of i] m by auto
  qed
  obtain i where "t_todo s i \<noteq> []" using dead by (auto simp: deadlocked_def)
  then obtain m j where "t_owner s m = Some j" using waits by blast
  then obtain m' j' where m': "rank m < rank m'" "t_owner s m' = Some j'" using further by blast
  obtain m'' where "rank m' < rank m''" using further [OF m'(2)] by blast
  then show False using m'(1) by (cases m''; cases m') auto
qed

text \<open>
  C11. Threads that send, broadcast, move connections between groups, handle lost clients and
  completed writes in any number and order never deadlock on the mutexes of groups and queues,
  as long as no thread completes a close frame of the server.
\<close>

theorem no_deadlock_without_close:
  assumes "\<forall>i. \<forall>k \<in> set (P i). \<not> is_closed_call k"
    and "lock_step\<^sup>*\<^sup>* (start_threads (\<lambda>i. concat (map locks_of (P i)))) s"
  shows "\<not> deadlocked s"
proof -
  have "lock_inv (start_threads (\<lambda>i. concat (map locks_of (P i))))"
    using assms(1) ordered_concat unfolding lock_inv_def start_threads_def
    by (intro exI [of _ "\<lambda>_. []"]) simp
  with assms(2) have "lock_inv s" by (induction rule: rtranclp_induct) (auto intro: lock_inv_step)
  then show ?thesis by (rule lock_inv_not_deadlocked)
qed

lemma no_deadlock_without_close_witness:
  "\<not> deadlocked (start_threads (\<lambda>i. concat (map locks_of
     (if i = 0 then [Call_broadcast ''chat'' [3, 7]] else [Call_move ''chat'' [], Call_send 3]))))"
  by (rule no_deadlock_without_close [where P = "\<lambda>i. if i = 0 then [Call_broadcast ''chat'' [3, 7]]
       else [Call_move ''chat'' [], Call_send 3]"]) auto

section \<open>The close frame\<close>

lemma run_members:
  "t_todo s i = concat (map queue_response_locks cs) @ ops \<Longrightarrow> \<forall>c \<in> set cs. t_owner s (Queue_mutex c) = None \<Longrightarrow>
     lock_step\<^sup>*\<^sup>* s (s\<lparr>t_todo := (t_todo s)(i := ops)\<rparr>)"
proof (induction cs arbitrary: s)
  case Nil
  then have "s\<lparr>t_todo := (t_todo s)(i := ops)\<rparr> = s" by (cases s) auto
  then show ?case by (simp only: rtranclp.rtrancl_refl)
next
  case (Cons c cs)
  let ?m = "Queue_mutex c" and ?rest = "concat (map queue_response_locks cs) @ ops"
  let ?s1 = "s\<lparr>t_owner := (t_owner s)(?m := Some i), t_todo := (t_todo s)(i := Release ?m # ?rest)\<rparr>"
  let ?s2 = "s\<lparr>t_todo := (t_todo s)(i := ?rest)\<rparr>"
  have "lock_step s ?s1" using Cons.prems
    by (intro acquire) (simp_all add: queue_response_locks_def [of c])
  moreover have "lock_step ?s1 ?s2"
  proof -
    have "(t_owner s)(?m := None) = t_owner s" using Cons.prems(2) by (auto simp: fun_eq_iff)
    then have "?s2 = ?s1\<lparr>t_owner := (t_owner ?s1)(?m := None), t_todo := (t_todo ?s1)(i := ?rest)\<rparr>"
      by (cases s) simp
    moreover have "lock_step ?s1 \<dots>" by (intro release) simp_all
    ultimately show ?thesis by simp
  qed
  moreover have "lock_step\<^sup>*\<^sup>* ?s2 (?s2\<lparr>t_todo := (t_todo ?s2)(i := ops)\<rparr>)"
    using Cons.prems(2) by (intro Cons.IH) simp_all
  ultimately have "lock_step\<^sup>*\<^sup>* s (?s2\<lparr>t_todo := (t_todo ?s2)(i := ops)\<rparr>)"
    by (blast intro: converse_rtranclp_into_rtranclp)
  then show ?case by (simp del: fun_upd_apply)
qed

text \<open>
  C26. A broadcast to a group and the completion of a close frame for one of its members take
  the two mutexes in opposite order: there is an interleaving after which both threads wait for
  each other for ever.
\<close>

theorem broadcast_close_deadlock:
  assumes "c \<in> set cs"
  shows "\<exists>s. lock_step\<^sup>*\<^sup>* (start_threads (\<lambda>i. if i = 0 then locks_of (Call_broadcast n cs)
       else if i = 1 then locks_of (Call_closed c n) else [])) s \<and> deadlocked s"
proof -
  let ?s0 = "start_threads (\<lambda>i. if i = 0 then locks_of (Call_broadcast n cs)
       else if i = 1 then locks_of (Call_closed c n) else [])"
  let ?g = "Group_mutex n" and ?q = "Queue_mutex c"
  obtain as bs where cs: "cs = as @ c # bs" "c \<notin> set as" using assms by (meson split_list_first)
  let ?rest = "queue_response_locks c @ concat (map queue_response_locks bs) @ [Release ?g]"
  let ?s1 = "?s0\<lparr>t_owner := (t_owner ?s0)(?g := Some 0),
     t_todo := (t_todo ?s0)(0 := concat (map queue_response_locks as) @ ?rest)\<rparr>"
  let ?s2 = "?s1\<lparr>t_todo := (t_todo ?s1)(0 := ?rest)\<rparr>"
  let ?close = "[Acquire ?g, Release ?g, Release ?q]"
  let ?s3 = "?s2\<lparr>t_owner := (t_owner ?s2)(?q := Some 1), t_todo := (t_todo ?s2)(1 := ?close)\<rparr>"
  have 1: "lock_step ?s0 ?s1"
    by (intro acquire) (simp_all add: start_threads_def broadcast_locks_def cs)
  have 2: "lock_step\<^sup>*\<^sup>* ?s1 ?s2"
    by (intro run_members) (simp_all add: start_threads_def)
  have 3: "lock_step ?s2 ?s3"
    by (intro acquire) (simp_all add: start_threads_def send_cb_locks_def on_disconnect_locks_def)
  have todo: "t_todo ?s3 0 = Acquire ?q # tl ?rest" "t_todo ?s3 1 = ?close" "\<And>i. i \<noteq> 0 \<Longrightarrow> i \<noteq> 1 \<Longrightarrow> t_todo ?s3 i = []"
    by (simp_all add: start_threads_def queue_response_locks_def)
  have owner: "t_owner ?s3 ?q = Some 1" "t_owner ?s3 ?g = Some 0" by simp_all
  have "\<not> lock_step ?s3 t" for t
  proof
    assume "lock_step ?s3 t"
    then obtain i p ops where p: "t_todo ?s3 i = p # ops"
      "(\<exists>m. p = Acquire m \<and> t_owner ?s3 m = None) \<or> (\<exists>m. p = Release m)"
      by (cases rule: lock_step.cases) auto
    consider "i = 0" | "i = 1" | "i \<noteq> 0" "i \<noteq> 1" by blast
    then show False using p todo owner by cases (simp_all only: list.inject, auto)
  qed
  then have "deadlocked ?s3" using todo(2) by (auto simp: deadlocked_def)
  moreover have "lock_step\<^sup>*\<^sup>* ?s0 ?s3" using 1 2 3 by (meson converse_rtranclp_into_rtranclp rtranclp.rtrancl_into_rtrancl)
  ultimately show ?thesis by blast
qed

lemma broadcast_close_deadlock_witness:
  "\<exists>s. lock_step\<^sup>*\<^sup>* (start_threads (\<lambda>i. if i = 0 then locks_of (Call_broadcast ''chat'' [3, 7])
       else if i = 1 then locks_of (Call_closed 7 ''chat'') else [])) s \<and> deadlocked s"
  by (rule broadcast_close_deadlock) simp

end
