(* ===== verification/Json_Value.thy ===== *)
theory Json_Value imports Prelude "HOL-Library.List_Lexorder" "HOL-Library.Char_ord"
begin

text \<open>
  The JSON values of \<^verbatim>\<open>include/grpcbackend/picojson.h\<close> (compiled with \<^verbatim>\<open>PICOJSON_USE_INT64\<close>) and
  their text. Floating point numbers have a type \<open>'d\<close>; what the C library does with them is a
  record of functions, and the current locale's decimal point is a field of it.
\<close>

section \<open>Values\<close>

text \<open>An object is a \<^verbatim>\<open>std::map\<close>: its entries in ascending order of the keys.\<close>

datatype 'd json =
    J_null | J_bool bool | J_number 'd | J_int "64 word" | J_string string
  | J_array "'d json list" | J_object "(string \<times> 'd json) list"

type_synonym 'd object = "(string \<times> 'd json) list"

text \<open>
  \<^verbatim>\<open>strtod\<close> yields a number and how much of the text it read. \<open>cl_whole\<close> is the test in
  front of the two formats of \<^verbatim>\<open>snprintf\<close>: below \<open>2 ^ 53\<close> and without a fraction.
\<close>

record 'd c_lib =
  cl_point :: string
  cl_strtod :: "string \<Rightarrow> 'd \<times> nat"
  cl_finite :: "'d \<Rightarrow> bool"
  cl_whole :: "'d \<Rightarrow> bool"
  cl_format_f :: "'d \<Rightarrow> string"
  cl_format_g :: "'d \<Rightarrow> string"
  cl_of_int :: "int \<Rightarrow> 'd"
  cl_zero :: "'d \<Rightarrow> bool"
  cl_equal :: "'d \<Rightarrow> 'd \<Rightarrow> bool"

fun obj_insert :: "string \<Rightarrow> 'd json \<Rightarrow> 'd object \<Rightarrow> 'd object" where
  "obj_insert k v [] = [(k, v)]"
| "obj_insert k v ((l, u) # kvs) =
     (if k < l then (k, v) # (l, u) # kvs else if k = l then (k, v) # kvs else (l, u) # obj_insert k v kvs)"

definition obj_count :: "string \<Rightarrow> 'd object \<Rightarrow> nat" where
  "obj_count k kvs = length (filter (\<lambda>x. fst x = k) kvs)"

definition obj_at :: "string \<Rightarrow> 'd object \<Rightarrow> 'd json result" where
  "obj_at k kvs = (case map_of kvs k of None \<Rightarrow> Inl (Std_exception ''map::at'') | Some v \<Rightarrow> Inr v)"

text \<open>The constructor from a floating point number, and \<^verbatim>\<open>is\<close> and \<^verbatim>\<open>get\<close> for the types the sources use.\<close>

definition number_value :: "'d c_lib \<Rightarrow> 'd \<Rightarrow> 'd json result" where
  "number_value C d = (if cl_finite C d then Inr (J_number d) else Inl (Std_exception []))"

fun is_null :: "'d json \<Rightarrow> bool" where
  "is_null J_null = True"
| "is_null _ = False"

fun is_object :: "'d json \<Rightarrow> bool" where
  "is_object (J_object _) = True"
| "is_object _ = False"

fun is_array :: "'d json \<Rightarrow> bool" where
  "is_array (J_array _) = True"
| "is_array _ = False"

definition type_mismatch :: "string \<Rightarrow> exc" where
  "type_mismatch t = Std_exception (CHR 0x22 # ''type mismatch! call is<type>() before get<type>()'' @ CHR 0x22 # '' && is<'' @ t @ ''>()'')"

fun get_object :: "'d json \<Rightarrow> 'd object result" where
  "get_object (J_object kvs) = Inr kvs"
| "get_object _ = Inl (type_mismatch ''object'')"

fun get_array :: "'d json \<Rightarrow> 'd json list result" where
  "get_array (J_array vs) = Inr vs"
| "get_array _ = Inl (type_mismatch ''array'')"

fun get_string :: "'d json \<Rightarrow> string result" where
  "get_string (J_string s) = Inr s"
| "get_string _ = Inl (type_mismatch ''std::string'')"

fun evaluate_as_boolean :: "'d c_lib \<Rightarrow> 'd json \<Rightarrow> bool" where
  "evaluate_as_boolean C J_null = False"
| "evaluate_as_boolean C (J_bool b) = b"
| "evaluate_as_boolean C (J_number d) = (\<not> cl_zero C d)"
| "evaluate_as_boolean C (J_int i) = (i \<noteq> 0)"
| "evaluate_as_boolean C (J_string s) = (s \<noteq> [])"
| "evaluate_as_boolean C _ = True"

text \<open>Access by index and by key: absent elements read as null.\<close>

definition get_index :: "nat \<Rightarrow> 'd json \<Rightarrow> 'd json result" where
  "get_index idx v =
     (case v of J_array vs \<Rightarrow> Inr (if idx < length vs then vs ! idx else J_null)
      | _ \<Rightarrow> Inl (Std_exception ''is<array>()''))"

definition get_key :: "string \<Rightarrow> 'd json \<Rightarrow> 'd json result" where
  "get_key k v =
     (case v of J_object kvs \<Rightarrow> Inr (case map_of kvs k of Some u \<Rightarrow> u | None \<Rightarrow> J_null)
      | _ \<Rightarrow> Inl (Std_exception ''is<object>()''))"

definition contains_index :: "nat \<Rightarrow> 'd json \<Rightarrow> bool result" where
  "contains_index idx v =
     (case v of J_array vs \<Rightarrow> Inr (idx < length vs) | _ \<Rightarrow> Inl (Std_exception ''is<array>()''))"

definition contains_key :: "string \<Rightarrow> 'd json \<Rightarrow> bool result" where
  "contains_key k v =
     (case v of J_object kvs \<Rightarrow> Inr (map_of kvs k \<noteq> None) | _ \<Rightarrow> Inl (Std_exception ''is<object>()''))"

section \<open>Text\<close>

text \<open>The first occurrence of the locale's decimal point becomes a dot.\<close>

fun delocalise :: "string \<Rightarrow> string \<Rightarrow> string" where
  "delocalise p [] = []"
| "delocalise p (c # s) =
     (if take (length p) (c # s) = p then CHR ''.'' # drop (length p) (c # s) else c # delocalise p s)"

definition number_text :: "'d c_lib \<Rightarrow> 'd \<Rightarrow> string" where
  "number_text C d =
     (let buf = (if cl_whole C d then cl_format_f C d else cl_format_g C d)
      in if cl_point C \<noteq> ''.'' then delocalise (cl_point C) buf else buf)"

fun to_str :: "'d c_lib \<Rightarrow> 'd json \<Rightarrow> string" where
  "to_str C J_null = ''null''"
| "to_str C (J_bool b) = (if b then ''true'' else ''false'')"
| "to_str C (J_int i) = dec_int (sint i)"
| "to_str C (J_number d) = number_text C d"
| "to_str C (J_string s) = s"
| "to_str C (J_array vs) = ''array''"
| "to_str C (J_object kvs) = ''object''"

definition hex_digit :: "nat \<Rightarrow> char" where
  "hex_digit n = char_of (if n < 10 then 48 + n else 87 + n)"

definition serialize_char :: "char \<Rightarrow> string" where
  "serialize_char c =
     (if c = CHR 0x22 then [CHR 0x5C, CHR 0x22]
      else if c = CHR 0x5C then [CHR 0x5C, CHR 0x5C]
      else if c = CHR ''/'' then [CHR 0x5C, CHR ''/'']
      else if c = CHR 0x08 then [CHR 0x5C, CHR ''b'']
      else if c = CHR 0x0C then [CHR 0x5C, CHR ''f'']
      else if c = CHR 0x0A then [CHR 0x5C, CHR ''n'']
      else if c = CHR 0x0D then [CHR 0x5C, CHR ''r'']
      else if c = CHR 0x09 then [CHR 0x5C, CHR ''t'']
      else let n = (of_char c :: nat) in
        if n < 0x20 \<or> n = 0x7F
        then [CHR 0x5C, CHR ''u'', CHR ''0'', CHR ''0'', hex_digit (n div 16), hex_digit (n mod 16)]
        else [c])"

definition serialize_str :: "string \<Rightarrow> string" where
  "serialize_str s = CHR 0x22 # concat (map serialize_char s) @ [CHR 0x22]"

text \<open>
  \<^verbatim>\<open>_serialize\<close>: an indentation of \<open>-1\<close> is the compact form. A line break ends the text when
  the indentation is 0.
\<close>

definition indent_text :: "int \<Rightarrow> string" where
  "indent_text ind = CHR 0x0A # replicate (nat (ind * 2)) (CHR '' '')"

definition deeper :: "int \<Rightarrow> int" where
  "deeper ind = (if ind \<noteq> -1 then ind + 1 else ind)"

definition line_break :: "int \<Rightarrow> string" where
  "line_break ind = (if ind \<noteq> -1 then indent_text ind else [])"

definition end_break :: "int \<Rightarrow> string" where
  "end_break ind = (if ind = 0 then [CHR 0x0A] else [])"

fun serialize :: "'d c_lib \<Rightarrow> int \<Rightarrow> 'd json \<Rightarrow> string"
and serialize_items :: "'d c_lib \<Rightarrow> int \<Rightarrow> 'd json list \<Rightarrow> string"
and serialize_members :: "'d c_lib \<Rightarrow> int \<Rightarrow> 'd object \<Rightarrow> string" where
  "serialize C ind (J_string s) = serialize_str s @ end_break ind"
| "serialize C ind (J_array vs) =
     ''['' @ serialize_items C (deeper ind) vs @ (if vs \<noteq> [] then line_break ind else []) @ '']'' @ end_break ind"
| "serialize C ind (J_object kvs) =
     ''{'' @ serialize_members C (deeper ind) kvs @ (if kvs \<noteq> [] then line_break ind else []) @ ''}'' @ end_break ind"
| "serialize C ind J_null = to_str C (J_null) @ end_break ind"
| "serialize C ind (J_bool b) = to_str C (J_bool b) @ end_break ind"
| "serialize C ind (J_number d) = to_str C (J_number d) @ end_break ind"
| "serialize C ind (J_int i) = to_str C (J_int i) @ end_break ind"
| "serialize_items C ind [] = []"
| "serialize_items C ind [v] = line_break ind @ serialize C ind v"
| "serialize_items C ind (v # u # vs) = line_break ind @ serialize C ind v @ '','' @ serialize_items C ind (u # vs)"
| "serialize_members C ind [] = []"
| "serialize_members C ind [(k, v)] =
     line_break ind @ serialize_str k @ '':'' @ (if ind \<noteq> -1 then '' '' else []) @ serialize C ind v"
| "serialize_members C ind ((k, v) # kv # kvs) =
     line_break ind @ serialize_str k @ '':'' @ (if ind \<noteq> -1 then '' '' else []) @ serialize C ind v @ '',''
     @ serialize_members C ind (kv # kvs)"

section \<open>Comparison\<close>

text \<open>
  \<^verbatim>\<open>operator==\<close> with the values it leaves behind: \<^verbatim>\<open>get<double>\<close> turns an integer into a floating
  point number in place, in a constant value as well.
\<close>

fun json_double :: "'d c_lib \<Rightarrow> 'd json \<Rightarrow> 'd option" where
  "json_double C (J_number d) = Some d"
| "json_double C (J_int i) = Some (cl_of_int C (sint i))"
| "json_double C _ = None"

fun json_equal :: "'d c_lib \<Rightarrow> 'd json \<Rightarrow> 'd json \<Rightarrow> bool \<times> 'd json \<times> 'd json"
and equal_items :: "'d c_lib \<Rightarrow> 'd json list \<Rightarrow> 'd json list \<Rightarrow> bool \<times> 'd json list \<times> 'd json list"
and equal_members :: "'d c_lib \<Rightarrow> 'd object \<Rightarrow> 'd object \<Rightarrow> bool \<times> 'd object \<times> 'd object" where
  "json_equal C J_null y = (is_null y, J_null, y)"
| "json_equal C (J_bool b) y = ((case y of J_bool c \<Rightarrow> b = c | _ \<Rightarrow> False), J_bool b, y)"
| "json_equal C (J_string s) y = ((case y of J_string t \<Rightarrow> s = t | _ \<Rightarrow> False), J_string s, y)"
| "json_equal C (J_number d) y =
     (case json_double C y of None \<Rightarrow> (False, J_number d, y) | Some e \<Rightarrow> (cl_equal C d e, J_number d, J_number e))"
| "json_equal C (J_int i) y =
     (case json_double C y of None \<Rightarrow> (False, J_int i, y)
      | Some e \<Rightarrow> (cl_equal C (cl_of_int C (sint i)) e, J_number (cl_of_int C (sint i)), J_number e))"
| "json_equal C (J_array vs) (J_array us) =
     (if length vs = length us
      then (case equal_items C vs us of (b, vs', us') \<Rightarrow> (b, J_array vs', J_array us'))
      else (False, J_array vs, J_array us))"
| "json_equal C (J_object vs) (J_object us) =
     (if length vs = length us
      then (case equal_members C vs us of (b, vs', us') \<Rightarrow> (b, J_object vs', J_object us'))
      else (False, J_object vs, J_object us))"
| "json_equal C x y = (False, x, y)"
| "equal_items C (v # vs) (u # us) =
     (case json_equal C v u of (b, v', u') \<Rightarrow>
        if b then (case equal_items C vs us of (b', vs', us') \<Rightarrow> (b', v' # vs', u' # us'))
        else (False, v' # vs, u' # us))"
| "equal_items C vs us = (True, vs, us)"
| "equal_members C ((k, v) # vs) ((l, u) # us) =
     (if k \<noteq> l then (False, (k, v) # vs, (l, u) # us)
      else (case json_equal C v u of (b, v', u') \<Rightarrow>
        if b then (case equal_members C vs us of (b', vs', us') \<Rightarrow> (b', (k, v') # vs', (l, u') # us'))
        else (False, (k, v') # vs, (l, u') # us)))"
| "equal_members C vs us = (True, vs, us)"

text \<open>
  Comparing two integers that are the same floating point number calls them equal, even if
  they differ, and turns both into that number.
\<close>

theorem integers_compared_as_doubles:
  assumes "cl_of_int C (sint i) = d" "cl_of_int C (sint j) = d" "cl_equal C d d"
  shows "json_equal C (J_int i) (J_int j) = (True, J_number d, J_number d)"
  using assms by simp

end
