(* ===== verification/Json_Parse.thy ===== *)
theory Json_Parse imports Json_Value
begin

text \<open>
  The parser of \<^verbatim>\<open>include/grpcbackend/picojson.h\<close>: the \<^verbatim>\<open>input\<close> class with its one
  character of lookahead, the functions for the parts of a text, and \<^verbatim>\<open>_parse\<close> for the
  context that builds a value. Loops over the input terminate because they read; the recursion
  on nested values takes fuel, and \<open>parse_fuel\<close> is shown to be enough.
\<close>

section \<open>Input\<close>

text \<open>
  \<open>in_cur\<close> is what \<^verbatim>\<open>cur_\<close> points to; when the first character of it was already read, it is
  consumed by the next call.
\<close>

record input =
  in_cur :: string
  in_consumed :: bool
  in_line :: nat

definition new_input :: "string \<Rightarrow> input" where
  "new_input s = \<lparr>in_cur = s, in_consumed = False, in_line = 1\<rparr>"

definition advance :: "input \<Rightarrow> input" where
  "advance i =
     (if in_consumed i
      then i\<lparr>in_line := in_line i + (if in_cur i \<noteq> [] \<and> hd (in_cur i) = CHR 0x0A then 1 else 0),
             in_cur := tl (in_cur i)\<rparr>
      else i)"

definition getc :: "input \<Rightarrow> char option \<times> input" where
  "getc i =
     (let j = advance i
      in case in_cur j of [] \<Rightarrow> (None, j\<lparr>in_consumed := False\<rparr>) | c # s \<Rightarrow> (Some c, j\<lparr>in_consumed := True\<rparr>))"

definition ungetc :: "input \<Rightarrow> input" where
  "ungetc i = i\<lparr>in_consumed := False\<rparr>"

text \<open>What is left to read.\<close>

definition rem :: "input \<Rightarrow> string" where
  "rem i = (if in_consumed i then tl (in_cur i) else in_cur i)"

lemma rem_advance [simp]: "in_cur (advance i) = rem i"
  by (simp add: advance_def rem_def)

lemma getc_None: "getc i = (None, j) \<Longrightarrow> rem i = [] \<and> rem j = [] \<and> rem (ungetc j) = []"
  by (auto simp: getc_def Let_def rem_def ungetc_def split: list.splits)

lemma getc_Some: "getc i = (Some c, j) \<Longrightarrow> rem i = c # rem j \<and> rem (ungetc j) = rem i"
  by (auto simp: getc_def Let_def ungetc_def split: list.splits) (auto simp: rem_def)

lemma getc_shorter: "(Some c, j) = getc i \<Longrightarrow> length (rem j) < length (rem i)"
  using getc_Some [of i c j] by simp

lemma getc_Nil: "rem i = [] \<Longrightarrow> \<exists>j. getc i = (None, j) \<and> rem j = [] \<and> rem (ungetc j) = []"
  using getc_None [of i] getc_Some [of i] by (cases "getc i"; cases "fst (getc i)") auto

lemma getc_Cons: "rem i = c # s \<Longrightarrow> \<exists>j. getc i = (Some c, j) \<and> rem j = s \<and> rem (ungetc j) = c # s"
  using getc_None [of i] getc_Some [of i] by (cases "getc i"; cases "fst (getc i)") auto

lemma rem_new [simp]: "rem (new_input s) = s"
  by (simp add: rem_def new_input_def)

definition is_ws :: "char \<Rightarrow> bool" where
  "is_ws c \<longleftrightarrow> c = CHR '' '' \<or> c = CHR 0x09 \<or> c = CHR 0x0A \<or> c = CHR 0x0D"

function skip_ws :: "input \<Rightarrow> input" where
  "skip_ws i = (case getc i of
     (Some c, j) \<Rightarrow> if is_ws c then skip_ws j else ungetc j
   | (None, j) \<Rightarrow> ungetc j)"
  by pat_completeness auto
termination by (relation "measure (\<lambda>i. length (rem i))") (auto dest: getc_Some [OF sym])

declare skip_ws.simps [simp del]

definition expect :: "char \<Rightarrow> input \<Rightarrow> bool \<times> input" where
  "expect c i = (case getc (skip_ws i) of (d, j) \<Rightarrow> if d = Some c then (True, j) else (False, ungetc j))"

fun match_text :: "string \<Rightarrow> input \<Rightarrow> bool \<times> input" where
  "match_text [] i = (True, i)"
| "match_text (p # ps) i = (case getc i of (d, j) \<Rightarrow> if d = Some p then match_text ps j else (False, ungetc j))"

section \<open>Strings\<close>

definition hex_value :: "char \<Rightarrow> nat option" where
  "hex_value c =
     (let n = of_char c in
      if 48 \<le> n \<and> n \<le> 57 then Some (n - 48)
      else if 65 \<le> n \<and> n \<le> 70 then Some (n - 55)
      else if 97 \<le> n \<and> n \<le> 102 then Some (n - 87) else None)"

fun quadhex_loop :: "nat \<Rightarrow> nat \<Rightarrow> input \<Rightarrow> nat option \<times> input" where
  "quadhex_loop 0 u i = (Some u, i)"
| "quadhex_loop (Suc n) u i = (case getc i of
     (None, j) \<Rightarrow> (None, j)
   | (Some c, j) \<Rightarrow> (case hex_value c of
        None \<Rightarrow> (None, ungetc j)
      | Some h \<Rightarrow> quadhex_loop n (u * 16 + h) j))"

definition parse_quadhex :: "input \<Rightarrow> nat option \<times> input" where
  "parse_quadhex = quadhex_loop 4 0"

text \<open>The bytes \<^verbatim>\<open>out.push_back\<close> receives for a code point.\<close>

definition utf8 :: "nat \<Rightarrow> string" where
  "utf8 u =
     (if u < 0x80 then [char_of u]
      else
        (if u < 0x800 then [char_of (0xC0 + u div 2 ^ 6)]
         else
           (if u < 0x10000 then [char_of (0xE0 + u div 2 ^ 12)]
            else [char_of (0xF0 + u div 2 ^ 18), char_of (0x80 + (u div 2 ^ 12) mod 0x40)])
           @ [char_of (0x80 + (u div 2 ^ 6) mod 0x40)])
        @ [char_of (0x80 + u mod 0x40)])"

definition parse_codepoint :: "input \<Rightarrow> string option \<times> input" where
  "parse_codepoint i = (case parse_quadhex i of
     (None, j) \<Rightarrow> (None, j)
   | (Some u, j) \<Rightarrow>
       if 0xD800 \<le> u \<and> u \<le> 0xDFFF then
         if 0xDC00 \<le> u then (None, j)
         else (case getc j of (c, k) \<Rightarrow>
           if c \<noteq> Some (CHR 0x5C) then (None, ungetc k)
           else (case getc k of (d, l) \<Rightarrow>
             if d \<noteq> Some (CHR ''u'') then (None, ungetc l)
             else (case parse_quadhex l of
               (None, m) \<Rightarrow> (None, m)
             | (Some v, m) \<Rightarrow>
                 if 0xDC00 \<le> v \<and> v \<le> 0xDFFF
                 then (Some (utf8 ((u - 0xD800) * 2 ^ 10 + (v - 0xDC00) mod 0x400 + 0x10000)), m)
                 else (None, m))))
       else (Some (utf8 u), j))"

definition unescape :: "char \<Rightarrow> char option" where
  "unescape c =
     (if c = CHR 0x22 then Some (CHR 0x22) else if c = CHR 0x5C then Some (CHR 0x5C)
      else if c = CHR ''/'' then Some (CHR ''/'') else if c = CHR ''b'' then Some (CHR 0x08)
      else if c = CHR ''f'' then Some (CHR 0x0C) else if c = CHR ''n'' then Some (CHR 0x0A)
      else if c = CHR ''r'' then Some (CHR 0x0D) else if c = CHR ''t'' then Some (CHR 0x09) else None)"

lemma quadhex_loop_rem: "length (rem (snd (quadhex_loop n u i))) \<le> length (rem i)"
proof (induction n arbitrary: u i)
  case (Suc n)
  obtain c j where g: "getc i = (c, j)" by fastforce
  show ?case
  proof (cases c)
    case None
    then show ?thesis using g getc_None by simp
  next
    case (Some d)
    then show ?thesis using g getc_Some [of i d j] Suc.IH [of "u * 16 + the (hex_value d)" j]
      by (auto split: option.split)
  qed
qed simp

lemma getc_rem: "length (rem (snd (getc i))) \<le> length (rem i)" "length (rem (ungetc (snd (getc i)))) \<le> length (rem i)"
proof -
  obtain c j where g: "getc i = (c, j)" by fastforce
  show "length (rem (snd (getc i))) \<le> length (rem i)" "length (rem (ungetc (snd (getc i)))) \<le> length (rem i)"
    using g getc_None [of i j] getc_Some [of i _ j] by (cases c; simp)+
qed

lemma parse_codepoint_rem: "length (rem (snd (parse_codepoint i))) \<le> length (rem i)"
proof -
  obtain u j where q: "parse_quadhex i = (u, j)" by fastforce
  obtain c k where g: "getc j = (c, k)" by fastforce
  obtain d l where h: "getc k = (d, l)" by fastforce
  obtain v m where r: "parse_quadhex l = (v, m)" by fastforce
  have "length (rem j) \<le> length (rem i)" "length (rem k) \<le> length (rem j)" "length (rem (ungetc k)) \<le> length (rem j)"
    "length (rem l) \<le> length (rem k)" "length (rem (ungetc l)) \<le> length (rem k)" "length (rem m) \<le> length (rem l)"
    using q g h r quadhex_loop_rem [of 4 0 i] quadhex_loop_rem [of 4 0 l] getc_rem [of j] getc_rem [of k]
    by (simp_all add: parse_quadhex_def)
  then show ?thesis using q g h r by (auto simp: parse_codepoint_def split: option.split)
qed

function parse_string :: "string \<Rightarrow> input \<Rightarrow> string option \<times> input" where
  "parse_string out i = (case getc i of
     (None, j) \<Rightarrow> (None, ungetc j)
   | (Some c, j) \<Rightarrow>
       if c < CHR '' '' then (None, ungetc j)
       else if c = CHR 0x22 then (Some out, j)
       else if c = CHR 0x5C then (case getc j of
           (None, k) \<Rightarrow> (None, k)
         | (Some e, k) \<Rightarrow>
             if e = CHR ''u'' then (case parse_codepoint k of
                 (None, l) \<Rightarrow> (None, l)
               | (Some bytes, l) \<Rightarrow> parse_string (out @ bytes) l)
             else (case unescape e of None \<Rightarrow> (None, k) | Some d \<Rightarrow> parse_string (out @ [d]) k))
       else parse_string (out @ [c]) j)"
  by pat_completeness auto
termination
proof (relation "measure (\<lambda>(out, i). length (rem i))", goal_cases)
  case (2 out i x j c y k e z l bytes)
  have "length (rem l) \<le> length (rem k)" using 2 parse_codepoint_rem [of k] by (metis snd_conv)
  then show ?case using 2 getc_Some [of i c j] getc_Some [of j e k] by auto
qed (auto dest!: getc_shorter)


declare parse_string.simps [simp del]

section \<open>Numbers\<close>

definition is_number_char :: "char \<Rightarrow> bool" where
  "is_number_char c \<longleftrightarrow> is_digit c \<or> c = CHR ''+'' \<or> c = CHR ''-'' \<or> c = CHR ''e'' \<or> c = CHR ''E''"

function parse_number :: "'d c_lib \<Rightarrow> string \<Rightarrow> input \<Rightarrow> string \<times> input" where
  "parse_number C num i = (case getc i of
     (None, j) \<Rightarrow> (num, ungetc j)
   | (Some c, j) \<Rightarrow>
       if is_number_char c then parse_number C (num @ [c]) j
       else if c = CHR ''.'' then parse_number C (num @ cl_point C) j
       else (num, ungetc j))"
  by pat_completeness auto
termination by (relation "measure (\<lambda>(C, num, i). length (rem i))") (auto dest!: getc_shorter)

declare parse_number.simps [simp del]

text \<open>
  \<^verbatim>\<open>strtoimax\<close> on a text it reads to the end, without \<^verbatim>\<open>ERANGE\<close>: the number, otherwise \<open>None\<close>.
  The text has no white space, so only a sign and digits are read.
\<close>

definition strtoimax_whole :: "string \<Rightarrow> int option" where
  "strtoimax_whole s =
     (let neg = (s \<noteq> [] \<and> hd s = CHR ''-'');
          ds = (if s \<noteq> [] \<and> (hd s = CHR ''-'' \<or> hd s = CHR ''+'') then tl s else s);
          n = (if neg then - digits_value ds else digits_value ds)
      in if ds \<noteq> [] \<and> list_all is_digit ds \<and> - (2 ^ 63) \<le> n \<and> n < 2 ^ 63 then Some n else None)"

section \<open>Values\<close>

datatype 'd presult = P_ok "'d json" input | P_fail input | P_throw exc | P_fuel

definition finish_number :: "'d c_lib \<Rightarrow> string \<Rightarrow> input \<Rightarrow> 'd presult" where
  "finish_number C num j =
     (if num = [] then P_fail j
      else case strtoimax_whole num of
        Some n \<Rightarrow> P_ok (J_int (word_of_int n)) j
      | None \<Rightarrow>
          (case cl_strtod C num of (d, k) \<Rightarrow>
             if k = length num
             then (case number_value C d of Inl e \<Rightarrow> P_throw e | Inr v \<Rightarrow> P_ok v j)
             else P_fail j))"

definition parse_word :: "string \<Rightarrow> 'd json \<Rightarrow> input \<Rightarrow> 'd presult" where
  "parse_word w v i = (case match_text w i of (True, j) \<Rightarrow> P_ok v j | (False, j) \<Rightarrow> P_fail j)"

fun parse_value :: "'d c_lib \<Rightarrow> nat \<Rightarrow> input \<Rightarrow> 'd presult"
and parse_items :: "'d c_lib \<Rightarrow> nat \<Rightarrow> 'd json list \<Rightarrow> input \<Rightarrow> 'd presult"
and parse_members :: "'d c_lib \<Rightarrow> nat \<Rightarrow> 'd object \<Rightarrow> input \<Rightarrow> 'd presult" where
  "parse_value C 0 i = P_fuel"
| "parse_value C (Suc n) i = (case getc (skip_ws i) of
     (None, j) \<Rightarrow> P_fail (ungetc j)
   | (Some c, j) \<Rightarrow>
       if c = CHR ''n'' then parse_word ''ull'' J_null j
       else if c = CHR ''f'' then parse_word ''alse'' (J_bool False) j
       else if c = CHR ''t'' then parse_word ''rue'' (J_bool True) j
       else if c = CHR 0x22 then
         (case parse_string [] j of (Some s, k) \<Rightarrow> P_ok (J_string s) k | (None, k) \<Rightarrow> P_fail k)
       else if c = CHR ''['' then
         (case expect (CHR '']'') j of (True, k) \<Rightarrow> P_ok (J_array []) k | (False, k) \<Rightarrow> parse_items C n [] k)
       else if c = CHR ''{'' then
         (case expect (CHR ''}'') j of (True, k) \<Rightarrow> P_ok (J_object []) k | (False, k) \<Rightarrow> parse_members C n [] k)
       else if is_digit c \<or> c = CHR ''-'' then
         (case parse_number C [] (ungetc j) of (num, k) \<Rightarrow> finish_number C num k)
       else P_fail (ungetc j))"
| "parse_items C 0 vs i = P_fuel"
| "parse_items C (Suc n) vs i = (case parse_value C n i of
     P_ok v j \<Rightarrow> (case expect (CHR '','') j of
         (True, k) \<Rightarrow> parse_items C n (vs @ [v]) k
       | (False, k) \<Rightarrow> (case expect (CHR '']'') k of
           (True, l) \<Rightarrow> P_ok (J_array (vs @ [v])) l | (False, l) \<Rightarrow> P_fail l))
   | r \<Rightarrow> r)"
| "parse_members C 0 kvs i = P_fuel"
| "parse_members C (Suc n) kvs i = (case expect (CHR 0x22) i of
     (False, j) \<Rightarrow> P_fail j
   | (True, j) \<Rightarrow> (case parse_string [] j of
       (None, k) \<Rightarrow> P_fail k
     | (Some key, k) \<Rightarrow> (case expect (CHR '':'') k of
         (False, l) \<Rightarrow> P_fail l
       | (True, l) \<Rightarrow> (case parse_value C n l of
           P_ok v m \<Rightarrow> (case expect (CHR '','') m of
               (True, q) \<Rightarrow> parse_members C n (obj_insert key v kvs) q
             | (False, q) \<Rightarrow> (case expect (CHR ''}'') q of
                 (True, z) \<Rightarrow> P_ok (J_object (obj_insert key v kvs)) z | (False, z) \<Rightarrow> P_fail z))
         | r \<Rightarrow> r))))"

section \<open>The whole text\<close>

text \<open>The rest of the line goes into the error message, without control characters.\<close>

function error_rest :: "input \<Rightarrow> string" where
  "error_rest i = (case getc i of
     (None, j) \<Rightarrow> []
   | (Some c, j) \<Rightarrow> if c = CHR 0x0A then [] else if CHR '' '' \<le> c then c # error_rest j else error_rest j)"
  by pat_completeness auto
termination by (relation "measure (\<lambda>i. length (rem i))") (auto dest!: getc_shorter)

declare error_rest.simps [simp del]

definition parse_fuel :: "string \<Rightarrow> nat" where
  "parse_fuel s = 2 * length s + 1"

text \<open>
  \<^verbatim>\<open>parse(out, s)\<close>: the error text, empty after success, and the value. No caller looks at the value
  after an error, which is null here; \<open>parse_into\<close> of \<open>Json_Context\<close> has what the target really holds.
\<close>

definition parse_json :: "'d c_lib \<Rightarrow> string \<Rightarrow> (string \<times> 'd json) result" where
  "parse_json C s = (case parse_value C (parse_fuel s) (new_input s) of
     P_ok v j \<Rightarrow> Inr ([], v)
   | P_fail j \<Rightarrow> Inr (''syntax error at line '' @ dec_nat (in_line j) @ '' near: '' @ error_rest j, J_null)
   | P_throw e \<Rightarrow> Inl e
   | P_fuel \<Rightarrow> Inl Undefined_behaviour)"

end
