(* ===== verification/Json_Forward.thy ===== *)
theory Json_Forward imports Json_Parse
begin

text \<open>
  Every function of the JSON parser reads forward, so the fuel it starts with is enough on
  every text.
\<close>

section \<open>Every function reads forward\<close>

lemma skip_ws_rem: "length (rem (skip_ws i)) \<le> length (rem i)"
proof (induction i rule: skip_ws.induct)
  case (1 i)
  obtain c j where g: "getc i = (c, j)" by fastforce
  show ?case
  proof (cases c)
    case None
    then show ?thesis using g getc_None [of i j] by (subst skip_ws.simps) simp
  next
    case (Some d)
    then have "is_ws d \<Longrightarrow> length (rem (skip_ws j)) \<le> length (rem j)" using 1 g by auto
    then show ?thesis using Some g getc_Some [of i d j] by (subst skip_ws.simps) auto
  qed
qed

lemma expect_rem:
  "expect c i = (True, j) \<Longrightarrow> length (rem j) < length (rem i)"
  "expect c i = (False, j) \<Longrightarrow> length (rem j) \<le> length (rem i)"
proof -
  obtain d k where g: "getc (skip_ws i) = (d, k)" by fastforce
  note s = skip_ws_rem [of i] getc_Some [of "skip_ws i" _ k] getc_None [of "skip_ws i" k]
  show "expect c i = (True, j) \<Longrightarrow> length (rem j) < length (rem i)"
    using g s by (cases d) (auto simp: expect_def split: if_splits)
  show "expect c i = (False, j) \<Longrightarrow> length (rem j) \<le> length (rem i)"
    using g s by (cases d) (auto simp: expect_def split: if_splits)
qed

lemma match_text_rem: "match_text w i = (b, j) \<Longrightarrow> length (rem j) \<le> length (rem i)"
proof (induction w i rule: match_text.induct)
  case (2 p ps i)
  obtain d k where g: "getc i = (d, k)" by fastforce
  show ?case
    using 2 g getc_rem [of i] by (auto split: if_splits)
qed simp

lemma parse_string_rem: "parse_string out i = (r, j) \<Longrightarrow> length (rem j) \<le> length (rem i)"
proof (induction out i rule: parse_string.induct)
  case (1 out i)
  obtain c k where g: "getc i = (c, k)" by fastforce
  show ?case
  proof (cases c)
    case None
    then show ?thesis using 1(4) g getc_None [of i k] by (simp add: parse_string.simps [of out i])
  next
    case (Some d)
    obtain e l where h: "getc k = (e, l)" by fastforce
    obtain b m where cp: "parse_codepoint l = (b, m)" by fastforce
    have le: "length (rem k) < length (rem i)" "length (rem (ungetc k)) = length (rem i)" "length (rem l) \<le> length (rem k)"
      "length (rem m) \<le> length (rem l)"
      using getc_Some [of i d k] getc_rem [of k] parse_codepoint_rem [of l] g h cp Some by simp_all
    consider "d < CHR '' ''" | "\<not> d < CHR '' ''" "d = CHR 0x22" | "\<not> d < CHR '' ''" "d \<noteq> CHR 0x22" "d = CHR 0x5C"
      | "\<not> d < CHR '' ''" "d \<noteq> CHR 0x22" "d \<noteq> CHR 0x5C" by blast
    then show ?thesis
    proof cases
      case 1
      then show ?thesis using \<open>parse_string out i = (r, j)\<close> g Some le
        by (simp add: parse_string.simps [of out i])
    next
      case 2
      then show ?thesis using \<open>parse_string out i = (r, j)\<close> g Some le
        by (simp add: parse_string.simps [of out i])
    next
      case 3
      have rec1: "parse_string (out @ the b) m = (r, j) \<Longrightarrow> length (rem j) \<le> length (rem m)"
        if "e = Some (CHR ''u'')" "b \<noteq> None"
        using 1(1) [OF g [symmetric] Some 3(1,2,3) h [symmetric] that(1) refl cp [symmetric], of "the b"] that by simp
      have rec2: "parse_string (out @ [u]) l = (r, j) \<Longrightarrow> length (rem j) \<le> length (rem l)"
        if "e = Some f" "f \<noteq> CHR ''u''" "unescape f = Some u" for f u
        using 1(2) [OF g [symmetric] Some 3(1,2,3) h [symmetric] that] by simp
      show ?thesis
        using \<open>parse_string out i = (r, j)\<close> 3 g h cp Some le rec1 rec2
        by (simp add: parse_string.simps [of out i] split: option.splits if_splits) fastforce+
    next
      case 4
      then have "parse_string (out @ [d]) k = (r, j)"
        using \<open>parse_string out i = (r, j)\<close> g Some by (simp add: parse_string.simps [of out i])
      then show ?thesis using 1(3) [OF g [symmetric] Some 4] le by simp
    qed
  qed
qed

lemma parse_number_rem: "parse_number C num i = (r, j) \<Longrightarrow> length (rem j) \<le> length (rem i)"
proof (induction C num i rule: parse_number.induct)
  case (1 C num i)
  obtain c k where g: "getc i = (c, k)" by fastforce
  show ?case
  proof (cases c)
    case None
    then show ?thesis using 1(3) g getc_None [of i k] by (simp add: parse_number.simps [of C num i])
  next
    case (Some d)
    show ?thesis
      using 1(1) [OF g [symmetric] Some] 1(2) [OF g [symmetric] Some] 1(3) g Some getc_Some [of i d k]
      by (auto simp: parse_number.simps [of C num i] split: if_splits)
  qed
qed

section \<open>The fuel is enough\<close>

definition forward :: "input \<Rightarrow> 'd presult \<Rightarrow> bool" where
  "forward i r \<longleftrightarrow> r \<noteq> P_fuel \<and> (\<forall>v j. r = P_ok v j \<longrightarrow> length (rem j) < length (rem i))"

lemma forward_simps [simp]:
  "forward i (P_ok v j) \<longleftrightarrow> length (rem j) < length (rem i)" "forward i (P_fail j)" "forward i (P_throw e)"
  "\<not> forward i P_fuel"
  by (auto simp: forward_def)

lemma forward_mono: "forward j r \<Longrightarrow> length (rem j) \<le> length (rem i) \<Longrightarrow> forward i r"
  by (auto simp: forward_def)

lemma forward_word: "getc (skip_ws i) = (Some c, j) \<Longrightarrow> forward i (parse_word w v j)"
  using getc_Some [of "skip_ws i" c j] skip_ws_rem [of i] match_text_rem [of w j]
  by (auto simp: parse_word_def split: prod.split bool.split) (metis le_trans not_less not_less_eq_eq)

lemma forward_number:
  assumes "getc (skip_ws i) = (Some c, j)" "is_digit c \<or> c = CHR ''-''" "parse_number C [] (ungetc j) = (num, k)"
  shows "forward i (finish_number C num k)"
proof -
  have r: "rem (ungetc j) = c # rem j" "length (rem (skip_ws i)) \<le> length (rem i)" "rem (skip_ws i) = c # rem j"
    using getc_Some [OF assms(1)] skip_ws_rem [of i] by simp_all
  obtain l where l: "getc (ungetc j) = (Some c, l)" "rem l = rem j" using getc_Cons [OF r(1)] by auto
  have "is_number_char c" using assms(2) by (auto simp: is_number_char_def)
  then have "parse_number C [c] l = (num, k)"
    using assms(3) l by (simp add: parse_number.simps [of C "[]" "ungetc j"])
  then have "length (rem k) < length (rem i)" using parse_number_rem [of C "[c]" l num k] l r by simp
  then show ?thesis by (auto simp: finish_number_def split: option.split prod.split sum.split)
qed

lemma parse_forward:
  "2 * length (rem i) + 1 \<le> n \<Longrightarrow> forward i (parse_value C n i)"
  "2 * length (rem i) + 2 \<le> n \<Longrightarrow> forward i (parse_items C n vs i)"
  "2 * length (rem i) + 2 \<le> n \<Longrightarrow> forward i (parse_members C n kvs i)"
proof (induction C n i and C n vs i and C n kvs i rule: parse_value_parse_items_parse_members.induct)
  case (2 C n i)
  obtain d j where g: "getc (skip_ws i) = (d, j)" by fastforce
  show ?case
  proof (cases d)
    case None
    then show ?thesis using g by simp
  next
    case (Some c)
    have le: "length (rem j) < length (rem i)"
      using g Some getc_Some [of "skip_ws i" c j] skip_ws_rem [of i] by simp
    obtain b k where e: "expect (CHR '']'') j = (b, k)" by fastforce
    obtain b' k' where e': "expect (CHR ''}'') j = (b', k')" by fastforce
    obtain s l where s: "parse_string [] j = (s, l)" by fastforce
    obtain num m where num: "parse_number C [] (ungetc j) = (num, m)" by fastforce
    have a: "forward i (parse_items C n [] k)" if "c = CHR ''[''" "\<not> b"
    proof (rule forward_mono)
      show "forward k (parse_items C n [] k)"
        using 2 that g Some e expect_rem(2) [of "CHR '']''" j k] le by simp
    qed (use expect_rem(2) [of "CHR '']''" j k] that e le in simp)
    have o: "forward i (parse_members C n [] k')" if "c = CHR ''{''" "\<not> b'"
    proof (rule forward_mono)
      show "forward k' (parse_members C n [] k')"
        using 2 that g Some e' expect_rem(2) [of "CHR ''}''" j k'] le by simp
    qed (use expect_rem(2) [of "CHR ''}''" j k'] that e' le in simp)
    have str: "forward i (case s of None \<Rightarrow> P_fail l | Some t \<Rightarrow> P_ok (J_string t) l)"
      using parse_string_rem [OF s] le by (cases s) simp_all
    have arr: "forward i (case b of True \<Rightarrow> P_ok (J_array []) k | False \<Rightarrow> parse_items C n [] k)" if "c = CHR ''[''"
      using a that e le expect_rem(1) [of "CHR '']''" j k] by (cases b) simp_all
    have obj: "forward i (case b' of True \<Rightarrow> P_ok (J_object []) k' | False \<Rightarrow> parse_members C n [] k')" if "c = CHR ''{''"
      using o that e' le expect_rem(1) [of "CHR ''}''" j k'] by (cases b') simp_all
    note wd = forward_word [OF g [unfolded Some]] and nm = forward_number [OF g [unfolded Some] _ num]
    show ?thesis
      by (simp add: g Some e e' s num wd str arr obj) (use nm in blast)
  qed
next
  case (4 C n vs i)
  then have v: "forward i (parse_value C n i)" by simp
  show ?case
  proof (cases "parse_value C n i")
    case (P_ok u j)
    then have j: "length (rem j) < length (rem i)" using v by simp
    obtain b k where e: "expect (CHR '','') j = (b, k)" by fastforce
    obtain b' l where e': "expect (CHR '']'') k = (b', l)" by fastforce
    have k: "length (rem k) \<le> length (rem j)" "b \<Longrightarrow> length (rem k) < length (rem j)"
      using expect_rem [of "CHR '',''" j k] e by (cases b; simp)+
    have l: "length (rem l) \<le> length (rem k)" using expect_rem [of "CHR '']''" k l] e' by (cases b') simp_all
    have "forward i (parse_items C n (vs @ [u]) k)" if b
    proof (rule forward_mono)
      show "forward k (parse_items C n (vs @ [u]) k)" using 4 P_ok e that j k by simp
    qed (use j k in simp)
    then show ?thesis using P_ok e e' j k l by (auto split: bool.split)
  qed (use v in simp_all)
next
  case (6 C n kvs i)
  obtain b1 i1 where e1: "expect (CHR 0x22) i = (b1, i1)" by fastforce
  obtain s i2 where s: "parse_string [] i1 = (s, i2)" by fastforce
  obtain b2 i3 where e2: "expect (CHR '':'') i2 = (b2, i3)" by fastforce
  show ?case
  proof (cases "b1 \<and> s \<noteq> None \<and> b2")
    case False
    then show ?thesis using e1 s e2 by (auto split: bool.split option.split)
  next
    case True
    then obtain key where key: "s = Some key" by auto
    have le: "length (rem i1) < length (rem i)" "length (rem i2) \<le> length (rem i1)" "length (rem i3) < length (rem i2)"
      using expect_rem(1) parse_string_rem s e1 e2 True by auto
    have v: "forward i3 (parse_value C n i3)" using 6 True key e1 s e2 le by simp
    show ?thesis
    proof (cases "parse_value C n i3")
      case (P_ok u j)
      then have j: "length (rem j) < length (rem i3)" using v by simp
      obtain b k where e: "expect (CHR '','') j = (b, k)" by fastforce
      obtain b' l where e': "expect (CHR ''}'') k = (b', l)" by fastforce
      have k: "length (rem k) \<le> length (rem j)" "b \<Longrightarrow> length (rem k) < length (rem j)"
        using expect_rem [of "CHR '',''" j k] e by (cases b; simp)+
      have l: "length (rem l) \<le> length (rem k)" using expect_rem [of "CHR ''}''" k l] e' by (cases b') simp_all
      have "forward i (parse_members C n (obj_insert key u kvs) k)" if b
      proof (rule forward_mono)
        show "forward k (parse_members C n (obj_insert key u kvs) k)"
          using 6 P_ok e e1 e2 s key True that j k le by simp
      qed (use j k le in simp)
      then show ?thesis using P_ok e e' e1 e2 s key True j k l le by (auto split: bool.split)
    qed (use v e1 e2 s key True in simp_all)
  qed
qed simp_all

text \<open>
  C20. Parsing takes an end on every text: the fuel that \<open>parse_json\<close> starts with is enough, so
  its result is a value, an error text or the exception of a number out of range.
\<close>

theorem parse_terminates: "parse_value C (parse_fuel s) (new_input s) \<noteq> P_fuel"
  using parse_forward(1) [of "new_input s" "parse_fuel s" C] by (simp add: parse_fuel_def forward_def)

end
