(* ===== verification/Json_Roundtrip.thy ===== *)
theory Json_Roundtrip imports Json_Forward
begin

text \<open>
  Parsing what was serialised, with any indentation, yields the value. White space is dealt
  with by looking at the input behind it; each part of a text then has a lemma that says what
  reading it leaves.
\<close>

section \<open>Numbers\<close>

lemma is_digit_char_of: "d < 10 \<Longrightarrow> is_digit (char_of (48 + d))" "d < 10 \<Longrightarrow> (of_char (char_of (48 + d) :: char) :: int) = 48 + int d"
proof -
  have "\<forall>d \<in> set [0..<10]. is_digit (char_of (48 + d)) \<and> (of_char (char_of (48 + d) :: char) :: int) = 48 + int d"
    by code_simp
  then show "d < 10 \<Longrightarrow> is_digit (char_of (48 + d))" "d < 10 \<Longrightarrow> (of_char (char_of (48 + d) :: char) :: int) = 48 + int d"
    by auto
qed

lemma dec_nat_digits: "dec_nat n \<noteq> [] \<and> list_all is_digit (dec_nat n) \<and> digits_value (dec_nat n) = int n"
proof (induction n rule: dec_nat.induct)
  case (1 n)
  show ?case
  proof (cases "n < 10")
    case True
    then show ?thesis using is_digit_char_of [OF True] by (simp add: dec_nat.simps [of n] digits_value_def)
  next
    case False
    have "n mod 10 < 10" by simp
    note d = is_digit_char_of [OF this]
    have "int n = 10 * int (n div 10) + int (n mod 10)" by presburger
    then show ?thesis using 1 False d
      by (simp add: dec_nat.simps [of n] digits_value_def del: of_nat_mod of_nat_div)
  qed
qed

lemma not_sign_digit: "is_digit c \<Longrightarrow> c \<noteq> CHR ''-'' \<and> c \<noteq> CHR ''+'' \<and> c \<noteq> CHR ''.''"
proof -
  have "\<not> is_digit (CHR ''-'')" "\<not> is_digit (CHR ''+'')" "\<not> is_digit (CHR ''.'')" by code_simp+
  then show "is_digit c \<Longrightarrow> c \<noteq> CHR ''-'' \<and> c \<noteq> CHR ''+'' \<and> c \<noteq> CHR ''.''" by auto
qed

lemma strtoimax_dec_int:
  assumes "- (2 ^ 63) \<le> n" "n < 2 ^ 63"
  shows "strtoimax_whole (dec_int n) = Some n"
proof -
  note d = dec_nat_digits [of "nat n"] and d' = dec_nat_digits [of "nat (- n)"]
  obtain c cs where "dec_nat (nat n) = c # cs" "is_digit c" using d by (cases "dec_nat (nat n)") auto
  then show ?thesis using d d' assms not_sign_digit [of c]
    by (cases "n < 0") (simp_all add: dec_int_def strtoimax_whole_def Let_def)
qed

definition number_part :: "char \<Rightarrow> bool" where
  "number_part c \<longleftrightarrow> is_number_char c \<or> c = CHR ''.''"

definition localise :: "'d c_lib \<Rightarrow> string \<Rightarrow> string" where
  "localise C s = concat (map (\<lambda>c. if c = CHR ''.'' then cl_point C else [c]) s)"

text \<open>What may follow a number without being read as part of it.\<close>

definition follow :: "string \<Rightarrow> bool" where
  "follow t \<longleftrightarrow> t = [] \<or> \<not> number_part (hd t)"

lemma dot_no_number_char: "\<not> is_number_char (CHR ''.'')"
  by code_simp

lemma parse_number_reads:
  "list_all number_part s \<Longrightarrow> follow t \<Longrightarrow> rem i = s @ t \<Longrightarrow>
     \<exists>j. parse_number C num i = (num @ localise C s, j) \<and> rem j = t"
proof (induction s arbitrary: i num)
  case Nil
  then show ?case
  proof (cases t)
    case Nil
    then obtain j where "getc i = (None, j)" "rem (ungetc j) = []" using Nil.prems getc_Nil [of i] by auto
    then show ?thesis using Nil by (auto simp: parse_number.simps [of C num i] localise_def)
  next
    case (Cons c u)
    then obtain j where "getc i = (Some c, j)" "rem (ungetc j) = t" using Nil.prems getc_Cons [of i c u] by auto
    then show ?thesis using Nil Cons
      by (auto simp: parse_number.simps [of C num i] localise_def follow_def number_part_def)
  qed
next
  case (Cons c s)
  obtain j where j: "getc i = (Some c, j)" "rem j = s @ t" using Cons.prems getc_Cons [of i c "s @ t"] by auto
  let ?x = "if c = CHR ''.'' then cl_point C else [c]"
  obtain k where "parse_number C (num @ ?x) j = ((num @ ?x) @ localise C s, k)" "rem k = t"
    using Cons.IH [of j "num @ ?x"] Cons.prems j by auto
  then show ?case using j Cons.prems dot_no_number_char
    by (auto simp: parse_number.simps [of C num i] localise_def number_part_def split: if_splits)
qed

section \<open>White space and strings\<close>

text \<open>What is left to read behind white space.\<close>

definition lead :: "input \<Rightarrow> string" where
  "lead i = dropWhile is_ws (rem i)"

lemma skip_ws_lead: "rem (skip_ws i) = lead i"
proof (induction i rule: skip_ws.induct)
  case (1 i)
  obtain c j where g: "getc i = (c, j)" by fastforce
  show ?case
  proof (cases c)
    case None
    then show ?thesis using g getc_None [of i j] by (subst skip_ws.simps) (simp add: lead_def)
  next
    case (Some d)
    then have "is_ws d \<Longrightarrow> rem (skip_ws j) = lead j" using 1 g by auto
    then show ?thesis using Some g getc_Some [of i d j] by (subst skip_ws.simps) (auto simp: lead_def)
  qed
qed

lemma lead_head: "lead i = c # s \<Longrightarrow> \<not> is_ws c"
  using hd_dropWhile [of is_ws "rem i"] by (auto simp: lead_def)

lemma lead_reads:
  assumes "lead i = c # u"
  obtains j where "getc (skip_ws i) = (Some c, j)" "rem j = u" "rem (ungetc j) = c # u"
  using getc_Cons [of "skip_ws i" c u] assms skip_ws_lead [of i] by auto

lemma expect_yes: "lead i = c # s \<Longrightarrow> \<exists>j. expect c i = (True, j) \<and> rem j = s"
  by (rule lead_reads) (auto simp: expect_def)

lemma expect_no:
  assumes "lead i = d # s" "d \<noteq> c"
  shows "\<exists>j. expect c i = (False, j) \<and> lead j = d # s"
proof -
  obtain j where "getc (skip_ws i) = (Some d, j)" "rem (ungetc j) = d # s" by (rule lead_reads [OF assms(1)])
  then show ?thesis using assms(2) lead_head [OF assms(1)] by (auto simp: expect_def lead_def)
qed

lemma hex_value_digit: "n < 16 \<Longrightarrow> hex_value (hex_digit n) = Some n"
  by (auto simp: hex_value_def hex_digit_def Let_def)

lemma quadhex_reads:
  assumes "a < 16" "b < 16" "rem i = CHR ''0'' # CHR ''0'' # hex_digit a # hex_digit b # t"
  shows "\<exists>j. parse_quadhex i = (Some (a * 16 + b), j) \<and> rem j = t"
proof -
  have zero: "hex_value (CHR ''0'') = Some 0" by code_simp
  obtain i1 where 1: "getc i = (Some (CHR ''0''), i1)" "rem i1 = CHR ''0'' # hex_digit a # hex_digit b # t"
    using getc_Cons [OF assms(3)] by auto
  obtain i2 where 2: "getc i1 = (Some (CHR ''0''), i2)" "rem i2 = hex_digit a # hex_digit b # t"
    using getc_Cons [OF 1(2)] by auto
  obtain i3 where 3: "getc i2 = (Some (hex_digit a), i3)" "rem i3 = hex_digit b # t" using getc_Cons [OF 2(2)] by auto
  obtain i4 where 4: "getc i3 = (Some (hex_digit b), i4)" "rem i4 = t" using getc_Cons [OF 3(2)] by auto
  show ?thesis using 1 2 3 4 zero hex_value_digit assms(1,2)
    by (simp add: parse_quadhex_def eval_nat_numeral)
qed

lemma serialize_char_cases:
  obtains (escape) e where "serialize_char c = [CHR 0x5C, e]" "e \<noteq> CHR ''u''" "unescape e = Some c"
  | (code) a b where "serialize_char c = [CHR 0x5C, CHR ''u'', CHR ''0'', CHR ''0'', hex_digit a, hex_digit b]"
      "a < 16" "b < 16" "a * 16 + b < 128" "char_of (a * 16 + b) = c"
  | (plain) "serialize_char c = [c]" "\<not> c < CHR '' ''" "c \<noteq> CHR 0x22" "c \<noteq> CHR 0x5C"
proof -
  let ?n = "of_char c :: nat"
  let ?special = "[CHR 0x22, CHR 0x5C, CHR ''/'', CHR 0x08, CHR 0x0C, CHR 0x0A, CHR 0x0D, CHR 0x09]"
  have esc: "\<forall>d \<in> set ?special. length (serialize_char d) = 2 \<and> serialize_char d ! 0 = CHR 0x5C \<and>
      serialize_char d ! 1 \<noteq> CHR ''u'' \<and> unescape (serialize_char d ! 1) = Some d"
    by code_simp
  show ?thesis
  proof (cases "c \<in> set ?special")
    case True
    note s = bspec [OF esc True]
    have "serialize_char c = [CHR 0x5C, serialize_char c ! 1]"
      using s by (cases "serialize_char c"; cases "tl (serialize_char c)") (simp_all add: eval_nat_numeral)
    then show ?thesis using escape s by blast
  next
    case False
    then have ser: "serialize_char c = (if ?n < 0x20 \<or> ?n = 0x7F
        then [CHR 0x5C, CHR ''u'', CHR ''0'', CHR ''0'', hex_digit (?n div 16), hex_digit (?n mod 16)] else [c])"
      by (simp add: serialize_char_def Let_def)
    show ?thesis
    proof (cases "?n < 0x20 \<or> ?n = 0x7F")
      case True
      have "?n div 16 * 16 + ?n mod 16 = ?n" by simp
      then show ?thesis using code [of "?n div 16" "?n mod 16"] ser True by auto
    next
      case notctl: False
      have "\<not> c < CHR '' ''" using notctl by (simp add: less_char_def)
      then show ?thesis using plain ser notctl False by auto
    qed
  qed
qed

lemma parse_string_reads:
  "rem i = concat (map serialize_char s) @ CHR 0x22 # t \<Longrightarrow> \<exists>j. parse_string out i = (Some (out @ s), j) \<and> rem j = t"
proof (induction s arbitrary: i out)
  case Nil
  then obtain j where "getc i = (Some (CHR 0x22), j)" "rem j = t" using getc_Cons [of i "CHR 0x22" t] by auto
  moreover have "\<not> CHR 0x22 < CHR '' ''" by code_simp
  ultimately show ?case by (simp add: parse_string.simps [of out i])
next
  case (Cons c s)
  let ?rest = "concat (map serialize_char s) @ CHR 0x22 # t"
  have bs: "\<not> CHR 0x5C < CHR '' ''" by code_simp
  have rec_read: "\<exists>j. parse_string (out @ [c]) k = (Some (out @ c # s), j) \<and> rem j = t" if "rem k = ?rest" for k
    using Cons.IH [OF that, of "out @ [c]"] by simp
  show ?case
  proof (cases c rule: serialize_char_cases)
    case (escape e)
    then obtain k where k: "getc i = (Some (CHR 0x5C), k)" "rem k = e # ?rest"
      using getc_Cons [of i "CHR 0x5C" "e # ?rest"] Cons.prems by auto
    obtain l where "getc k = (Some e, l)" "rem l = ?rest" using getc_Cons [OF k(2)] by auto
    then show ?thesis using k escape bs rec_read [of l] by (simp add: parse_string.simps [of out i])
  next
    case (code a b)
    let ?hex = "CHR ''0'' # CHR ''0'' # hex_digit a # hex_digit b # ?rest"
    obtain k where k: "getc i = (Some (CHR 0x5C), k)" "rem k = CHR ''u'' # ?hex"
      using code getc_Cons [of i "CHR 0x5C" "CHR ''u'' # ?hex"] Cons.prems by auto
    obtain l where l: "getc k = (Some (CHR ''u''), l)" "rem l = ?hex" using getc_Cons [OF k(2)] by auto
    obtain q where q: "parse_quadhex l = (Some (a * 16 + b), q)" "rem q = ?rest"
      using quadhex_reads [OF code(2,3) l(2)] by auto
    have "parse_codepoint l = (Some [c], q)"
      using q code(4,5) by (simp add: parse_codepoint_def utf8_def)
    then show ?thesis using k l q bs rec_read [of q] by (simp add: parse_string.simps [of out i])
  next
    case plain
    then obtain k where "getc i = (Some c, k)" "rem k = ?rest" using getc_Cons [of i c ?rest] Cons.prems by auto
    then show ?thesis using plain rec_read [of k] by (simp add: parse_string.simps [of out i])
  qed
qed

section \<open>Values that can be read back\<close>

text \<open>
  A floating point number whose text is a number for the parser, no integer, and reads as
  itself; an object has distinct keys in order, as a map has.
\<close>

definition number_ok :: "'d c_lib \<Rightarrow> 'd \<Rightarrow> bool" where
  "number_ok C d \<longleftrightarrow>
     (let s = number_text C d; t = localise C s in
      s \<noteq> [] \<and> (is_digit (hd s) \<or> hd s = CHR ''-'') \<and> list_all number_part s \<and> t \<noteq> [] \<and>
      strtoimax_whole t = None \<and> cl_strtod C t = (d, length t) \<and> cl_finite C d)"

fun json_ok :: "'d c_lib \<Rightarrow> 'd json \<Rightarrow> bool" where
  "json_ok C (J_number d) = number_ok C d"
| "json_ok C (J_array vs) = (\<forall>v \<in> set vs. json_ok C v)"
| "json_ok C (J_object kvs) = (sorted_wrt (<) (map fst kvs) \<and> (\<forall>kv \<in> set kvs. json_ok C (snd kv)))"
| "json_ok C _ = True"

lemma obj_insert_last: "\<forall>l \<in> fst ` set kvs. l < k \<Longrightarrow> obj_insert k v kvs = kvs @ [(k, v)]"
  by (induction k v kvs rule: obj_insert.induct) (auto dest: less_not_sym)

lemma ws_breaks: "list_all is_ws (line_break ind)" "list_all is_ws (end_break ind)"
proof -
  have "is_ws (CHR '' '')" "is_ws (CHR 0x0A)" by code_simp+
  then show "list_all is_ws (line_break ind)" "list_all is_ws (end_break ind)"
    by (auto simp: line_break_def indent_text_def end_break_def list_all_iff)
qed

lemma follow_ws: "list_all is_ws ws \<Longrightarrow> follow t \<Longrightarrow> follow (ws @ t)"
proof -
  have "\<not> number_part (CHR '' '')" "\<not> number_part (CHR 0x09)" "\<not> number_part (CHR 0x0A)" "\<not> number_part (CHR 0x0D)"
    by code_simp+
  then show "list_all is_ws ws \<Longrightarrow> follow t \<Longrightarrow> follow (ws @ t)"
    by (cases ws) (auto simp: follow_def is_ws_def)
qed

text \<open>The first character decides what is read.\<close>

definition starts_value :: "char \<Rightarrow> bool" where
  "starts_value c \<longleftrightarrow> c \<in> {CHR ''n'', CHR ''t'', CHR ''f'', CHR 0x22, CHR ''['', CHR ''{'', CHR ''-''} \<or> is_digit c"

lemma digit_other: "is_digit c \<Longrightarrow> c \<notin> {CHR ''n'', CHR ''f'', CHR ''t'', CHR 0x22, CHR ''['', CHR ''{'', CHR '']'', CHR ''}'', CHR '' '', CHR 0x09, CHR 0x0A, CHR 0x0D}"
proof -
  have "list_all (\<lambda>c. \<not> is_digit c)
      [CHR ''n'', CHR ''f'', CHR ''t'', CHR 0x22, CHR ''['', CHR ''{'', CHR '']'', CHR ''}'', CHR '' '', CHR 0x09, CHR 0x0A, CHR 0x0D]"
    by code_simp
  then show "is_digit c \<Longrightarrow> c \<notin> {CHR ''n'', CHR ''f'', CHR ''t'', CHR 0x22, CHR ''['', CHR ''{'', CHR '']'', CHR ''}'', CHR '' '', CHR 0x09, CHR 0x0A, CHR 0x0D}"
    by auto
qed

lemma starts_value_char:
  assumes "starts_value c"
  shows "\<not> is_ws c \<and> c \<noteq> CHR '']'' \<and> c \<noteq> CHR ''}''"
proof (cases "is_digit c")
  case True
  then show ?thesis using digit_other by (auto simp: is_ws_def)
next
  case False
  have "list_all (\<lambda>c. \<not> is_ws c \<and> c \<noteq> CHR '']'' \<and> c \<noteq> CHR ''}'')
      [CHR ''n'', CHR ''t'', CHR ''f'', CHR 0x22, CHR ''['', CHR ''{'', CHR ''-'']" by code_simp
  then show ?thesis using assms False by (auto simp: starts_value_def)
qed

lemma dec_int_head: "\<exists>c s. dec_int n = c # s \<and> (is_digit c \<or> c = CHR ''-'')"
  using dec_nat_digits [of "nat n"] by (cases "dec_nat (nat n)") (auto simp: dec_int_def)

lemma serialize_head: "json_ok C v \<Longrightarrow> \<exists>c s. serialize C ind v = c # s \<and> starts_value c"
proof (cases v)
  case (J_number d)
  assume "json_ok C v"
  then have "number_text C d \<noteq> []" "is_digit (hd (number_text C d)) \<or> hd (number_text C d) = CHR ''-''"
    using J_number by (auto simp: number_ok_def Let_def)
  then show ?thesis using J_number by (cases "number_text C d") (auto simp: starts_value_def)
next
  case (J_int i)
  then show ?thesis using dec_int_head [of "sint i"] by (auto simp: starts_value_def)
qed (auto simp: starts_value_def serialize_str_def)

lemma dec_int_parts: "list_all number_part (dec_int n)" "localise C (dec_int n) = dec_int n"
proof -
  have nd: "list_all is_digit (dec_nat m)" for m using dec_nat_digits by blast
  have "list_all (\<lambda>c. number_part c \<and> c \<noteq> CHR ''.'') (dec_nat m)" for m
    using nd [of m] not_sign_digit by (auto simp: list_all_iff number_part_def is_number_char_def)
  then have "list_all (\<lambda>c. number_part c \<and> c \<noteq> CHR ''.'') (dec_int n)"
    by (auto simp: dec_int_def number_part_def is_number_char_def)
  then show "list_all number_part (dec_int n)" "localise C (dec_int n) = dec_int n"
    by (auto simp: list_all_iff localise_def map_idI cong: map_cong)
qed

section \<open>Reading back\<close>

lemma parse_number_value:
  assumes "lead i = s @ t" "s \<noteq> []" "is_digit (hd s) \<or> hd s = CHR ''-''" "list_all number_part s" "follow t"
  shows "\<exists>j. parse_value C (Suc n) i = finish_number C (localise C s) j \<and> rem j = t"
proof -
  obtain c u where s: "s = c # u" using assms(2) by (cases s) auto
  have c: "is_digit c \<or> c = CHR ''-''" using assms(3) s by simp
  obtain j where j: "getc (skip_ws i) = (Some c, j)" "rem (ungetc j) = s @ t"
    using assms(1) s by (auto elim: lead_reads [of i c "u @ t"])
  obtain k where k: "parse_number C [] (ungetc j) = (localise C s, k)" "rem k = t"
    using parse_number_reads [OF assms(4,5) j(2), of C "[]"] by auto
  have "c \<noteq> CHR ''n'' \<and> c \<noteq> CHR ''f'' \<and> c \<noteq> CHR ''t'' \<and> c \<noteq> CHR 0x22 \<and> c \<noteq> CHR ''['' \<and> c \<noteq> CHR ''{''"
    using c digit_other by auto
  then have "parse_value C (Suc n) i = finish_number C (localise C s) k" using j k c by simp
  then show ?thesis using k by blast
qed

lemma match_text_reads: "rem i = w @ t \<Longrightarrow> \<exists>j. match_text w i = (True, j) \<and> rem j = t"
proof (induction w arbitrary: i)
  case (Cons p w)
  then obtain j where "getc i = (Some p, j)" "rem j = w @ t" using getc_Cons [of i p "w @ t"] by auto
  then show ?case using Cons.IH by auto
qed auto

lemma parse_word_value:
  assumes "lead i = c # w @ t"
    and "c = CHR ''n'' \<and> w = ''ull'' \<and> v = J_null \<or> c = CHR ''t'' \<and> w = ''rue'' \<and> v = J_bool True \<or>
      c = CHR ''f'' \<and> w = ''alse'' \<and> v = J_bool False"
  shows "\<exists>j. parse_value C (Suc n) i = P_ok v j \<and> rem j = t"
proof -
  obtain j where j: "getc (skip_ws i) = (Some c, j)" "rem j = w @ t" by (rule lead_reads [OF assms(1)])
  obtain k where k: "match_text w j = (True, k)" "rem k = t" using match_text_reads [OF j(2)] by auto
  have "parse_value C (Suc n) i = parse_word w v j" using assms(2) j(1) by (elim disjE) simp_all
  then show ?thesis using k by (simp add: parse_word_def)
qed

lemma parse_string_value:
  assumes "lead i = serialize_str s @ t"
  shows "\<exists>j. parse_value C (Suc n) i = P_ok (J_string s) j \<and> rem j = t"
proof -
  obtain j where j: "getc (skip_ws i) = (Some (CHR 0x22), j)" "rem j = concat (map serialize_char s) @ CHR 0x22 # t"
    using assms by (auto simp: serialize_str_def elim: lead_reads)
  then show ?thesis using parse_string_reads [OF j(2), of "[]"] by auto
qed

lemma dropWhile_ws: "list_all is_ws ws \<Longrightarrow> dropWhile is_ws (ws @ s) = dropWhile is_ws s"
  by (induction ws) auto

lemma lead_ws: "list_all is_ws ws \<Longrightarrow> rem i = ws @ s \<Longrightarrow> lead i = dropWhile is_ws s"
  by (simp add: lead_def dropWhile_ws)

lemma dropWhile_serialize: "json_ok C v \<Longrightarrow> dropWhile is_ws (serialize C ind v @ t) = serialize C ind v @ t"
  using serialize_head [of C v ind] starts_value_char by fastforce

lemma dropWhile_quote: "dropWhile is_ws (serialize_str k @ t) = serialize_str k @ t"
proof -
  have "\<not> is_ws (CHR 0x22)" by code_simp
  then show ?thesis by (simp add: serialize_str_def)
qed

lemma punctuation:
  "\<not> is_ws (CHR '','')" "\<not> is_ws (CHR '']'')" "\<not> is_ws (CHR ''}'')" "\<not> is_ws (CHR '':'')"
  "\<not> number_part (CHR '','')" "\<not> number_part (CHR '']'')" "\<not> number_part (CHR ''}'')"
  by code_simp+

text \<open>One item or member, and what follows it.\<close>

lemma separator_reads:
  assumes "rem j = ws @ d # s" "list_all is_ws ws" "d = CHR '','' \<or> d = CHR '']'' \<or> d = CHR ''}''"
  shows "lead j = d # s"
  using lead_ws [OF assms(2,1)] assms(3) punctuation by auto

lemma length_lead: "length (lead i) \<le> length (rem i)"
  by (simp add: lead_def length_dropWhile_le)

lemma item_step:
  assumes v: "\<And>i t n. follow t \<Longrightarrow> lead i = serialize C ind v @ t \<Longrightarrow> 2 * length (lead i) + 1 \<le> n \<Longrightarrow>
      \<exists>j. parse_value C n i = P_ok v j \<and> rem j = end_break ind @ t"
    and "lead i = serialize C ind v @ ws @ d # s" "list_all is_ws ws" "d = CHR '','' \<or> d = CHR '']'' \<or> d = CHR ''}''"
    "2 * length (lead i) + 1 \<le> n"
  obtains j where "parse_value C n i = P_ok v j" "lead j = d # s"
proof -
  have "follow (ws @ d # s)" using assms(3,4) punctuation by (intro follow_ws) (auto simp: follow_def)
  then obtain j where j: "parse_value C n i = P_ok v j" "rem j = end_break ind @ ws @ d # s"
    using v [of "ws @ d # s" i n] assms(2,5) by auto
  have "lead j = d # s"
    by (rule separator_reads [of j "end_break ind @ ws"]) (use j assms(3,4) ws_breaks in simp_all)
  then show ?thesis using that j by blast
qed

lemma key_step:
  assumes "lead i = serialize_str k @ CHR '':'' # u"
  obtains i1 i2 i3 where "expect (CHR 0x22) i = (True, i1)" "parse_string [] i1 = (Some k, i2)"
    "expect (CHR '':'') i2 = (True, i3)" "rem i3 = u"
proof -
  obtain i1 where 1: "expect (CHR 0x22) i = (True, i1)" "rem i1 = concat (map serialize_char k) @ CHR 0x22 # CHR '':'' # u"
    using expect_yes [of i "CHR 0x22"] assms by (auto simp: serialize_str_def)
  obtain i2 where 2: "parse_string [] i1 = (Some k, i2)" "rem i2 = CHR '':'' # u"
    using parse_string_reads [OF 1(2), of "[]"] by auto
  have "lead i2 = CHR '':'' # u" using 2 punctuation by (simp add: lead_def)
  then show ?thesis using expect_yes that 1 2 by blast
qed

lemma members_text:
  "dropWhile is_ws (serialize_members C ind ((k, v) # kvs) @ X) =
     serialize_str k @ CHR '':'' # (if ind \<noteq> -1 then '' '' else []) @ serialize C ind v
     @ (case kvs of [] \<Rightarrow> X | _ \<Rightarrow> '','' @ serialize_members C ind kvs @ X)"
  by (cases kvs) (simp_all add: dropWhile_ws ws_breaks dropWhile_quote)

lemma items_text:
  "json_ok C v \<Longrightarrow> dropWhile is_ws (serialize_items C ind (v # vs) @ X) =
     serialize C ind v @ (case vs of [] \<Rightarrow> X | _ \<Rightarrow> '','' @ serialize_items C ind vs @ X)"
  by (cases vs) (simp_all add: dropWhile_ws ws_breaks dropWhile_serialize)

lemma open_step:
  assumes "lead i = b # w" "dropWhile is_ws w = c # u" "c \<noteq> d"
  obtains j k where "getc (skip_ws i) = (Some b, j)" "expect d j = (False, k)" "lead k = c # u"
proof -
  obtain j where j: "getc (skip_ws i) = (Some b, j)" "rem j = w" by (rule lead_reads [OF assms(1)])
  then have "lead j = c # u" using assms(2) by (simp add: lead_def)
  then show ?thesis using expect_no [of j c u d] assms(3) j that by blast
qed

lemma blank_ws: "list_all is_ws (if ind \<noteq> -1 then '' '' else [])"
  by (simp add: is_ws_def)

lemma serialize_reads:
  "json_ok C v \<Longrightarrow> follow t \<Longrightarrow> lead i = serialize C ind v @ t \<Longrightarrow> 2 * length (lead i) + 1 \<le> n \<Longrightarrow>
     \<exists>j. parse_value C n i = P_ok v j \<and> rem j = end_break ind @ t"
  "vs \<noteq> [] \<Longrightarrow> \<forall>v \<in> set vs. json_ok C v \<Longrightarrow> list_all is_ws ws \<Longrightarrow>
     lead i = dropWhile is_ws (serialize_items C ind vs @ ws @ CHR '']'' # t) \<Longrightarrow> 2 * length (lead i) + 2 \<le> n \<Longrightarrow>
     \<exists>j. parse_items C n acc i = P_ok (J_array (acc @ vs)) j \<and> rem j = t"
  "kvs \<noteq> [] \<Longrightarrow> \<forall>kv \<in> set kvs. json_ok C (snd kv) \<Longrightarrow> sorted_wrt (<) (map fst (oacc @ kvs)) \<Longrightarrow> list_all is_ws ws \<Longrightarrow>
     lead i = dropWhile is_ws (serialize_members C ind kvs @ ws @ CHR ''}'' # t) \<Longrightarrow> 2 * length (lead i) + 2 \<le> n \<Longrightarrow>
     \<exists>j. parse_members C n oacc i = P_ok (J_object (oacc @ kvs)) j \<and> rem j = t"
proof (induction C ind v and C ind vs and C ind kvs arbitrary: i t n and i t n ws acc and i t n ws oacc
    rule: serialize_serialize_items_serialize_members.induct)
  case (1 C ind s)
  then obtain m where "n = Suc m" by (cases n) auto
  then show ?case using parse_string_value [of i s "end_break ind @ t" C m] 1 by simp
next
  case (2 C ind vs)
  then obtain m where m: "n = Suc m" by (cases n) auto
  show ?case
  proof (cases vs)
    case Nil
    then have "lead i = CHR ''['' # CHR '']'' # end_break ind @ t" using 2 by simp
    then obtain j where j: "getc (skip_ws i) = (Some (CHR ''[''), j)" "rem j = CHR '']'' # end_break ind @ t"
      by (rule lead_reads)
    then have "lead j = CHR '']'' # end_break ind @ t" using punctuation by (simp add: lead_def)
    then obtain k where "expect (CHR '']'') j = (True, k)" "rem k = end_break ind @ t" using expect_yes by blast
    then show ?thesis using j m Nil by simp
  next
    case (Cons v us)
    let ?w = "serialize_items C (deeper ind) vs @ line_break ind @ CHR '']'' # end_break ind @ t"
    have ok: "json_ok C v" using 2 Cons by simp
    obtain c u where cu: "dropWhile is_ws ?w = c # u" "starts_value c"
      using serialize_head [OF ok, of "deeper ind"] items_text [OF ok, of "deeper ind" us] Cons by auto
    have i: "lead i = CHR ''['' # ?w" using 2 Cons by simp
    obtain j k where jk: "getc (skip_ws i) = (Some (CHR ''[''), j)" "expect (CHR '']'') j = (False, k)" "lead k = c # u"
      using open_step [OF i cu(1), of "CHR '']''"] starts_value_char [OF cu(2)] by blast
    have "length (c # u) \<le> length ?w" using length_dropWhile_le [of is_ws ?w] cu by simp
    then have "\<exists>l. parse_items C m [] k = P_ok (J_array ([] @ vs)) l \<and> rem l = end_break ind @ t"
      using 2 i cu jk m Cons by (intro 2(1) [where ws = "line_break ind"]) (simp_all add: ws_breaks)
    then show ?thesis using jk m by auto
  qed
next
  case (3 C ind kvs)
  then obtain m where m: "n = Suc m" by (cases n) auto
  show ?case
  proof (cases kvs)
    case Nil
    then have "lead i = CHR ''{'' # CHR ''}'' # end_break ind @ t" using 3 by simp
    then obtain j where j: "getc (skip_ws i) = (Some (CHR ''{''), j)" "rem j = CHR ''}'' # end_break ind @ t"
      by (rule lead_reads)
    then have "lead j = CHR ''}'' # end_break ind @ t" using punctuation by (simp add: lead_def)
    then obtain k where "expect (CHR ''}'') j = (True, k)" "rem k = end_break ind @ t" using expect_yes by blast
    then show ?thesis using j m Nil by simp
  next
    case (Cons kv us)
    let ?w = "serialize_members C (deeper ind) kvs @ line_break ind @ CHR ''}'' # end_break ind @ t"
    obtain c u where cu: "dropWhile is_ws ?w = c # u" "c = CHR 0x22"
      using members_text [of C "deeper ind" "fst kv" "snd kv" us] Cons by (auto simp: serialize_str_def)
    have i: "lead i = CHR ''{'' # ?w" using 3 Cons by simp
    obtain j k where jk: "getc (skip_ws i) = (Some (CHR ''{''), j)" "expect (CHR ''}'') j = (False, k)" "lead k = c # u"
      using open_step [OF i cu(1), of "CHR ''}''"] cu(2) by auto
    have "length (c # u) \<le> length ?w" using length_dropWhile_le [of is_ws ?w] cu by simp
    then have "\<exists>l. parse_members C m [] k = P_ok (J_object ([] @ kvs)) l \<and> rem l = end_break ind @ t"
      using 3 i cu jk m Cons by (intro 3(1) [where ws = "line_break ind"]) (simp_all add: ws_breaks)
    then show ?thesis using jk m by auto
  qed
next
  case (4 C ind)
  then obtain m where "n = Suc m" by (cases n) auto
  then show ?case using parse_word_value [of i "CHR ''n''" "''ull''" "end_break ind @ t" J_null C m] 4 by simp
next
  case (5 C ind b)
  then obtain m where "n = Suc m" by (cases n) auto
  then show ?case
    using parse_word_value [of i "CHR ''t''" "''rue''" "end_break ind @ t" "J_bool True" C m]
      parse_word_value [of i "CHR ''f''" "''alse''" "end_break ind @ t" "J_bool False" C m] 5 by (cases b) simp_all
next
  case (6 C ind d)
  then obtain m where m: "n = Suc m" by (cases n) auto
  let ?s = "number_text C d"
  have ok: "number_ok C d" using 6 by simp
  have "\<exists>j. parse_value C (Suc m) i = finish_number C (localise C ?s) j \<and> rem j = end_break ind @ t"
    by (rule parse_number_value) (use ok 6 ws_breaks follow_ws in \<open>auto simp: number_ok_def Let_def\<close>)
  then obtain j where j: "parse_value C n i = finish_number C (localise C ?s) j" "rem j = end_break ind @ t"
    unfolding m by blast
  have "finish_number C (localise C ?s) j = P_ok (J_number d) j"
    using ok by (simp add: number_ok_def Let_def finish_number_def number_value_def)
  then show ?case using j by simp
next
  case (7 C ind z)
  then obtain m where m: "n = Suc m" by (cases n) auto
  obtain c s where h: "dec_int (sint z) = c # s" "is_digit c \<or> c = CHR ''-''" using dec_int_head by blast
  have "\<exists>j. parse_value C (Suc m) i = finish_number C (localise C (dec_int (sint z))) j \<and> rem j = end_break ind @ t"
  proof (rule parse_number_value)
    show "lead i = dec_int (sint z) @ end_break ind @ t" using 7 by simp
    show "dec_int (sint z) \<noteq> []" "is_digit (hd (dec_int (sint z))) \<or> hd (dec_int (sint z)) = CHR ''-''" using h by simp_all
  qed (use 7 ws_breaks follow_ws dec_int_parts(1) in simp_all)
  then obtain j where j: "parse_value C n i = finish_number C (localise C (dec_int (sint z))) j" "rem j = end_break ind @ t"
    unfolding m by blast
  have "strtoimax_whole (dec_int (sint z)) = Some (sint z)"
    using sint_greater_eq [of z] sint_less [of z] by (intro strtoimax_dec_int) simp_all
  moreover have "dec_int (sint z) \<noteq> []" using h by simp
  ultimately have "finish_number C (localise C (dec_int (sint z))) j = P_ok (J_int z) j"
    by (simp add: dec_int_parts(2) finish_number_def)
  then show ?case using j by simp
next
  case (9 C ind v)
  obtain m where m: "n = Suc m" using 9 by (cases n) auto
  have lead: "lead i = serialize C ind v @ ws @ CHR '']'' # t"
    using 9 items_text [of C v ind "[]"] by simp
  obtain j where j: "parse_value C m i = P_ok v j" "lead j = CHR '']'' # t"
    by (rule item_step [of C ind v i ws "CHR '']''" t m]) (use 9 m lead in auto)
  obtain k where k: "expect (CHR '','') j = (False, k)" "lead k = CHR '']'' # t"
    using expect_no [OF j(2), of "CHR '',''"] by auto
  show ?case using expect_yes [OF k(2)] j k m by auto
next
  case (10 C ind v u vs)
  obtain m where m: "n = Suc m" using 10 by (cases n) auto
  let ?w = "serialize_items C ind (u # vs) @ ws @ CHR '']'' # t"
  have lead: "lead i = serialize C ind v @ [] @ CHR '','' # ?w"
    using 10 items_text [of C v ind "u # vs"] by simp
  obtain j where j: "parse_value C m i = P_ok v j" "lead j = CHR '','' # ?w"
    by (rule item_step [of C ind v i "[]" "CHR '',''" ?w m]) (use 10 m lead in auto)
  obtain k where k: "expect (CHR '','') j = (True, k)" "rem k = ?w" using expect_yes [OF j(2)] by auto
  have "\<exists>l. parse_items C m (acc @ [v]) k = P_ok (J_array ((acc @ [v]) @ u # vs)) l \<and> rem l = t"
    using 10 m lead k length_lead [of k] by (intro 10(2) [where ws = ws]) (simp_all add: lead_def)
  then show ?case using j k m by auto
next
  case (12 C ind k v)
  obtain m where m: "n = Suc m" using 12 by (cases n) auto
  let ?w = "serialize C ind v @ ws @ CHR ''}'' # t"
  have lead: "lead i = serialize_str k @ CHR '':'' # (if ind \<noteq> -1 then '' '' else []) @ ?w"
    using 12 members_text [of C ind k v "[]"] by simp
  obtain i1 i2 i3 where key: "expect (CHR 0x22) i = (True, i1)" "parse_string [] i1 = (Some k, i2)"
    "expect (CHR '':'') i2 = (True, i3)" "rem i3 = (if ind \<noteq> -1 then '' '' else []) @ ?w"
    by (rule key_step [OF lead])
  have lead3: "lead i3 = ?w" using lead_ws [OF blank_ws key(4)] 12 by (simp add: dropWhile_serialize)
  obtain j where j: "parse_value C m i3 = P_ok v j" "lead j = CHR ''}'' # t"
    by (rule item_step [of C ind v i3 ws "CHR ''}''" t m]) (use 12 m lead lead3 in auto)
  obtain l where l: "expect (CHR '','') j = (False, l)" "lead l = CHR ''}'' # t"
    using expect_no [OF j(2), of "CHR '',''"] by auto
  obtain q where q: "expect (CHR ''}'') l = (True, q)" "rem q = t" using expect_yes [OF l(2)] by auto
  have "obj_insert k v oacc = oacc @ [(k, v)]" using 12 by (intro obj_insert_last) (auto simp: sorted_wrt_append)
  then show ?case using key j l q m by simp
next
  case (13 C ind k v kv kvs)
  obtain m where m: "n = Suc m" using 13 by (cases n) auto
  let ?x = "serialize_members C ind (kv # kvs) @ ws @ CHR ''}'' # t"
  let ?w = "serialize C ind v @ [] @ CHR '','' # ?x"
  have lead: "lead i = serialize_str k @ CHR '':'' # (if ind \<noteq> -1 then '' '' else []) @ ?w"
    using 13 members_text [of C ind k v "kv # kvs"] by simp
  obtain i1 i2 i3 where key: "expect (CHR 0x22) i = (True, i1)" "parse_string [] i1 = (Some k, i2)"
    "expect (CHR '':'') i2 = (True, i3)" "rem i3 = (if ind \<noteq> -1 then '' '' else []) @ ?w"
    by (rule key_step [OF lead])
  have lead3: "lead i3 = ?w" using lead_ws [OF blank_ws key(4)] 13 by (simp add: dropWhile_serialize)
  obtain j where j: "parse_value C m i3 = P_ok v j" "lead j = CHR '','' # ?x"
    by (rule item_step [of C ind v i3 "[]" "CHR '',''" ?x m]) (use 13 m lead lead3 in auto)
  obtain l where l: "expect (CHR '','') j = (True, l)" "rem l = ?x" using expect_yes [OF j(2)] by auto
  have ins: "obj_insert k v oacc = oacc @ [(k, v)]" using 13 by (intro obj_insert_last) (auto simp: sorted_wrt_append)
  have "\<exists>q. parse_members C m (oacc @ [(k, v)]) l = P_ok (J_object ((oacc @ [(k, v)]) @ kv # kvs)) q \<and> rem q = t"
    using 13 m lead l length_lead [of l] by (intro 13(2) [where ws = ws]) (simp_all add: lead_def)
  then show ?case using key j l m ins by simp
qed simp_all

section \<open>Properties\<close>

lemma parse_serialized:
  assumes "json_ok C v" "follow t"
  shows "parse_json C (serialize C ind v @ t) = Inr ([], v)"
proof -
  let ?s = "serialize C ind v @ t"
  have "lead (new_input ?s) = ?s" using dropWhile_serialize [OF assms(1)] by (simp add: lead_def)
  then obtain j where "parse_value C (parse_fuel ?s) (new_input ?s) = P_ok v j"
    using serialize_reads(1) [OF assms, of "new_input ?s" ind "parse_fuel ?s"] by (auto simp: parse_fuel_def)
  then show ?thesis by (simp add: parse_json_def)
qed

text \<open>
  C3. Parsing a serialised value yields the value, compact or with any indentation, whatever
  bytes its strings and keys have. Text behind the value is not looked at, as long as it
  does not continue a number.
\<close>

theorem json_roundtrip:
  assumes "json_ok C v" "follow t"
  shows "parse_json C (serialize C ind v @ t) = Inr ([], v)"
  using assms by (rule parse_serialized)

text \<open>A C library whose floating point numbers are their texts, to evaluate the model on.\<close>

definition text_lib :: "string c_lib" where
  "text_lib = \<lparr>cl_point = ''.'', cl_strtod = \<lambda>s. (s, length s), cl_finite = \<lambda>d. d \<noteq> ''1e999'', cl_whole = \<lambda>_. False,
     cl_format_f = \<lambda>d. d, cl_format_g = \<lambda>d. d, cl_of_int = dec_int, cl_zero = \<lambda>d. d = ''0'', cl_equal = (=)\<rparr>"

definition sample_json :: "string json" where
  "sample_json = J_object [(''a'', J_array [J_null, J_int (-5), J_number ''2.5e3'', J_bool True]),
     (''b'', J_object []), (''tab'', J_string [CHR 0x09, CHR 0x22, CHR 0x1F, CHR 0xE4])]"

lemma text_lib_number_ok: "number_ok text_lib ''2.5e3''"
  by code_simp

lemma sample_json_ok: "json_ok text_lib sample_json"
proof -
  have "sorted_wrt (<) [''a'', ''b'', ''tab'']" by code_simp
  then show ?thesis by (simp add: sample_json_def text_lib_number_ok)
qed

lemma json_roundtrip_witness:
  "parse_json text_lib (serialize text_lib 0 sample_json @ ''# and more'') = Inr ([], sample_json)"
proof (rule json_roundtrip [OF sample_json_ok])
  show "follow ''# and more''" by code_simp
qed

text \<open>Inserting keeps the entries of an object in the order of a map.\<close>

lemma obj_insert_set: "set (obj_insert k v kvs) \<subseteq> insert (k, v) (set kvs)"
  by (induction k v kvs rule: obj_insert.induct) auto

lemma obj_insert_sorted: "sorted_wrt (<) (map fst kvs) \<Longrightarrow> sorted_wrt (<) (map fst (obj_insert k v kvs))"
proof (induction k v kvs rule: obj_insert.induct)
  case (2 k v l u kvs)
  show ?case
  proof (cases "k < l")
    case False
    show ?thesis
    proof (cases "k = l")
      case False
      then have "l < k" using \<open>\<not> k < l\<close> by simp
      then have "\<forall>x \<in> fst ` set (obj_insert k v kvs). l < x"
        using 2(2) obj_insert_set [of k v kvs] by fastforce
      then show ?thesis using 2 \<open>\<not> k < l\<close> False by simp
    qed (use 2 in simp)
  qed (use 2 in \<open>auto intro: less_trans\<close>)
qed simp

text \<open>
  A number that overflows leaves the parser by an exception instead of an error text: the
  constructor of a value rejects what \<^verbatim>\<open>strtod\<close> returned.
\<close>

theorem number_overflow_throws:
  assumes "cl_strtod C ''1e999'' = (d, 5)" "\<not> cl_finite C d"
  shows "parse_json C ''1e999'' = Inl (Std_exception [])"
proof -
  let ?n = "''1e999''"
  have s: "list_all number_part ?n" "is_digit (hd ?n)" "strtoimax_whole ?n = None" "dropWhile is_ws ?n = ?n" by code_simp+
  have "follow []" by (simp add: follow_def)
  moreover have "localise C ?n = ?n" by (simp add: localise_def)
  ultimately obtain j where j: "parse_value C (Suc (2 * length ?n)) (new_input ?n) = finish_number C ?n j"
    using parse_number_value [of "new_input ?n" ?n "[]" C "2 * length ?n"] s by (auto simp: lead_def)
  have "finish_number C ?n j = P_throw (Std_exception [])"
    using assms s(3) by (simp add: finish_number_def number_value_def)
  then show ?thesis using j by (simp add: parse_json_def parse_fuel_def del: parse_value.simps)
qed

lemma number_overflow_throws_witness: "parse_json text_lib ''1e999'' = Inl (Std_exception [])"
  by (rule number_overflow_throws) (simp_all add: text_lib_def)

text \<open>
  A floating point number without a fraction comes back as an integer: its text has no
  mark that would tell them apart.
\<close>

theorem whole_number_becomes_integer:
  assumes "cl_whole C d" "cl_format_f C d = dec_int n" "cl_point C = ''.''" "- (2 ^ 63) \<le> n" "n < 2 ^ 63"
  shows "parse_json C (serialize C (-1) (J_number d)) = Inr ([], J_int (word_of_int n))"
proof -
  have v: "sint (word_of_int n :: 64 word) = n" using assms(4,5) by (simp add: sint_sbintrunc' signed_take_bit_int_eq_self)
  then have "serialize C (-1) (J_number d) = serialize C (-1) (J_int (word_of_int n))"
    using assms(1-3) by (simp add: number_text_def Let_def)
  then show ?thesis
    using parse_serialized [of C "J_int (word_of_int n)" "[]" "-1"] by (simp add: follow_def)
qed

lemma whole_number_becomes_integer_witness:
  "let C = text_lib\<lparr>cl_whole := \<lambda>_. True\<rparr> in
   parse_json C (serialize C (-1) (J_number ''7'')) = Inr ([], J_int (word_of_int 7))"
  unfolding Let_def
proof (rule whole_number_becomes_integer)
  show "cl_format_f (text_lib\<lparr>cl_whole := \<lambda>_. True\<rparr>) ''7'' = dec_int 7" by code_simp
qed (simp_all add: text_lib_def)

end
