(* ===== verification/Json_Rpc.thy ===== *)
theory Json_Rpc imports Json_Roundtrip
begin

text \<open>
  \<^verbatim>\<open>src/util/json_rpc.cpp\<close>: requests arrive as text, alone or in a batch; registered functions
  answer them through a call context, at once or later. The state is that of one message: what
  its response function received, and the array a batch collects its results in.
\<close>

section \<open>Call contexts\<close>

text \<open>
  \<open>ct_slot\<close> tells the two response closures apart: the one of a single call, and the one that
  hands its result to place \<open>i\<close> of a batch. The context object of the application is a number.
\<close>

record 'd ctx =
  ct_request :: "'d object"
  ct_batched :: bool
  ct_prefer_sync :: bool
  ct_context :: "nat option"
  ct_slot :: "nat option"

record ('d, 'u) rpc =
  rp_out :: "string list"
  rp_contexts :: "'d ctx list"
  rp_results :: "(nat \<times> 'd json) list"
  rp_user :: 'u

record ('d, 'u) rpc_env =
  rv_lib :: "'d c_lib"
  rv_handler :: "nat \<Rightarrow> 'd ctx \<Rightarrow> ('d, 'u) rpc act"

type_synonym methods = "string \<Rightarrow> nat option"

definition error_parse :: int where "error_parse = -32700"
definition error_invalid_request :: int where "error_invalid_request = -32600"
definition error_method_not_found :: int where "error_method_not_found = -32601"

definition is_notification :: "'d ctx \<Rightarrow> bool" where
  "is_notification x \<longleftrightarrow> obj_count ''id'' (ct_request x) = 0"

definition get_id :: "'d ctx \<Rightarrow> 'd json" where
  "get_id x =
     (if obj_count ''id'' (ct_request x) \<noteq> 0
      then (case map_of (ct_request x) ''id'' of Some v \<Rightarrow> v | None \<Rightarrow> J_null) else J_null)"

definition get_rpc_params :: "'d ctx \<Rightarrow> 'd json" where
  "get_rpc_params x =
     (if obj_count ''params'' (ct_request x) \<noteq> 0
      then (case map_of (ct_request x) ''params'' of Some v \<Rightarrow> v | None \<Rightarrow> J_null) else J_null)"

text \<open>\<^verbatim>\<open>get_method\<close> is \<^verbatim>\<open>noexcept\<close>: where reading the method throws, the process ends.\<close>

definition get_rpc_method :: "'d ctx \<Rightarrow> (string \<Rightarrow> 'w act) \<Rightarrow> 'w act" where
  "get_rpc_method x f =
     (case ebind (obj_at ''method'' (ct_request x)) get_string of Inl e \<Rightarrow> terminate | Inr m \<Rightarrow> f m)"

section \<open>Responses\<close>

definition emit :: "string \<Rightarrow> ('d, 'u) rpc act" where
  "emit s = modify (\<lambda>w. w\<lparr>rp_out := rp_out w @ [s]\<rparr>)"

definition put_result :: "nat \<Rightarrow> 'd json \<Rightarrow> (nat \<times> 'd json) list \<Rightarrow> (nat \<times> 'd json) list" where
  "put_result i v rs = (i, v) # filter (\<lambda>r. fst r \<noteq> i) rs"

fun collect_results :: "nat \<Rightarrow> 'd ctx list \<Rightarrow> (nat \<times> 'd json) list \<Rightarrow> 'd json list result" where
  "collect_results i [] rs = Inr []"
| "collect_results i (x # xs) rs =
     (if is_notification x then collect_results (Suc i) xs rs
      else ebind (case map_of rs i of None \<Rightarrow> Inl (Std_exception ''map::at'') | Some v \<Rightarrow> Inr v) (\<lambda>v.
           ebind (collect_results (Suc i) xs rs) (\<lambda>vs.
             Inr (if is_object v then v # vs else vs))))"

definition handle_result :: "'d c_lib \<Rightarrow> nat \<Rightarrow> 'd json \<Rightarrow> ('d, 'u) rpc act" where
  "handle_result C i v =
     seq (modify (\<lambda>w. w\<lparr>rp_results := put_result i v (rp_results w)\<rparr>))
         (read_state (\<lambda>w. if length (rp_contexts w) \<le> length (rp_results w)
            then attempt (collect_results 0 (rp_contexts w) (rp_results w)) (\<lambda>vs. emit (serialize C (-1) (J_array vs)))
            else skip))"

definition responsefn :: "'d c_lib \<Rightarrow> 'd ctx \<Rightarrow> 'd json \<Rightarrow> ('d, 'u) rpc act" where
  "responsefn C x v =
     (case ct_slot x of
        None \<Rightarrow> if is_null v then skip else emit (serialize C (-1) v)
      | Some i \<Rightarrow> handle_result C i v)"

definition result_object :: "'d json \<Rightarrow> 'd json \<Rightarrow> 'd json" where
  "result_object i v =
     J_object (obj_insert ''result'' v (obj_insert ''id'' i (obj_insert ''jsonrpc'' (J_string ''2.0'') [])))"

definition respond :: "'d c_lib \<Rightarrow> 'd ctx \<Rightarrow> 'd json \<Rightarrow> ('d, 'u) rpc act" where
  "respond C x v = responsefn C x (if is_notification x then J_null else result_object (get_id x) v)"

definition error_members :: "int \<Rightarrow> string \<Rightarrow> 'd json \<Rightarrow> 'd object" where
  "error_members code msg data =
     (let e = obj_insert ''message'' (J_string msg) (obj_insert ''code'' (J_int (word_of_int code)) [])
      in if is_null data then e else obj_insert ''data'' data e)"

definition error_object :: "'d json \<Rightarrow> int \<Rightarrow> string \<Rightarrow> 'd json \<Rightarrow> 'd json" where
  "error_object i code msg data =
     J_object (obj_insert ''error'' (J_object (error_members code msg data))
       (obj_insert ''id'' i (obj_insert ''jsonrpc'' (J_string ''2.0'') [])))"

definition rpc_error :: "'d c_lib \<Rightarrow> 'd ctx \<Rightarrow> int \<Rightarrow> string \<Rightarrow> 'd json \<Rightarrow> ('d, 'u) rpc act" where
  "rpc_error C x code msg data =
     responsefn C x (if is_notification x then J_null else error_object (get_id x) code msg data)"

section \<open>Messages\<close>

definition register_method :: "string \<Rightarrow> nat \<Rightarrow> methods \<Rightarrow> methods result" where
  "register_method name f M =
     (if M name \<noteq> None then Inl (Std_exception ''function already registered'') else Inr (M(name \<mapsto> f)))"

definition handle_call :: "methods \<Rightarrow> ('d, 'u) rpc_env \<Rightarrow> 'd ctx \<Rightarrow> ('d, 'u) rpc act" where
  "handle_call M E x =
     get_rpc_method x (\<lambda>fn. case M fn of
       None \<Rightarrow> rpc_error (rv_lib E) x error_method_not_found ''Could not find the requested method'' J_null
     | Some h \<Rightarrow> rv_handler E h x)"

text \<open>The answer to a text that is no request has no id.\<close>

definition early_error :: "int \<Rightarrow> string \<Rightarrow> 'd json" where
  "early_error code msg =
     J_object (obj_insert ''jsonrpc'' (J_string ''2.0'')
       (obj_insert ''error'' (J_object (obj_insert ''message'' (J_string msg)
         (obj_insert ''code'' (J_int (word_of_int code)) []))) []))"

definition batch_contexts :: "nat option \<Rightarrow> bool \<Rightarrow> 'd object list \<Rightarrow> 'd ctx list" where
  "batch_contexts cx sync reqs =
     map (\<lambda>(i, r). \<lparr>ct_request = r, ct_batched = True, ct_prefer_sync = sync, ct_context = cx, ct_slot = Some i\<rparr>)
       (enumerate 0 reqs)"

definition handle_batch :: "methods \<Rightarrow> ('d, 'u) rpc_env \<Rightarrow> nat option \<Rightarrow> bool \<Rightarrow> 'd json list \<Rightarrow> ('d, 'u) rpc act" where
  "handle_batch M E cx sync vs =
     attempt (emap get_object vs) (\<lambda>reqs.
       let xs = batch_contexts cx sync reqs in
       seq (modify (\<lambda>w. w\<lparr>rp_contexts := xs, rp_results := []\<rparr>)) (for_each xs (handle_call M E)))"

definition handle_message :: "methods \<Rightarrow> ('d, 'u) rpc_env \<Rightarrow> string \<Rightarrow> nat option \<Rightarrow> bool \<Rightarrow> ('d, 'u) rpc act" where
  "handle_message M E msg cx sync =
     attempt (parse_json (rv_lib E) msg) (\<lambda>(err, v).
       if err \<noteq> [] then emit (serialize (rv_lib E) (-1) (early_error error_parse ''Failed to parse json''))
       else case v of
         J_object req \<Rightarrow> handle_call M E
           \<lparr>ct_request = req, ct_batched = False, ct_prefer_sync = sync, ct_context = cx, ct_slot = None\<rparr>
       | J_array vs \<Rightarrow> handle_batch M E cx sync vs
       | _ \<Rightarrow> emit (serialize (rv_lib E) (-1) (early_error error_invalid_request ''Not a valid request'')))"

section \<open>Functions that answer at once\<close>

text \<open>What a request deserves: the value its function computes, or that there is no such function.\<close>

definition answer :: "methods \<Rightarrow> (nat \<Rightarrow> 'd ctx \<Rightarrow> 'd json) \<Rightarrow> 'd ctx \<Rightarrow> 'd json" where
  "answer M f x =
     (case map_of (ct_request x) ''method'' of
        Some (J_string m) \<Rightarrow>
          (case M m of
             Some h \<Rightarrow> result_object (get_id x) (f h x)
           | None \<Rightarrow> error_object (get_id x) error_method_not_found ''Could not find the requested method'' J_null)
      | _ \<Rightarrow> J_null)"

definition names_method :: "'d object \<Rightarrow> bool" where
  "names_method req \<longleftrightarrow> (\<exists>m. map_of req ''method'' = Some (J_string m))"

definition answers_at_once :: "('d, 'u) rpc_env \<Rightarrow> (nat \<Rightarrow> 'd ctx \<Rightarrow> 'd json) \<Rightarrow> bool" where
  "answers_at_once E f \<longleftrightarrow> (\<forall>h x. rv_handler E h x = respond (rv_lib E) x (f h x))"

definition reply :: "methods \<Rightarrow> (nat \<Rightarrow> 'd ctx \<Rightarrow> 'd json) \<Rightarrow> 'd ctx \<Rightarrow> 'd json" where
  "reply M f x = (if is_notification x then J_null else answer M f x)"

lemma get_rpc_method_named: "map_of (ct_request x) ''method'' = Some (J_string m) \<Longrightarrow> get_rpc_method x f = f m"
  by (simp add: get_rpc_method_def obj_at_def)

lemma get_rpc_method_missing: "\<not> names_method (ct_request x) \<Longrightarrow> get_rpc_method x f = terminate"
  by (auto simp: get_rpc_method_def obj_at_def names_method_def ebind_eq_Inr elim: get_string.elims split: option.split sum.split)

lemma handle_call_reply:
  assumes "names_method (ct_request x)" "answers_at_once E f"
  shows "handle_call M E x = responsefn (rv_lib E) x (reply M f x)"
proof -
  obtain m where m: "map_of (ct_request x) ''method'' = Some (J_string m)" using assms(1) by (auto simp: names_method_def)
  then show ?thesis using assms(2)
    by (simp add: handle_call_def get_rpc_method_named [OF m] reply_def answer_def answers_at_once_def
        respond_def rpc_error_def split: option.split)
qed

lemma answer_object: "names_method (ct_request x) \<Longrightarrow> is_object (answer M f x)"
  by (auto simp: names_method_def answer_def result_object_def error_object_def split: option.split)

lemma collect_replies:
  assumes "\<forall>x \<in> set xs. names_method (ct_request x)" "\<forall>j < length xs. map_of rs (i + j) = Some (reply M f (xs ! j))"
  shows "collect_results i xs rs = Inr (map (answer M f) (filter (\<lambda>x. \<not> is_notification x) xs))"
  using assms
proof (induction xs arbitrary: i)
  case (Cons x xs)
  have "collect_results (Suc i) xs rs = Inr (map (answer M f) (filter (\<lambda>x. \<not> is_notification x) xs))"
  proof (rule Cons.IH)
    show "\<forall>j < length xs. map_of rs (Suc i + j) = Some (reply M f (xs ! j))"
      using Cons.prems(2) by (metis Suc_less_eq add_Suc_shift length_Cons nth_Cons_Suc)
  qed (use Cons.prems in simp)
  moreover have "map_of rs i = Some (reply M f x)" using Cons.prems(2) by (metis add.right_neutral length_greater_0_conv list.distinct(1) nth_Cons_0)
  ultimately show ?case using Cons.prems(1) answer_object [of x M f] by (simp add: reply_def)
qed simp

lemma map_of_indexed: "j < n \<Longrightarrow> map_of (rev (map (\<lambda>i. (i, g i)) [0..<n])) j = Some (g j)"
  by (rule map_of_is_SomeI) (simp_all add: rev_map comp_def)

lemma batch_run:
  assumes "xs = pre @ ys" "ys \<noteq> []" "rp_contexts w = xs" "\<forall>i < length xs. ct_slot (xs ! i) = Some i"
    "\<forall>x \<in> set xs. names_method (ct_request x)" "answers_at_once E f"
    "rp_results w = rev (map (\<lambda>i. (i, reply M f (xs ! i))) [0..<length pre])"
  shows "for_each ys (handle_call M E) w =
    (w\<lparr>rp_results := rev (map (\<lambda>i. (i, reply M f (xs ! i))) [0..<length xs]),
       rp_out := rp_out w @ [serialize (rv_lib E) (-1) (J_array (map (answer M f) (filter (\<lambda>x. \<not> is_notification x) xs)))]\<rparr>, Go)"
  using assms
proof (induction ys arbitrary: pre w)
  case (Cons y ys)
  let ?res = "\<lambda>n. rev (map (\<lambda>i. (i, reply M f (xs ! i))) [0..<n])"
  let ?n = "length pre"
  have y: "xs ! ?n = y" "?n < length xs" using Cons.prems(1) by simp_all
  have call: "handle_call M E y = handle_result (rv_lib E) ?n (reply M f y)"
  proof -
    have "ct_slot y = Some ?n" using Cons.prems(4) y by metis
    then show ?thesis using handle_call_reply [of y E f M] Cons.prems(1,5,6) by (simp add: responsefn_def)
  qed
  have put: "put_result ?n (reply M f y) (?res ?n) = ?res (Suc ?n)"
    using y by (simp add: put_result_def filter_id_conv)
  show ?case
  proof (cases ys)
    case Nil
    then have len: "length xs = Suc ?n" using Cons.prems(1) by simp
    have "collect_results 0 xs (?res (length xs)) = Inr (map (answer M f) (filter (\<lambda>x. \<not> is_notification x) xs))"
      using Cons.prems(5) by (intro collect_replies) (simp_all add: map_of_indexed del: upt_Suc)
    then show ?thesis using call put Cons.prems(3,7) Nil len
      by (simp add: handle_result_def act_simps emit_def del: upt_Suc)
  next
    case (Cons z zs)
    let ?w = "w\<lparr>rp_results := ?res (Suc ?n)\<rparr>"
    have "handle_call M E y w = (?w, Go)"
      using call put Cons.prems(1,3,7) Cons by (simp add: handle_result_def act_simps del: upt_Suc)
    moreover have "for_each ys (handle_call M E) ?w =
      (?w\<lparr>rp_results := ?res (length xs),
       rp_out := rp_out ?w @ [serialize (rv_lib E) (-1) (J_array (map (answer M f) (filter (\<lambda>x. \<not> is_notification x) xs)))]\<rparr>, Go)"
      by (rule Cons.IH [of "pre @ [y]"]) (use Cons.prems Cons in simp_all)
    ultimately show ?thesis by (simp add: act_simps del: upt_Suc)
  qed
qed simp

lemma batch_contexts_props:
  "length (batch_contexts cx sync reqs) = length reqs"
  "\<forall>i < length reqs. ct_slot (batch_contexts cx sync reqs ! i) = Some i"
  "map ct_request (batch_contexts cx sync reqs) = reqs"
  by (simp_all add: batch_contexts_def nth_enumerate_eq list_eq_iff_nth_eq)

lemma emap_get_object: "emap get_object (map J_object reqs) = Inr reqs"
  by (induction reqs) simp_all

text \<open>One function, 0, which returns its parameters at once; \<open>no_calls\<close> is the state before a message.\<close>

definition echo_env :: "(string, unit) rpc_env" where
  "echo_env = \<lparr>rv_lib = text_lib, rv_handler = \<lambda>h x. respond text_lib x (get_rpc_params x)\<rparr>"

definition no_calls :: "(string, unit) rpc" where
  "no_calls = \<lparr>rp_out = [], rp_contexts = [], rp_results = [], rp_user = ()\<rparr>"

definition echo_request :: "string \<Rightarrow> string json" where
  "echo_request m = J_object [(''id'', J_int 7), (''method'', J_string m), (''params'', J_string ''hi'')]"

definition echo_text :: "string json \<Rightarrow> string" where
  "echo_text v = serialize text_lib (-1) v"

lemma echo_text_parsed: "json_ok text_lib v \<Longrightarrow> parse_json (rv_lib echo_env) (echo_text v) = Inr ([], v)"
  using parse_serialized [of text_lib v "[]" "-1"] by (simp add: echo_text_def echo_env_def follow_def)

lemma echo_request_ok: "json_ok text_lib (echo_request m)"
proof -
  have "''id'' < ''method''" "''method'' < ''params''" "''id'' < ''params''" by code_simp+
  then show ?thesis by (simp add: echo_request_def)
qed

lemma echo_at_once: "answers_at_once echo_env (\<lambda>h x. get_rpc_params x)"
  by (simp add: answers_at_once_def echo_env_def)

definition echo_methods :: methods where
  "echo_methods = [''echo'' \<mapsto> 0]"

lemma echo_none: "echo_methods ''none'' = None"
  by code_simp

section \<open>Properties\<close>

text \<open>
  C9. A batch whose requests all name a method, with functions that answer at once, gets one
  response: the answers of the requests that have an id, in the order of the requests. A
  batch of notifications gets an empty array.
\<close>

theorem rpc_batch_answered:
  assumes "parse_json (rv_lib E) msg = Inr ([], J_array (map J_object reqs))" "reqs \<noteq> []"
    "\<forall>r \<in> set reqs. names_method r" "answers_at_once E f"
  shows "snd (handle_message M E msg cx sync w) = Go \<and>
    rp_out (fst (handle_message M E msg cx sync w)) =
      rp_out w @ [serialize (rv_lib E) (-1) (J_array (map (answer M f)
        (filter (\<lambda>x. \<not> is_notification x) (batch_contexts cx sync reqs))))]"
proof -
  let ?xs = "batch_contexts cx sync reqs"
  let ?w = "w\<lparr>rp_contexts := ?xs, rp_results := []\<rparr>"
  note props = batch_contexts_props [where cx = cx and sync = sync and reqs = reqs]
  have named: "\<forall>x \<in> set ?xs. names_method (ct_request x)"
    using assms(3) props(3) by (metis image_eqI list.set_map)
  have "?xs \<noteq> []" using props(1) assms(2) by auto
  then have "for_each ?xs (handle_call M E) ?w =
    (?w\<lparr>rp_results := rev (map (\<lambda>i. (i, reply M f (?xs ! i))) [0..<length ?xs]),
       rp_out := rp_out ?w @ [serialize (rv_lib E) (-1) (J_array (map (answer M f) (filter (\<lambda>x. \<not> is_notification x) ?xs)))]\<rparr>, Go)"
    using named props assms(4) by (intro batch_run [of _ "[]"]) simp_all
  then show ?thesis using assms(1)
    by (simp add: handle_message_def handle_batch_def emap_get_object act_simps Let_def)
qed

lemma rpc_batch_answered_witness:
  "let t = echo_text (J_array (map J_object [[(''method'', J_string ''echo'')], [(''id'', J_int 7), (''method'', J_string ''none'')]])) in
   snd (handle_message echo_methods echo_env t None False no_calls) = Go \<and>
    rp_out (fst (handle_message echo_methods echo_env t None False no_calls)) =
      rp_out no_calls @ [serialize (rv_lib echo_env) (-1) (J_array (map (answer echo_methods (\<lambda>h x. get_rpc_params x))
        (filter (\<lambda>x. \<not> is_notification x) (batch_contexts None False
          [[(''method'', J_string ''echo'')], [(''id'', J_int 7), (''method'', J_string ''none'')]]))))]"
  unfolding Let_def
proof (rule rpc_batch_answered [OF echo_text_parsed _ _ echo_at_once])
  have "''id'' < ''method''" by code_simp
  then show "json_ok text_lib (J_array (map J_object
      [[(''method'', J_string ''echo'')], [(''id'', J_int 7), (''method'', J_string ''none'')]]))" by simp
qed (simp_all add: names_method_def)

text \<open>
  A request with an id for a function that is not registered is answered by the error
  object, with the id it came with: whoever parses the answer finds both.
\<close>

theorem rpc_unknown_method:
  assumes "parse_json (rv_lib E) msg = Inr ([], J_object req)" "map_of req ''method'' = Some (J_string m)"
    "M m = None" "map_of req ''id'' = Some i" "json_ok (rv_lib E) i"
  shows "\<exists>t. snd (handle_message M E msg cx sync w) = Go \<and>
    rp_out (fst (handle_message M E msg cx sync w)) = rp_out w @ [t] \<and>
    parse_json (rv_lib E) t = Inr ([], J_object
      [(''error'', J_object [(''code'', J_int (word_of_int (-32601))), (''message'', J_string ''Could not find the requested method'')]),
       (''id'', i), (''jsonrpc'', J_string ''2.0'')])"
proof -
  let ?x = "\<lparr>ct_request = req, ct_batched = False, ct_prefer_sync = sync, ct_context = cx, ct_slot = None\<rparr>"
  let ?v = "J_object
      [(''error'', J_object [(''code'', J_int (word_of_int (-32601))), (''message'', J_string ''Could not find the requested method'')]),
       (''id'', i), (''jsonrpc'', J_string ''2.0'')]"
  let ?t = "serialize (rv_lib E) (-1) ?v"
  have id: "obj_count ''id'' req \<noteq> 0"
    using map_of_SomeD [OF assms(4)] by (force simp: obj_count_def filter_empty_conv)
  have less: "''error'' < ''id''" "''id'' < ''jsonrpc''" "''error'' < ''jsonrpc''" "''code'' < ''message''" by code_simp+
  have "error_object i error_method_not_found ''Could not find the requested method'' J_null = ?v"
    using less less [THEN less_not_sym] by (simp add: error_object_def error_members_def error_method_not_found_def Let_def)
  then have "handle_call M E ?x = emit ?t"
    using id assms(2-4) by (simp add: handle_call_def get_rpc_method_named rpc_error_def is_notification_def
        get_id_def responsefn_def del: serialize.simps)
  moreover have "parse_json (rv_lib E) (?t @ []) = Inr ([], ?v)"
    using assms(5) less by (intro parse_serialized) (simp_all add: follow_def)
  ultimately show ?thesis using assms(1) by (simp add: handle_message_def emit_def act_simps del: serialize.simps)
qed

lemma rpc_unknown_method_witness:
  "\<exists>t. snd (handle_message echo_methods echo_env (echo_text (echo_request ''none'')) None False no_calls) = Go \<and>
    rp_out (fst (handle_message echo_methods echo_env (echo_text (echo_request ''none'')) None False no_calls)) = rp_out no_calls @ [t] \<and>
    parse_json (rv_lib echo_env) t = Inr ([], J_object
      [(''error'', J_object [(''code'', J_int (word_of_int (-32601))), (''message'', J_string ''Could not find the requested method'')]),
       (''id'', J_int 7), (''jsonrpc'', J_string ''2.0'')])"
  by (rule rpc_unknown_method [OF echo_text_parsed [OF echo_request_ok, unfolded echo_request_def], folded echo_request_def])
     (rule echo_none | simp add: echo_env_def)+

text \<open>C34. A request without a method, or with one that is no string, ends the process: reading it throws inside a \<^verbatim>\<open>noexcept\<close> function.\<close>

theorem rpc_missing_method_terminates:
  assumes "parse_json (rv_lib E) msg = Inr ([], J_object req)" "\<not> names_method req"
  shows "handle_message M E msg cx sync w = (w, Terminate)"
  using assms by (simp add: handle_message_def handle_call_def get_rpc_method_missing terminate_def)

lemma rpc_missing_method_terminates_witness:
  "handle_message echo_methods echo_env (echo_text (J_object [])) None False no_calls = (no_calls, Terminate)"
  by (rule rpc_missing_method_terminates [OF echo_text_parsed]) (simp_all add: names_method_def)

text \<open>
  A batch with an element that is no object is not answered at all, although it has valid
  requests: an exception leaves \<^verbatim>\<open>handle_message\<close>. Nor is an empty batch.
\<close>

theorem rpc_batch_not_answered:
  assumes "parse_json (rv_lib E) msg = Inr ([], J_array vs)" "vs = [] \<or> v \<in> set vs \<and> \<not> is_object v"
  shows "rp_out (fst (handle_message M E msg cx sync w)) = rp_out w \<and>
    snd (handle_message M E msg cx sync w) \<in> {Go, Throw (type_mismatch ''object'')}"
proof -
  have bad: "emap get_object vs = Inl (type_mismatch ''object'')" if "v \<in> set vs" "\<not> is_object v"
    using that
  proof (induction vs)
    case (Cons u us)
    then show ?case by (cases u) (auto simp: ebind_def)
  qed simp
  show ?thesis using assms bad
    by (auto simp: handle_message_def handle_batch_def act_simps type_mismatch_def batch_contexts_def)
qed

lemma rpc_batch_not_answered_witness:
  "let t = echo_text (J_array [echo_request ''echo'', J_null]) in
   rp_out (fst (handle_message echo_methods echo_env t None False no_calls)) = rp_out no_calls \<and>
   snd (handle_message echo_methods echo_env t None False no_calls) \<in> {Go, Throw (type_mismatch ''object'')}"
  unfolding Let_def
  by (rule rpc_batch_not_answered [OF echo_text_parsed, where v = J_null]) (simp_all add: echo_request_ok)

end
