(* ===== verification/Rpc_Batch.thy ===== *)
theory Rpc_Batch imports Json_Rpc
begin

text \<open>
  Batches of \<^verbatim>\<open>src/util/json_rpc.cpp\<close> whose functions answer later: a function keeps the context it is called
  with and \<^verbatim>\<open>respond\<close> is called on it at some time. Whatever the order in which the answers arrive, the response
  is sent with the last of them and has the answers in the order of the requests.
\<close>

section \<open>Contexts\<close>

text \<open>What a function can ask its context.\<close>

definition is_batched :: "'d ctx \<Rightarrow> bool" where
  "is_batched x = ct_batched x"

definition prefer_sync :: "'d ctx \<Rightarrow> bool" where
  "prefer_sync x = ct_prefer_sync x"

definition get_rpc_context :: "'d ctx \<Rightarrow> nat option" where
  "get_rpc_context x = ct_context x"

definition respond_object :: "'d c_lib \<Rightarrow> 'd ctx \<Rightarrow> 'd object \<Rightarrow> ('d, 'u) rpc act" where
  "respond_object C x obj = respond C x (J_object obj)"

definition respond_array :: "'d c_lib \<Rightarrow> 'd ctx \<Rightarrow> 'd json list \<Rightarrow> ('d, 'u) rpc act" where
  "respond_array C x vs = respond C x (J_array vs)"

text \<open>The contexts of a batch know that they are batched, and what the caller passed.\<close>

lemma batch_context_fields:
  "x \<in> set (batch_contexts cx sync reqs) \<Longrightarrow> is_batched x \<and> prefer_sync x = sync \<and> get_rpc_context x = cx"
  by (auto simp: batch_contexts_def is_batched_def prefer_sync_def get_rpc_context_def)

section \<open>Answers in any order\<close>

text \<open>Functions that do not answer while they are called.\<close>

definition defers :: "('d, 'u) rpc_env \<Rightarrow> bool" where
  "defers E \<longleftrightarrow> (\<forall>h x w. \<exists>u. rv_handler E h x w = (w\<lparr>rp_user := u\<rparr>, Go))"

text \<open>Answer number \<open>i\<close> with \<open>v\<close>, as the batch stores it.\<close>

definition stored :: "'d ctx list \<Rightarrow> nat \<times> 'd json \<Rightarrow> nat \<times> 'd json" where
  "stored xs a = (fst a, if is_notification (xs ! fst a) then J_null else result_object (get_id (xs ! fst a)) (snd a))"

definition answer_all :: "'d c_lib \<Rightarrow> 'd ctx list \<Rightarrow> (nat \<times> 'd json) list \<Rightarrow> ('d, 'u) rpc act" where
  "answer_all C xs as = for_each as (\<lambda>a. respond C (xs ! fst a) (snd a))"

text \<open>The response: the results of the requests with an id, in order.\<close>

definition batch_reply :: "'d c_lib \<Rightarrow> 'd ctx list \<Rightarrow> (nat \<times> 'd json) list \<Rightarrow> string" where
  "batch_reply C xs as = serialize C (-1) (J_array
     (map (\<lambda>i. result_object (get_id (xs ! i)) (the (map_of as i))) (filter (\<lambda>i. \<not> is_notification (xs ! i)) [0..<length xs])))"

lemma put_result_new: "i \<notin> fst ` set rs \<Longrightarrow> put_result i v rs = (i, v) # rs"
  by (auto simp: put_result_def filter_id_conv)

lemma fst_stored [simp]: "fst (stored xs a) = fst a" "fst \<circ> stored xs = fst"
  by (auto simp: stored_def)

lemma stored_pair [simp]: "(fst a, snd (stored xs a)) = stored xs a"
  by (simp add: stored_def)

lemma respond_stores:
  assumes "ct_slot (xs ! fst a) = Some (fst a)" "rp_contexts w = xs" "fst a \<notin> fst ` set (rp_results w)"
    "Suc (length (rp_results w)) < length xs"
  shows "respond C (xs ! fst a) (snd a) w = (w\<lparr>rp_results := stored xs a # rp_results w\<rparr>, Go)"
  using assms by (simp add: respond_def responsefn_def handle_result_def put_result_new act_simps stored_def)

lemma answers_stored:
  assumes "\<forall>i < length xs. ct_slot (xs ! i) = Some i" "rp_contexts w = xs" "distinct (map fst as)"
    "\<forall>a \<in> set as. fst a < length xs \<and> fst a \<notin> fst ` set (rp_results w)" "length (rp_results w) + length as < length xs"
  shows "answer_all C xs as w = (w\<lparr>rp_results := rev (map (stored xs) as) @ rp_results w\<rparr>, Go)"
  using assms
proof (induction as arbitrary: w)
  case (Cons a as)
  let ?w = "w\<lparr>rp_results := stored xs a # rp_results w\<rparr>"
  have "respond C (xs ! fst a) (snd a) w = (?w, Go)" using Cons.prems by (intro respond_stores) simp_all
  moreover have "\<forall>b \<in> set as. fst b \<noteq> fst a" using Cons.prems(3) by (metis distinct.simps(2) image_eqI list.set_map list.simps(9))
  then have "answer_all C xs as ?w = (?w\<lparr>rp_results := rev (map (stored xs) as) @ rp_results ?w\<rparr>, Go)"
    using Cons.prems by (intro Cons.IH) simp_all
  ultimately show ?case by (simp add: answer_all_def act_simps)
qed (simp add: answer_all_def act_simps)

lemma collect_stored:
  assumes "\<forall>j < length xs. \<exists>v. map_of rs (i + j) = Some v \<and> (is_notification (xs ! j) \<or> is_object v)"
  shows "collect_results i xs rs =
    Inr (map (\<lambda>j. the (map_of rs (i + j))) (filter (\<lambda>j. \<not> is_notification (xs ! j)) [0..<length xs]))"
  using assms
proof (induction xs arbitrary: i)
  case (Cons x xs)
  have "\<forall>j < length xs. \<exists>v. map_of rs (Suc i + j) = Some v \<and> (is_notification (xs ! j) \<or> is_object v)"
    using Cons.prems by (metis Suc_less_eq add_Suc_shift length_Cons nth_Cons_Suc)
  note rest = Cons.IH [OF this]
  obtain v where "map_of rs i = Some v" "is_notification x \<or> is_object v" using Cons.prems by force
  then show ?case using rest
    by (cases "is_notification x") (simp_all add: upt_conv_Cons map_Suc_upt [symmetric] filter_map comp_def del: upt_Suc)
qed simp

lemma map_of_stored:
  assumes "distinct (map fst as)" "(i, v) \<in> set as"
  shows "map_of (rev (map (stored xs) as)) i = Some (snd (stored xs (i, v)))"
proof (rule map_of_is_SomeI)
  show "distinct (map fst (rev (map (stored xs) as)))" using assms(1) by (simp add: rev_map [symmetric])
  have "stored xs (i, v) \<in> set (rev (map (stored xs) as))" using assms(2) by simp
  then show "(i, snd (stored xs (i, v))) \<in> set (rev (map (stored xs) as))" by (simp add: stored_def)
qed

lemma deferred_calls:
  assumes "defers E" "\<forall>x \<in> set ys. \<exists>m h. map_of (ct_request x) ''method'' = Some (J_string m) \<and> M m = Some h"
  shows "\<exists>u. for_each ys (handle_call M E) w = (w\<lparr>rp_user := u\<rparr>, Go)"
  using assms(2)
proof (induction ys arbitrary: w)
  case Nil
  have "w = w\<lparr>rp_user := rp_user w\<rparr>" by simp
  then show ?case by (auto simp: act_simps intro: exI [of _ "rp_user w"])
next
  case (Cons y ys)
  obtain m h where "map_of (ct_request y) ''method'' = Some (J_string m)" "M m = Some h" using Cons.prems by auto
  moreover obtain u where "rv_handler E h y w = (w\<lparr>rp_user := u\<rparr>, Go)" using assms(1) unfolding defers_def by blast
  ultimately have "handle_call M E y w = (w\<lparr>rp_user := u\<rparr>, Go)" by (simp add: handle_call_def get_rpc_method_named)
  moreover obtain v where "for_each ys (handle_call M E) (w\<lparr>rp_user := u\<rparr>) = (w\<lparr>rp_user := u\<rparr>\<lparr>rp_user := v\<rparr>, Go)"
    using Cons by (meson list.set_intros(2))
  ultimately show ?case by (auto simp: act_simps)
qed

text \<open>The last answer sends the response.\<close>

lemma respond_last:
  assumes "rp_contexts w = xs" "\<forall>i < length xs. ct_slot (xs ! i) = Some i" "rp_results w = rev (map (stored xs) as)"
    "distinct (map fst (as @ [a]))" "fst ` set (as @ [a]) = {..<length xs}"
  shows "respond C (xs ! fst a) (snd a) w
    = (w\<lparr>rp_results := rev (map (stored xs) (as @ [a])), rp_out := rp_out w @ [batch_reply C xs (as @ [a])]\<rparr>, Go)"
proof -
  let ?as = "as @ [a]" and ?rs = "rev (map (stored xs) (as @ [a]))"
  have slot: "ct_slot (xs ! fst a) = Some (fst a)" using assms(2,5) by auto
  have new: "fst a \<notin> fst ` set (rp_results w)" using assms(3,4) by (auto simp: image_iff)
  have "length ?as = card (fst ` set ?as)" using assms(4) by (metis distinct_card length_map list.set_map)
  then have n: "length ?rs = length xs" using assms(5) by simp
  have at: "map_of ?rs j = Some (snd (stored xs (j, the (map_of ?as j))))" if "j < length xs" for j
  proof -
    have "j \<in> fst ` set ?as" using assms(5) that by simp
    then obtain v where v: "(j, v) \<in> set ?as" by force
    then have "map_of ?as j = Some v" using assms(4) by (intro map_of_is_SomeI)
    then show ?thesis using map_of_stored [OF assms(4) v] by simp
  qed
  then have "\<forall>j < length xs. \<exists>v. map_of ?rs (0 + j) = Some v \<and> (is_notification (xs ! j) \<or> is_object v)"
    by (simp add: stored_def result_object_def)
  note collect = collect_stored [OF this]
  have "map (\<lambda>j. the (map_of ?rs (0 + j))) (filter (\<lambda>j. \<not> is_notification (xs ! j)) [0..<length xs])
    = map (\<lambda>j. result_object (get_id (xs ! j)) (the (map_of ?as j))) (filter (\<lambda>j. \<not> is_notification (xs ! j)) [0..<length xs])"
    using at by (intro map_cong refl) (simp add: stored_def del: rev_map)
  then have "collect_results 0 xs ?rs = Inr (map (\<lambda>j. result_object (get_id (xs ! j)) (the (map_of ?as j)))
      (filter (\<lambda>j. \<not> is_notification (xs ! j)) [0..<length xs]))" using collect by simp
  then have "handle_result C (fst a) (snd (stored xs a)) w
    = (w\<lparr>rp_results := ?rs, rp_out := rp_out w @ [batch_reply C xs ?as]\<rparr>, Go)"
    using assms(1,3) n new by (simp add: handle_result_def put_result_new act_simps emit_def batch_reply_def del: serialize.simps)
  then show ?thesis using slot by (simp add: respond_def responsefn_def stored_def)
qed

text \<open>A function that keeps its context for later; a request and a notification for it, answered in the other order.\<close>

definition later_env :: "(string, unit) rpc_env" where
  "later_env = \<lparr>rv_lib = text_lib, rv_handler = \<lambda>h x. skip\<rparr>"

definition two_calls :: "string object list" where
  "two_calls = [[(''id'', J_int 7), (''method'', J_string ''echo'')], [(''method'', J_string ''echo'')]]"

definition two_answers :: "(nat \<times> string json) list" where
  "two_answers = [(1, J_null), (0, J_string ''hi'')]"

lemma later_facts:
  "defers later_env" "parse_json (rv_lib later_env) (echo_text (J_array (map J_object two_calls))) = Inr ([], J_array (map J_object two_calls))"
proof -
  have "w = w\<lparr>rp_user := rp_user w\<rparr>" for w :: "(string, unit) rpc" by simp
  then show "defers later_env" unfolding defers_def later_env_def skip_def by simp
  have "''id'' < ''method''" by code_simp
  then have "json_ok text_lib (J_array (map J_object two_calls))" by (simp add: two_calls_def)
  from echo_text_parsed [OF this] show "parse_json (rv_lib later_env) (echo_text (J_array (map J_object two_calls))) = Inr ([], J_array (map J_object two_calls))"
    by (simp add: later_env_def echo_env_def)
qed

section \<open>Properties\<close>

text \<open>
  C10. A batch of requests for functions that answer later. Nothing is sent before all of them have answered; then
  one response is, with the results of the requests that have an id in the order of the requests, whatever
  the order of the answers.
\<close>

theorem rpc_batch_any_order:
  fixes cx :: "nat option" and sync :: bool
  assumes "parse_json (rv_lib E) msg = Inr ([], J_array (map J_object reqs))" "reqs \<noteq> []"
    "\<forall>r \<in> set reqs. \<exists>m h. map_of r ''method'' = Some (J_string m) \<and> M m = Some h" "defers E"
    "distinct (map fst as)" "fst ` set as = {..<length reqs}"
  defines "xs \<equiv> batch_contexts cx sync reqs"
  shows "\<exists>w'. handle_message M E msg cx sync w = (w', Go) \<and> rp_out w' = rp_out w
    \<and> (\<forall>k < length as. rp_out (fst (answer_all (rv_lib E) xs (take k as) w')) = rp_out w)
    \<and> snd (answer_all (rv_lib E) xs as w') = Go
    \<and> rp_out (fst (answer_all (rv_lib E) xs as w')) = rp_out w @ [batch_reply (rv_lib E) xs as]"
proof -
  let ?C = "rv_lib E" and ?w = "w\<lparr>rp_contexts := xs, rp_results := []\<rparr>"
  have props: "length xs = length reqs" "\<forall>i < length xs. ct_slot (xs ! i) = Some i" "map ct_request xs = reqs"
    using batch_contexts_props [where cx = cx and sync = sync and reqs = reqs] by (simp_all add: xs_def)
  have "\<forall>x \<in> set xs. \<exists>m h. map_of (ct_request x) ''method'' = Some (J_string m) \<and> M m = Some h"
    using assms(3) props(3) by (metis image_eqI list.set_map)
  then obtain u where "for_each xs (handle_call M E) ?w = (?w\<lparr>rp_user := u\<rparr>, Go)" using deferred_calls [OF assms(4)] by blast
  then have call: "handle_message M E msg cx sync w = (?w\<lparr>rp_user := u\<rparr>, Go)"
    using assms(1) by (simp add: handle_message_def handle_batch_def emap_get_object act_simps Let_def xs_def)
  have "length as = card (fst ` set as)" using assms(5) by (metis distinct_card length_map list.set_map)
  then have n: "length as = length xs" using assms(6) props(1) by simp
  have part: "answer_all ?C xs bs (?w\<lparr>rp_user := u\<rparr>) = (?w\<lparr>rp_user := u, rp_results := rev (map (stored xs) bs)\<rparr>, Go)"
    if "as = bs @ cs" "cs \<noteq> []" for bs cs
  proof -
    have "length bs < length xs" using arg_cong [OF that(1), of length] that(2) n by (cases cs) simp_all
    moreover have "distinct (map fst bs)" using assms(5) that(1) by simp
    moreover have "\<forall>a \<in> set bs. fst a < length xs" using assms(6) that(1) props(1) by auto
    ultimately show ?thesis using answers_stored [of xs "?w\<lparr>rp_user := u\<rparr>" bs ?C] props(2) by simp
  qed
  obtain bs a where as: "as = bs @ [a]" using n assms(2) props(1) by (metis length_0_conv rev_exhaust)
  have "respond ?C (xs ! fst a) (snd a) (?w\<lparr>rp_user := u, rp_results := rev (map (stored xs) bs)\<rparr>)
    = (?w\<lparr>rp_user := u, rp_results := rev (map (stored xs) as), rp_out := rp_out w @ [batch_reply ?C xs as]\<rparr>, Go)"
    using respond_last [of "?w\<lparr>rp_user := u, rp_results := rev (map (stored xs) bs)\<rparr>" xs bs a ?C] as props assms(5,6) by simp
  then have whole: "answer_all ?C xs as (?w\<lparr>rp_user := u\<rparr>)
    = (?w\<lparr>rp_user := u, rp_results := rev (map (stored xs) as), rp_out := rp_out w @ [batch_reply ?C xs as]\<rparr>, Go)"
    using part [OF as] as by (simp add: answer_all_def for_each_append act_simps)
  have "rp_out (fst (answer_all ?C xs (take k as) (?w\<lparr>rp_user := u\<rparr>))) = rp_out w" if "k < length as" for k
    using part [of "take k as" "drop k as"] that by simp
  then show ?thesis using call whole by simp
qed

lemma rpc_batch_any_order_witness:
  "\<exists>w'. handle_message echo_methods later_env (echo_text (J_array (map J_object two_calls))) None False no_calls = (w', Go)
    \<and> rp_out w' = []
    \<and> rp_out (fst (answer_all text_lib (batch_contexts None False two_calls) two_answers w'))
      = [batch_reply text_lib (batch_contexts None False two_calls) two_answers]"
proof -
  have named: "\<forall>r \<in> set two_calls. \<exists>m h. map_of r ''method'' = Some (J_string m) \<and> echo_methods m = Some h"
    by (simp add: two_calls_def echo_methods_def)
  have order: "distinct (map fst two_answers)" "fst ` set two_answers = {..<length two_calls}" "two_calls \<noteq> []"
    by (auto simp: two_answers_def two_calls_def)
  show ?thesis
    using rpc_batch_any_order [OF later_facts(2) order(3) named later_facts(1) order(1,2), of None False no_calls]
    by (auto simp: no_calls_def later_env_def)
qed

end
