(* ===== verification/Json_Context.thy ===== *)
theory Json_Context imports Json_Roundtrip
begin

text \<open>
  \<^verbatim>\<open>_parse\<close> of \<^verbatim>\<open>include/grpcbackend/picojson.h\<close> is a template over a context that is told what was
  read. Here it is modelled over any context, with the three that the header defines: one
  builds a value, in place and also when the text turns out to be wrong, one discards and one
  denies. The parser of \<open>Json_Parse\<close> is what the first amounts to. Then the remaining
  operations of values and streams.
\<close>

section \<open>Typed access and assignment\<close>

datatype json_type = Null_type | Boolean_type | Number_type | Int64_type | String_type | Array_type | Object_type

text \<open>\<^verbatim>\<open>value(type, false)\<close>.\<close>

fun typed_value :: "'d c_lib \<Rightarrow> json_type \<Rightarrow> 'd json" where
  "typed_value C Null_type = J_null"
| "typed_value C Boolean_type = J_bool False"
| "typed_value C Number_type = J_number (cl_of_int C 0)"
| "typed_value C Int64_type = J_int 0"
| "typed_value C String_type = J_string []"
| "typed_value C Array_type = J_array []"
| "typed_value C Object_type = J_object []"

fun type_of :: "'d json \<Rightarrow> json_type" where
  "type_of J_null = Null_type"
| "type_of (J_bool _) = Boolean_type"
| "type_of (J_number _) = Number_type"
| "type_of (J_int _) = Int64_type"
| "type_of (J_string _) = String_type"
| "type_of (J_array _) = Array_type"
| "type_of (J_object _) = Object_type"

definition is_bool :: "'d json \<Rightarrow> bool" where
  "is_bool v \<longleftrightarrow> type_of v = Boolean_type"

definition is_int64 :: "'d json \<Rightarrow> bool" where
  "is_int64 v \<longleftrightarrow> type_of v = Int64_type"

definition is_string :: "'d json \<Rightarrow> bool" where
  "is_string v \<longleftrightarrow> type_of v = String_type"

fun get_bool :: "'d json \<Rightarrow> bool result" where
  "get_bool (J_bool b) = Inr b"
| "get_bool _ = Inl (type_mismatch ''bool'')"

fun get_int64 :: "'d json \<Rightarrow> 64 word result" where
  "get_int64 (J_int i) = Inr i"
| "get_int64 _ = Inl (type_mismatch ''int64_t'')"

text \<open>\<^verbatim>\<open>get<double>\<close> with the value it leaves: an integer becomes a floating point number, in a constant value as well.\<close>

fun get_double :: "'d c_lib \<Rightarrow> 'd json \<Rightarrow> ('d \<times> 'd json) result" where
  "get_double C (J_number d) = Inr (d, J_number d)"
| "get_double C (J_int i) = Inr (cl_of_int C (sint i), J_number (cl_of_int C (sint i)))"
| "get_double C _ = Inl (type_mismatch ''double'')"

text \<open>What \<^verbatim>\<open>set\<close> replaces the value by; unlike the constructor it takes any floating point number.\<close>

definition set_bool :: "bool \<Rightarrow> 'd json \<Rightarrow> 'd json" where
  "set_bool b _ = J_bool b"

definition set_string :: "string \<Rightarrow> 'd json \<Rightarrow> 'd json" where
  "set_string s _ = J_string s"

definition set_array :: "'d json list \<Rightarrow> 'd json \<Rightarrow> 'd json" where
  "set_array vs _ = J_array vs"

definition set_object :: "'d object \<Rightarrow> 'd json \<Rightarrow> 'd json" where
  "set_object kvs _ = J_object kvs"

definition set_double :: "'d \<Rightarrow> 'd json \<Rightarrow> 'd json" where
  "set_double d _ = J_number d"

definition set_int64 :: "64 word \<Rightarrow> 'd json \<Rightarrow> 'd json" where
  "set_int64 i _ = J_int i"

text \<open>
  Reading an integer as a floating point number takes the integer away: \<^verbatim>\<open>get<int64_t>\<close> throws from then on, and
  the text of the value is that of the number.
\<close>

lemma get_double_converts:
  assumes "get_double C v = Inr (d, v')"
  shows "\<not> is_int64 v' \<and> get_int64 v' = Inl (type_mismatch ''int64_t'') \<and> to_str C v' = number_text C d"
  using assms by (cases v) (auto simp: is_int64_def)

text \<open>A number that is not finite can be set, but the constructor refuses it and no text reads as it.\<close>

lemma set_double_unchecked:
  assumes "\<not> cl_finite C d"
  shows "number_value C d = Inl (Std_exception [])" "\<not> json_ok C (set_double d v)"
  using assms by (auto simp: number_value_def set_double_def number_ok_def)

section \<open>Contexts\<close>

text \<open>
  The operations of a context on its state \<open>'s\<close>. To read an item or a member it names a state to
  go on with and how to put the result back, or refuses. No context of the header uses the
  index of an item or the number of items.
\<close>

record ('s, 'd) parse_context =
  cx_null :: "'s \<Rightarrow> bool \<times> 's"
  cx_bool :: "bool \<Rightarrow> 's \<Rightarrow> bool \<times> 's"
  cx_int :: "64 word \<Rightarrow> 's \<Rightarrow> bool \<times> 's"
  cx_number :: "'d \<Rightarrow> 's \<Rightarrow> (bool \<times> 's) result"
  cx_string :: "'s \<Rightarrow> input \<Rightarrow> bool \<times> 's \<times> input"
  cx_array_start :: "'s \<Rightarrow> bool \<times> 's"
  cx_item :: "'s \<Rightarrow> ('s \<times> ('s \<Rightarrow> 's)) option result"
  cx_array_stop :: "'s \<Rightarrow> bool"
  cx_object_start :: "'s \<Rightarrow> bool \<times> 's"
  cx_member :: "string \<Rightarrow> 's \<Rightarrow> ('s \<times> ('s \<Rightarrow> 's)) option result"

text \<open>\<^verbatim>\<open>_parse_string\<close> with what was pushed until it ended, well or not.\<close>

function read_string :: "string \<Rightarrow> input \<Rightarrow> bool \<times> string \<times> input" where
  "read_string out i = (case getc i of
     (None, j) \<Rightarrow> (False, out, ungetc j)
   | (Some c, j) \<Rightarrow>
       if c < CHR '' '' then (False, out, ungetc j)
       else if c = CHR 0x22 then (True, out, j)
       else if c = CHR 0x5C then (case getc j of
           (None, k) \<Rightarrow> (False, out, k)
         | (Some e, k) \<Rightarrow>
             if e = CHR ''u'' then (case parse_codepoint k of
                 (None, l) \<Rightarrow> (False, out, l)
               | (Some bytes, l) \<Rightarrow> read_string (out @ bytes) l)
             else (case unescape e of None \<Rightarrow> (False, out, k) | Some d \<Rightarrow> read_string (out @ [d]) k))
       else read_string (out @ [c]) j)"
  by pat_completeness auto
termination
proof (relation "measure (\<lambda>(out, i). length (rem i))", goal_cases)
  case (2 out i x j c y k e z l bytes)
  have "length (rem l) \<le> length (rem k)" using 2 parse_codepoint_rem [of k] by (metis snd_conv)
  then show ?case using 2 getc_Some [of i c j] getc_Some [of j e k] by auto
qed (auto dest!: getc_shorter)

declare read_string.simps [simp del]

lemma parse_string_read:
  "parse_string out i = (case read_string out i of (b, s, j) \<Rightarrow> (if b then Some s else None, j))"
proof (induction out i rule: read_string.induct)
  case (1 out i)
  obtain c j where g: "getc i = (c, j)" by fastforce
  obtain e k where h: "getc j = (e, k)" by fastforce
  obtain b l where p: "parse_codepoint k = (b, l)" by fastforce
  show ?case
    using 1 g h p
    by (subst parse_string.simps, subst read_string.simps) (auto split: option.splits)
qed

section \<open>Parsing into a context\<close>

text \<open>What was told to the context stays with it when the text is wrong or an exception is thrown.\<close>

datatype 's outcome = C_ok 's input | C_fail 's input | C_throw exc 's | C_fuel

text \<open>What a nested value did to its place, put back into the container.\<close>

fun put_back :: "('s \<Rightarrow> 's) \<Rightarrow> 's outcome \<Rightarrow> 's outcome" where
  "put_back put (C_ok t j) = C_ok (put t) j"
| "put_back put (C_fail t j) = C_fail (put t) j"
| "put_back put (C_throw e t) = C_throw e (put t)"
| "put_back put C_fuel = C_fuel"

definition settle :: "bool \<times> 's \<Rightarrow> input \<Rightarrow> 's outcome" where
  "settle r j = (if fst r then C_ok (snd r) j else C_fail (snd r) j)"

definition ctx_word :: "string \<Rightarrow> ('s \<Rightarrow> bool \<times> 's) \<Rightarrow> 's \<Rightarrow> input \<Rightarrow> 's outcome" where
  "ctx_word w f s i = (case match_text w i of (True, j) \<Rightarrow> settle (f s) j | (False, j) \<Rightarrow> C_fail s j)"

text \<open>What \<^verbatim>\<open>set_int64\<close> and \<^verbatim>\<open>set_number\<close> return is not looked at.\<close>

definition ctx_number :: "('s, 'd) parse_context \<Rightarrow> 'd c_lib \<Rightarrow> string \<Rightarrow> 's \<Rightarrow> input \<Rightarrow> 's outcome" where
  "ctx_number K C num s j =
     (if num = [] then C_fail s j
      else case strtoimax_whole num of
        Some n \<Rightarrow> C_ok (snd (cx_int K (word_of_int n) s)) j
      | None \<Rightarrow>
          (case cl_strtod C num of (d, k) \<Rightarrow>
             if k = length num
             then (case cx_number K d s of Inl e \<Rightarrow> C_throw e s | Inr r \<Rightarrow> C_ok (snd r) j)
             else C_fail s j))"

fun ctx_parse :: "('s, 'd) parse_context \<Rightarrow> 'd c_lib \<Rightarrow> nat \<Rightarrow> 's \<Rightarrow> input \<Rightarrow> 's outcome"
and ctx_items :: "('s, 'd) parse_context \<Rightarrow> 'd c_lib \<Rightarrow> nat \<Rightarrow> 's \<Rightarrow> input \<Rightarrow> 's outcome"
and ctx_members :: "('s, 'd) parse_context \<Rightarrow> 'd c_lib \<Rightarrow> nat \<Rightarrow> 's \<Rightarrow> input \<Rightarrow> 's outcome" where
  "ctx_parse K C 0 s i = C_fuel"
| "ctx_parse K C (Suc n) s i = (case getc (skip_ws i) of
     (None, j) \<Rightarrow> C_fail s (ungetc j)
   | (Some c, j) \<Rightarrow>
       if c = CHR ''n'' then ctx_word ''ull'' (cx_null K) s j
       else if c = CHR ''f'' then ctx_word ''alse'' (cx_bool K False) s j
       else if c = CHR ''t'' then ctx_word ''rue'' (cx_bool K True) s j
       else if c = CHR 0x22 then (case cx_string K s j of (b, t, k) \<Rightarrow> settle (b, t) k)
       else if c = CHR ''['' then (case cx_array_start K s of
           (False, t) \<Rightarrow> C_fail t j
         | (True, t) \<Rightarrow> (case expect (CHR '']'') j of
             (True, k) \<Rightarrow> settle (cx_array_stop K t, t) k | (False, k) \<Rightarrow> ctx_items K C n t k))
       else if c = CHR ''{'' then (case cx_object_start K s of
           (False, t) \<Rightarrow> C_fail t j
         | (True, t) \<Rightarrow> (case expect (CHR ''}'') j of
             (True, k) \<Rightarrow> C_ok t k | (False, k) \<Rightarrow> ctx_members K C n t k))
       else if is_digit c \<or> c = CHR ''-'' then
         (case parse_number C [] (ungetc j) of (num, k) \<Rightarrow> ctx_number K C num s k)
       else C_fail s (ungetc j))"
| "ctx_items K C 0 s i = C_fuel"
| "ctx_items K C (Suc n) s i = (case cx_item K s of
     Inl e \<Rightarrow> C_throw e s
   | Inr None \<Rightarrow> C_fail s i
   | Inr (Some (u, put)) \<Rightarrow> (case put_back put (ctx_parse K C n u i) of
       C_ok t j \<Rightarrow> (case expect (CHR '','') j of
           (True, k) \<Rightarrow> ctx_items K C n t k
         | (False, k) \<Rightarrow> (case expect (CHR '']'') k of
             (True, l) \<Rightarrow> settle (cx_array_stop K t, t) l | (False, l) \<Rightarrow> C_fail t l))
     | r \<Rightarrow> r))"
| "ctx_members K C 0 s i = C_fuel"
| "ctx_members K C (Suc n) s i = (case expect (CHR 0x22) i of
     (False, j) \<Rightarrow> C_fail s j
   | (True, j) \<Rightarrow> (case read_string [] j of
       (False, key, k) \<Rightarrow> C_fail s k
     | (True, key, k) \<Rightarrow> (case expect (CHR '':'') k of
         (False, l) \<Rightarrow> C_fail s l
       | (True, l) \<Rightarrow> (case cx_member K key s of
           Inl e \<Rightarrow> C_throw e s
         | Inr None \<Rightarrow> C_fail s l
         | Inr (Some (u, put)) \<Rightarrow> (case put_back put (ctx_parse K C n u l) of
             C_ok t m \<Rightarrow> (case expect (CHR '','') m of
                 (True, q) \<Rightarrow> ctx_members K C n t q
               | (False, q) \<Rightarrow> (case expect (CHR ''}'') q of
                   (True, z) \<Rightarrow> C_ok t z | (False, z) \<Rightarrow> C_fail t z))
           | r \<Rightarrow> r)))))"

section \<open>The three contexts\<close>

text \<open>
  \<^verbatim>\<open>default_parse_context\<close> writes to the value it was given. The state of an item or a member is the place it
  has in its container: a null at the end of the array, the present value under a key, or a new null.
\<close>

definition item_place :: "'d json \<Rightarrow> ('d json \<times> ('d json \<Rightarrow> 'd json)) option result" where
  "item_place s = (case get_array s of
     Inl e \<Rightarrow> Inl e
   | Inr vs \<Rightarrow> Inr (Some (J_null, \<lambda>v. J_array (vs @ [v]))))"

definition member_place :: "string \<Rightarrow> 'd json \<Rightarrow> ('d json \<times> ('d json \<Rightarrow> 'd json)) option result" where
  "member_place key s = (case get_object s of
     Inl e \<Rightarrow> Inl e
   | Inr kvs \<Rightarrow>
       Inr (Some (case map_of kvs key of Some u \<Rightarrow> u | None \<Rightarrow> J_null, \<lambda>v. J_object (obj_insert key v kvs))))"

definition default_context :: "'d c_lib \<Rightarrow> ('d json, 'd) parse_context" where
  "default_context C =
     \<lparr>cx_null = \<lambda>_. (True, J_null), cx_bool = \<lambda>b _. (True, J_bool b), cx_int = \<lambda>i _. (True, J_int i),
      cx_number = \<lambda>d _. (case number_value C d of Inl e \<Rightarrow> Inl e | Inr v \<Rightarrow> Inr (True, v)),
      cx_string = \<lambda>_ i. (case read_string [] i of (b, out, j) \<Rightarrow> (b, J_string out, j)),
      cx_array_start = \<lambda>_. (True, J_array []), cx_item = item_place, cx_array_stop = \<lambda>_. True,
      cx_object_start = \<lambda>_. (True, J_object []), cx_member = member_place\<rparr>"

definition null_context :: "(unit, 'd) parse_context" where
  "null_context =
     \<lparr>cx_null = \<lambda>_. (True, ()), cx_bool = \<lambda>_ _. (True, ()), cx_int = \<lambda>_ _. (True, ()),
      cx_number = \<lambda>_ _. Inr (True, ()),
      cx_string = \<lambda>_ i. (case read_string [] i of (b, out, j) \<Rightarrow> (b, (), j)),
      cx_array_start = \<lambda>_. (True, ()), cx_item = \<lambda>_. Inr (Some ((), id)), cx_array_stop = \<lambda>_. True,
      cx_object_start = \<lambda>_. (True, ()), cx_member = \<lambda>_ _. Inr (Some ((), id))\<rparr>"

definition deny_context :: "(unit, 'd) parse_context" where
  "deny_context =
     \<lparr>cx_null = \<lambda>_. (False, ()), cx_bool = \<lambda>_ _. (False, ()), cx_int = \<lambda>_ _. (False, ()),
      cx_number = \<lambda>_ _. Inr (False, ()), cx_string = \<lambda>_ i. (False, (), i),
      cx_array_start = \<lambda>_. (False, ()), cx_item = \<lambda>_. Inr None, cx_array_stop = \<lambda>_. False,
      cx_object_start = \<lambda>_. (False, ()), cx_member = \<lambda>_ _. Inr None\<rparr>"

section \<open>Contexts that follow the value\<close>

text \<open>
  A context whose state stays related to the value that \<open>Json_Parse\<close> builds: what it is told is
  accepted, and the places it names for items and members lead to the containers with
  the new element. A lenient context may take a number that the value refuses.
\<close>

locale following_context =
  fixes K :: "('s, 'd) parse_context" and C :: "'d c_lib" and R :: "'d json \<Rightarrow> 's \<Rightarrow> bool" and lenient :: bool
  assumes null_ok: "\<exists>t. cx_null K s = (True, t) \<and> R J_null t"
    and bool_ok: "\<exists>t. cx_bool K b s = (True, t) \<and> R (J_bool b) t"
    and int_ok: "R (J_int m) (snd (cx_int K m s))"
    and number_ok: "number_value C d = Inr v \<Longrightarrow> \<exists>b t. cx_number K d s = Inr (b, t) \<and> R v t"
    and number_throw: "number_value C d = Inl e \<Longrightarrow> \<not> lenient \<Longrightarrow> cx_number K d s = Inl e"
    and string_ok: "read_string [] i = (b, out, j) \<Longrightarrow> \<exists>t. cx_string K s i = (b, t, j) \<and> (b \<longrightarrow> R (J_string out) t)"
    and array_start_ok: "\<exists>t. cx_array_start K s = (True, t) \<and> R (J_array []) t"
    and item_ok: "R (J_array vs) s \<Longrightarrow> \<exists>u put. cx_item K s = Inr (Some (u, put)) \<and> (\<forall>v t. R v t \<longrightarrow> R (J_array (vs @ [v])) (put t))"
    and array_stop_ok: "R (J_array vs) s \<Longrightarrow> cx_array_stop K s"
    and object_start_ok: "\<exists>t. cx_object_start K s = (True, t) \<and> R (J_object []) t"
    and member_ok: "R (J_object kvs) s \<Longrightarrow>
      \<exists>u put. cx_member K key s = Inr (Some (u, put)) \<and> (\<forall>v t. R v t \<longrightarrow> R (J_object (obj_insert key v kvs)) (put t))"
begin

definition follows :: "'d presult \<Rightarrow> 's outcome \<Rightarrow> bool" where
  "follows r x \<longleftrightarrow> (case r of
     P_ok v j \<Rightarrow> (\<exists>t. x = C_ok t j \<and> R v t)
   | P_fail j \<Rightarrow> (\<exists>t. x = C_fail t j)
   | P_throw e \<Rightarrow> lenient \<or> (\<exists>t. x = C_throw e t)
   | P_fuel \<Rightarrow> x = C_fuel)"

lemma follows_simps [simp]:
  "follows (P_ok v j) (C_ok t k) \<longleftrightarrow> k = j \<and> R v t" "follows (P_fail j) (C_fail t k) \<longleftrightarrow> k = j"
  "follows P_fuel x \<longleftrightarrow> x = C_fuel" "follows (P_throw e) (C_throw e t)"
  by (auto simp: follows_def)

lemma follows_throw: "follows (P_throw e) x \<longleftrightarrow> lenient \<or> (\<exists>t. x = C_throw e t)"
  by (simp add: follows_def)

lemma word_follows:
  assumes "\<exists>t. f s = (True, t) \<and> R v t"
  shows "follows (parse_word w v j) (ctx_word w f s j)"
  using assms by (cases "match_text w j" ; cases "fst (match_text w j)")
    (auto simp: parse_word_def ctx_word_def settle_def)

lemma number_follows: "follows (finish_number C num j) (ctx_number K C num s j)"
proof (cases "num = [] \<or> strtoimax_whole num \<noteq> None")
  case True
  then show ?thesis using int_ok by (auto simp: finish_number_def ctx_number_def)
next
  case False
  obtain d k where d: "cl_strtod C num = (d, k)" by fastforce
  show ?thesis
  proof (cases "number_value C d")
    case (Inl e)
    moreover have "lenient \<or> cx_number K d s = Inl e" using number_throw [OF Inl, of s] by blast
    ultimately show ?thesis using False d by (auto simp: finish_number_def ctx_number_def follows_throw)
  next
    case (Inr v)
    then show ?thesis using False d number_ok [OF Inr, of s]
      by (auto simp: finish_number_def ctx_number_def)
  qed
qed

lemma context_follows:
  "follows (parse_value C n i) (ctx_parse K C n s i)"
  "R (J_array vs) s \<Longrightarrow> follows (parse_items C n vs i) (ctx_items K C n s i)"
  "R (J_object kvs) s \<Longrightarrow> follows (parse_members C n kvs i) (ctx_members K C n s i)"
proof (induction n arbitrary: s i vs kvs)
  case 0
  { case 1 show ?case by simp }
  { case 2 show ?case by simp }
  { case 3 show ?case by simp }
next
  case (Suc n)
  { case 1
    obtain c j where g: "getc (skip_ws i) = (c, j)" by fastforce
    obtain b out k where r: "read_string [] j = (b, out, k)" using prod_cases3 by blast
    have p: "parse_string [] j = (if b then Some out else None, k)" using r by (simp add: parse_string_read)
    obtain ts where ts: "cx_string K s j = (b, ts, k)" "b \<longrightarrow> R (J_string out) ts" using string_ok [OF r] by blast
    obtain ta where ta: "cx_array_start K s = (True, ta)" "R (J_array []) ta" using array_start_ok by blast
    obtain to where to: "cx_object_start K s = (True, to)" "R (J_object []) to" using object_start_ok by blast
    have arr: "follows (parse_items C n [] m) (ctx_items K C n ta m)"
      and obj: "follows (parse_members C n [] m) (ctx_members K C n to m)" for m
      using Suc.IH(2) [OF ta(2)] Suc.IH(3) [OF to(2)] by auto
    have a: "follows (case expect (CHR '']'') j of (True, k) \<Rightarrow> P_ok (J_array []) k | (False, k) \<Rightarrow> parse_items C n [] k)
        (case expect (CHR '']'') j of (True, k) \<Rightarrow> settle (cx_array_stop K ta, ta) k | (False, k) \<Rightarrow> ctx_items K C n ta k)"
      using arr ta(2) array_stop_ok [OF ta(2)] by (simp add: settle_def split: prod.split bool.split)
    have o: "follows (case expect (CHR ''}'') j of (True, k) \<Rightarrow> P_ok (J_object []) k | (False, k) \<Rightarrow> parse_members C n [] k)
        (case expect (CHR ''}'') j of (True, k) \<Rightarrow> C_ok to k | (False, k) \<Rightarrow> ctx_members K C n to k)"
      using obj to(2) by (simp split: prod.split bool.split)
    have num: "follows (case parse_number C [] (ungetc j) of (num, k) \<Rightarrow> finish_number C num k)
        (case parse_number C [] (ungetc j) of (num, k) \<Rightarrow> ctx_number K C num s k)"
      using number_follows by (simp split: prod.split)
    have str: "follows (case parse_string [] j of (Some s, k) \<Rightarrow> P_ok (J_string s) k | (None, k) \<Rightarrow> P_fail k)
        (case cx_string K s j of (b, t, k) \<Rightarrow> settle (b, t) k)"
      using p ts by (simp add: settle_def)
    have w: "follows (parse_word t J_null j) (ctx_word t (cx_null K) s j)"
      "follows (parse_word t (J_bool b) j) (ctx_word t (cx_bool K b) s j)" for t b
      by (rule word_follows, rule null_ok, rule word_follows, rule bool_ok)
    show ?case
      unfolding parse_value.simps ctx_parse.simps g prod.case ta(1) to(1) bool.case
      using w a o num str
      by (simp split: option.split)
  }
  { case 2
    then obtain u put where place: "cx_item K s = Inr (Some (u, put))"
      "\<And>v t. R v t \<Longrightarrow> R (J_array (vs @ [v])) (put t)" using item_ok by blast
    show ?case
    proof (cases "parse_value C n i")
      case (P_ok v j)
      then obtain t where t: "ctx_parse K C n u i = C_ok t j" "R v t"
        using Suc.IH(1) [of i u] by (auto simp: follows_def)
      show ?thesis using P_ok place t(1) Suc.IH(2) [OF place(2) [OF t(2)]] array_stop_ok [OF place(2) [OF t(2)]] place(2) [OF t(2)]
        by (auto simp: settle_def split: prod.split bool.split)
    qed (use place Suc.IH(1) [of i u] in \<open>auto simp: follows_def\<close>)
  }
  { case 3
    obtain b0 j where q: "expect (CHR 0x22) i = (b0, j)" by fastforce
    obtain b key k where r: "read_string [] j = (b, key, k)" using prod_cases3 by blast
    have p: "parse_string [] j = (if b then Some key else None, k)" using r by (simp add: parse_string_read)
    obtain b1 l where e: "expect (CHR '':'') k = (b1, l)" by fastforce
    obtain u put where place: "cx_member K key s = Inr (Some (u, put))"
      "\<And>v t. R v t \<Longrightarrow> R (J_object (obj_insert key v kvs)) (put t)" using member_ok 3 by blast
    show ?case
    proof (cases "parse_value C n l")
      case (P_ok v m)
      then obtain t where t: "ctx_parse K C n u l = C_ok t m" "R v t"
        using Suc.IH(1) [of l u] by (auto simp: follows_def)
      show ?thesis using P_ok q r p e place t(1) Suc.IH(3) [OF place(2) [OF t(2)]] place(2) [OF t(2)]
        by (auto split: prod.split bool.split)
    qed (use q r p e place Suc.IH(1) [of l u] in \<open>auto simp: follows_def split: bool.split\<close>)
  }
qed

end


text \<open>The value that is built in place is the one the parser of \<open>Json_Parse\<close> returns.\<close>

interpretation building: following_context "default_context C" C "(=)" False
  by unfold_locales (auto simp: default_context_def item_place_def member_place_def)

interpretation discarding: following_context null_context C "\<lambda>_ _. True" True
  by unfold_locales (auto simp: null_context_def split: prod.split)

text \<open>
  The context that denies: an accepted text is a number, because what it returns
  for numbers is not looked at.
\<close>

fun is_number :: "'d json \<Rightarrow> bool" where
  "is_number (J_number _) = True"
| "is_number (J_int _) = True"
| "is_number _ = False"

definition denies :: "'d presult \<Rightarrow> unit outcome \<Rightarrow> bool" where
  "denies r x \<longleftrightarrow> (case r of
     P_ok v j \<Rightarrow> if is_number v then x = C_ok () j else \<exists>k. x = C_fail () k
   | P_fail j \<Rightarrow> \<exists>k. x = C_fail () k
   | _ \<Rightarrow> True)"

lemma denies_simps [simp]:
  "denies (P_ok v j) x \<longleftrightarrow> (if is_number v then x = C_ok () j else (\<exists>k. x = C_fail () k))"
  "denies (P_fail j) x \<longleftrightarrow> (\<exists>k. x = C_fail () k)"
  "denies (P_throw e) x" "denies P_fuel x"
  by (simp_all add: denies_def)

lemma number_value_number: "number_value C d = Inr v \<Longrightarrow> is_number v"
  by (auto simp: number_value_def split: if_splits)

lemma parse_word_no_number: "\<not> is_number v \<Longrightarrow> denies (parse_word w v j) (C_fail () k)"
  by (simp add: parse_word_def split: prod.split bool.split)

lemma deny_number: "denies (finish_number C num j) (ctx_number deny_context C num () j)"
  by (auto simp: finish_number_def ctx_number_def deny_context_def number_value_number
      split: option.split prod.split sum.split)

lemma items_no_number: "parse_items C n vs i = P_ok v j \<Longrightarrow> \<not> is_number v"
  by (induction n arbitrary: vs i) (auto split: presult.splits prod.splits bool.splits)

lemma members_no_number: "parse_members C n kvs i = P_ok v j \<Longrightarrow> \<not> is_number v"
  by (induction n arbitrary: kvs i)
    (auto split: presult.splits prod.splits bool.splits option.splits)

lemma container_denied: "(\<And>v j. r = P_ok v j \<Longrightarrow> \<not> is_number v) \<Longrightarrow> denies r (C_fail () k)"
  by (cases r) auto

lemma deny_follows:
  fixes C :: "'d c_lib"
  shows "denies (parse_value C n i) (ctx_parse deny_context C n () i)"
proof (cases n)
  case (Suc m)
  obtain c j where g: "getc (skip_ws i) = (c, j)" by fastforce
  let ?K = "deny_context :: (unit, 'd) parse_context"
  have w: "denies (parse_word t (J_null :: 'd json) j) (ctx_word t (cx_null ?K) () j)"
    "denies (parse_word t (J_bool b :: 'd json) j) (ctx_word t (cx_bool ?K b) () j)" for t b
    by (auto simp: parse_word_def ctx_word_def deny_context_def settle_def split: prod.split bool.split)
  have str: "denies (case parse_string [] j of (Some s, k) \<Rightarrow> P_ok (J_string s :: 'd json) k | (None, k) \<Rightarrow> P_fail k)
      (case cx_string ?K () j of (b, t, k) \<Rightarrow> settle (b, t) k)"
    by (auto simp: deny_context_def settle_def split: prod.split option.split)
  have a: "denies (case expect (CHR '']'') j of (True, k) \<Rightarrow> P_ok (J_array []) k | (False, k) \<Rightarrow> parse_items C m [] k) (C_fail () j)"
    and o: "denies (case expect (CHR ''}'') j of (True, k) \<Rightarrow> P_ok (J_object []) k | (False, k) \<Rightarrow> parse_members C m [] k) (C_fail () j)"
    by (rule container_denied; auto dest: items_no_number members_no_number split: prod.splits bool.splits)+
  have num: "denies (case parse_number C [] (ungetc j) of (num, k) \<Rightarrow> finish_number C num k)
      (case parse_number C [] (ungetc j) of (num, k) \<Rightarrow> ctx_number deny_context C num () k)"
    by (simp add: deny_number split: prod.split)
  have starts: "cx_array_start ?K () = (False, ())" "cx_object_start ?K () = (False, ())"
    by (simp_all add: deny_context_def)
  show ?thesis
    unfolding Suc parse_value.simps ctx_parse.simps g prod.case starts bool.case
    using w str a o num by (simp split: option.split)
qed simp

section \<open>Parsing a text\<close>

text \<open>
  \<^verbatim>\<open>_parse(ctx, first, last, err)\<close>: the error text, if one is asked for, where the reading
  stopped, and the state. Behind an error the rest of the line is read.
\<close>

datatype 's parsed = Parsed string string 's | Thrown exc 's | Unfinished

function error_line :: "string \<Rightarrow> input \<Rightarrow> string \<times> input" where
  "error_line err i = (case getc i of
     (None, j) \<Rightarrow> (err, j)
   | (Some c, j) \<Rightarrow>
       if c = CHR 0x0A then (err, j) else error_line (if CHR '' '' \<le> c then err @ [c] else err) j)"
  by pat_completeness auto
termination by (relation "measure (\<lambda>(err, i). length (rem i))") (auto dest!: getc_shorter)

declare error_line.simps [simp del]

lemma error_line_rest: "fst (error_line err i) = err @ error_rest i"
proof (induction err i rule: error_line.induct)
  case (1 err i)
  then show ?case by (subst error_line.simps, subst error_rest.simps) (auto split: prod.split option.split)
qed

definition parse_with :: "('s, 'd) parse_context \<Rightarrow> 'd c_lib \<Rightarrow> bool \<Rightarrow> 's \<Rightarrow> string \<Rightarrow> 's parsed" where
  "parse_with K C want s txt = (case ctx_parse K C (parse_fuel txt) s (new_input txt) of
     C_ok t j \<Rightarrow> Parsed [] (rem j) t
   | C_fail t j \<Rightarrow>
       if want then
         (case error_line (''syntax error at line '' @ dec_nat (in_line j) @ '' near: '') j of
            (err, k) \<Rightarrow> Parsed err (rem k) t)
       else Parsed [] (rem j) t
   | C_throw e t \<Rightarrow> Thrown e t
   | C_fuel \<Rightarrow> Unfinished)"

text \<open>\<^verbatim>\<open>parse(out, s)\<close> writes to a value that may hold something already.\<close>

definition parse_into :: "'d c_lib \<Rightarrow> 'd json \<Rightarrow> string \<Rightarrow> 'd json parsed" where
  "parse_into C = parse_with (default_context C) C True"

section \<open>Streams\<close>

text \<open>What is left in the buffer of the stream and whether \<^verbatim>\<open>failbit\<close> is set.\<close>

record in_stream =
  is_rest :: string
  is_fail :: bool

text \<open>\<^verbatim>\<open>parse(out, is)\<close> reads the buffer of the stream; what it does not read stays there.\<close>

definition parse_stream :: "'d c_lib \<Rightarrow> 'd json \<Rightarrow> in_stream \<Rightarrow> 'd json parsed" where
  "parse_stream C x is = parse_into C x (is_rest is)"

text \<open>\<^verbatim>\<open>operator>>\<close> with the error that \<^verbatim>\<open>get_last_error\<close> reads afterwards. It reads the buffer of a failed stream as well.\<close>

definition stream_in :: "'d c_lib \<Rightarrow> in_stream \<Rightarrow> 'd json \<Rightarrow> (string \<times> in_stream \<times> 'd json) result" where
  "stream_in C is x = (case parse_stream C x is of
     Parsed err rest v \<Rightarrow> Inr (err, \<lparr>is_rest = rest, is_fail = is_fail is \<or> err \<noteq> []\<rparr>, v)
   | Thrown e v \<Rightarrow> Inl e
   | Unfinished \<Rightarrow> Inl Undefined_behaviour)"

definition serialize_text :: "'d c_lib \<Rightarrow> bool \<Rightarrow> 'd json \<Rightarrow> string" where
  "serialize_text C prettify x = serialize C (if prettify then 0 else -1) x"

definition stream_out :: "'d c_lib \<Rightarrow> string \<Rightarrow> 'd json \<Rightarrow> string" where
  "stream_out C os x = os @ serialize_text C False x"

text \<open>\<^verbatim>\<open>operator!=\<close>, which like \<^verbatim>\<open>operator==\<close> may change what it compares.\<close>

definition json_differs :: "'d c_lib \<Rightarrow> 'd json \<Rightarrow> 'd json \<Rightarrow> bool \<times> 'd json \<times> 'd json" where
  "json_differs C x y = (case json_equal C x y of (b, x', y') \<Rightarrow> (\<not> b, x', y'))"

section \<open>Properties\<close>

text \<open>
  C21. Building the value in place, over whatever the target holds, has the result of the recursive parser: the
  value when there is no error, otherwise the same error text or the same exception.
\<close>

theorem parse_into_refines:
  "parse_json C s = (case parse_into C x s of
     Parsed err rest v \<Rightarrow> Inr (err, if err = [] then v else J_null)
   | Thrown e v \<Rightarrow> Inl e
   | Unfinished \<Rightarrow> Inl Undefined_behaviour)"
proof -
  let ?r = "parse_value C (parse_fuel s) (new_input s)"
  have f: "building.follows ?r (ctx_parse (default_context C) C (parse_fuel s) x (new_input s))"
    by (rule building.context_follows)
  show ?thesis
    using f by (auto simp: parse_json_def parse_into_def parse_with_def building.follows_def error_line_rest
      prod.case_eq_if split: presult.splits)
qed

lemma parse_into_reads:
  assumes "json_ok C v" "follow t" "list_all is_ws ws"
  shows "parse_into C x (ws @ serialize C ind v @ t) = Parsed [] (end_break ind @ t) v"
proof -
  let ?s = "ws @ serialize C ind v @ t"
  have l: "lead (new_input ?s) = serialize C ind v @ t"
    using dropWhile_serialize [OF assms(1)] assms(3) by (simp add: lead_def dropWhile_ws)
  then obtain j where j: "parse_value C (parse_fuel ?s) (new_input ?s) = P_ok v j" "rem j = end_break ind @ t"
    using serialize_reads(1) [OF assms(1,2) l, of "parse_fuel ?s"] by (auto simp: parse_fuel_def)
  then show ?thesis
    using building.context_follows(1) [of C "parse_fuel ?s" "new_input ?s" x]
    by (auto simp: parse_into_def parse_with_def building.follows_def)
qed

text \<open>
  A value written to a stream is read back from it, behind white space, and what was written behind it is
  what the next reading starts with.
\<close>

theorem stream_roundtrip:
  assumes "json_ok C v" "follow t" "list_all is_ws ws"
  shows "stream_in C \<lparr>is_rest = stream_out C ws v @ t, is_fail = f\<rparr> x = Inr ([], \<lparr>is_rest = t, is_fail = f\<rparr>, v)"
  using parse_into_reads [OF assms, of x "-1"] by (simp add: stream_in_def parse_stream_def stream_out_def serialize_text_def end_break_def)

lemma stream_roundtrip_witness:
  "stream_in text_lib \<lparr>is_rest = stream_out text_lib '' '' sample_json @ ''[1]'', is_fail = False\<rparr> J_null
     = Inr ([], \<lparr>is_rest = ''[1]'', is_fail = False\<rparr>, sample_json)"
  by (rule stream_roundtrip) (simp_all add: sample_json_ok follow_def is_ws_def number_part_def is_number_char_def is_digit_def)

text \<open>
  The context that discards accepts a text exactly when the parser of values does, reads as much of it
  and reports the same error, unless a number overflows.
\<close>

theorem null_context_accepts:
  assumes "parse_into C x s = Parsed err rest v"
  shows "parse_with null_context C True () s = Parsed err rest ()"
  using assms building.context_follows(1) [of C "parse_fuel s" "new_input s" x]
    discarding.context_follows(1) [of C "parse_fuel s" "new_input s" "()"]
  by (auto simp: parse_into_def parse_with_def building.follows_def discarding.follows_def
      split: presult.splits prod.splits)

text \<open>
  The context that denies everything accepts the texts of numbers, since what it
  returns for them is not looked at.
\<close>

theorem deny_accepts_numbers:
  assumes "parse_json C s = Inr (err, v)"
  shows "(\<exists>rest. parse_with deny_context C True () s = Parsed [] rest ()) \<longleftrightarrow> err = [] \<and> is_number v"
proof -
  let ?r = "parse_value C (parse_fuel s) (new_input s)"
  have "denies ?r (ctx_parse deny_context C (parse_fuel s) () (new_input s))" by (rule deny_follows)
  moreover have "fst (error_line (''syntax error at line '' @ e) j) \<noteq> []" for e j
    by (simp add: error_line_rest)
  ultimately show ?thesis
    using assms by (auto simp: parse_json_def parse_with_def prod.case_eq_if split: presult.splits if_splits)
qed

lemma null_context_accepts_witness:
  "parse_with null_context text_lib True () ''[1, x'' = Parsed ''syntax error at line 1 near: x'' [] ()"
  by (rule null_context_accepts [where x = J_null and v = "J_array [J_int 1, J_null]"]) code_simp

lemma deny_accepts_numbers_witness: "\<exists>rest. parse_with deny_context text_lib True () ''12'' = Parsed [] rest ()"
  by (subst deny_accepts_numbers [where err = "[]" and v = "J_int 12"]) (code_simp, simp)

text \<open>After an error the target holds what was built until then, and the places that were reserved for more.\<close>

lemma failed_parse_leaves_parts:
  "parse_into text_lib (J_bool True) ''{\"a\":[1, x'' =
     Parsed ''syntax error at line 1 near: x'' [] (J_object [(''a'', J_array [J_int 1, J_null])])"
  by code_simp

end
