(* ===== verification/Json_Memory.thy ===== *)
theory Json_Memory imports Json_Context "HOL-Library.Monad_Syntax"
begin

text \<open>
  How \<^verbatim>\<open>picojson::value\<close> keeps its data: a tag and a union of pointers that constructors allocate with
  \<^verbatim>\<open>new\<close> and \<^verbatim>\<open>clear\<close> deletes. The memory is explicit, so that aliasing can be stated. \<open>owns\<close> relates a value
  object to the value it represents and to the memory that belongs to it; copying, assigning and
  destroying are correct for it, whatever aliases they are given. Two operations are not: setting a
  value from a part of itself, and moving a part of a value into it.
\<close>

section \<open>Memory\<close>

text \<open>
  The union has a constructor for each member; the elements of a vector and the entries of a map are
  value objects with addresses of their own. An address is used once, so an address that was
  released stays invalid.
\<close>

type_synonym addr = nat

datatype 'd storage =
    U_none | U_boolean bool | U_number 'd | U_int64 "64 word" | U_string addr | U_array addr | U_object addr

record 'd jvalue =
  v_type :: json_type
  v_data :: "'d storage"

datatype 'd cell = Value "'d jvalue" | Chars string | Vector "addr list" | Tree "(string \<times> addr) list"

record 'd memory =
  m_cells :: "addr \<Rightarrow> 'd cell option"
  m_next :: addr

text \<open>\<open>None\<close> is undefined behaviour: memory that is not allocated, or holds something else. Recursion takes fuel.\<close>

definition alloc :: "'d cell \<Rightarrow> 'd memory \<Rightarrow> addr \<times> 'd memory" where
  "alloc c m = (m_next m, m\<lparr>m_cells := (m_cells m)(m_next m \<mapsto> c), m_next := Suc (m_next m)\<rparr>)"

definition dealloc :: "addr \<Rightarrow> 'd memory \<Rightarrow> 'd memory option" where
  "dealloc a m = (if m_cells m a = None then None else Some (m\<lparr>m_cells := (m_cells m)(a := None)\<rparr>))"

definition value_at :: "addr \<Rightarrow> 'd memory \<Rightarrow> 'd jvalue option" where
  "value_at a m = (case m_cells m a of Some (Value v) \<Rightarrow> Some v | _ \<Rightarrow> None)"

definition chars_at :: "addr \<Rightarrow> 'd memory \<Rightarrow> string option" where
  "chars_at a m = (case m_cells m a of Some (Chars s) \<Rightarrow> Some s | _ \<Rightarrow> None)"

definition vector_at :: "addr \<Rightarrow> 'd memory \<Rightarrow> addr list option" where
  "vector_at a m = (case m_cells m a of Some (Vector xs) \<Rightarrow> Some xs | _ \<Rightarrow> None)"

definition tree_at :: "addr \<Rightarrow> 'd memory \<Rightarrow> (string \<times> addr) list option" where
  "tree_at a m = (case m_cells m a of Some (Tree kxs) \<Rightarrow> Some kxs | _ \<Rightarrow> None)"

definition write_cell :: "addr \<Rightarrow> 'd cell \<Rightarrow> 'd memory \<Rightarrow> 'd memory" where
  "write_cell a c m = m\<lparr>m_cells := (m_cells m)(a \<mapsto> c)\<rparr>"

definition write_value :: "addr \<Rightarrow> 'd jvalue \<Rightarrow> 'd memory \<Rightarrow> 'd memory option" where
  "write_value a v m = do { _ \<leftarrow> value_at a m; Some (write_cell a (Value v) m) }"

fun string_ptr :: "'d storage \<Rightarrow> addr option" where
  "string_ptr (U_string p) = Some p"
| "string_ptr _ = None"

fun array_ptr :: "'d storage \<Rightarrow> addr option" where
  "array_ptr (U_array p) = Some p"
| "array_ptr _ = None"

fun object_ptr :: "'d storage \<Rightarrow> addr option" where
  "object_ptr (U_object p) = Some p"
| "object_ptr _ = None"

fun each :: "(addr \<Rightarrow> 'm \<Rightarrow> 'm option) \<Rightarrow> addr list \<Rightarrow> 'm \<Rightarrow> 'm option" where
  "each f [] m = Some m"
| "each f (a # as) m = do { m \<leftarrow> f a m; each f as m }"

fun each_new :: "(addr \<Rightarrow> 'm \<Rightarrow> (addr \<times> 'm) option) \<Rightarrow> addr list \<Rightarrow> 'm \<Rightarrow> (addr list \<times> 'm) option" where
  "each_new f [] m = Some ([], m)"
| "each_new f (a # as) m = do { (b, m) \<leftarrow> f a m; (bs, m) \<leftarrow> each_new f as m; Some (b # bs, m) }"

section \<open>Constructors\<close>

definition new_null :: "'d memory \<Rightarrow> addr \<times> 'd memory" where
  "new_null = alloc (Value \<lparr>v_type = Null_type, v_data = U_none\<rparr>)"

definition new_bool :: "bool \<Rightarrow> 'd memory \<Rightarrow> addr \<times> 'd memory" where
  "new_bool b = alloc (Value \<lparr>v_type = Boolean_type, v_data = U_boolean b\<rparr>)"

definition new_int64 :: "64 word \<Rightarrow> 'd memory \<Rightarrow> addr \<times> 'd memory" where
  "new_int64 i = alloc (Value \<lparr>v_type = Int64_type, v_data = U_int64 i\<rparr>)"

definition new_double :: "'d c_lib \<Rightarrow> 'd \<Rightarrow> 'd memory \<Rightarrow> (addr \<times> 'd memory) result" where
  "new_double C d m =
     (if cl_finite C d then Inr (alloc (Value \<lparr>v_type = Number_type, v_data = U_number d\<rparr>) m) else Inl (Std_exception []))"

definition with_block :: "json_type \<Rightarrow> (addr \<Rightarrow> 'd storage) \<Rightarrow> 'd cell \<Rightarrow> 'd memory \<Rightarrow> addr \<times> 'd memory" where
  "with_block t u c m = (let (p, m) = alloc c m in alloc (Value \<lparr>v_type = t, v_data = u p\<rparr>) m)"

definition new_string :: "string \<Rightarrow> 'd memory \<Rightarrow> addr \<times> 'd memory" where
  "new_string s = with_block String_type U_string (Chars s)"

fun new_of_type :: "'d c_lib \<Rightarrow> json_type \<Rightarrow> 'd memory \<Rightarrow> addr \<times> 'd memory" where
  "new_of_type C Null_type m = new_null m"
| "new_of_type C Boolean_type m = new_bool False m"
| "new_of_type C Number_type m = alloc (Value \<lparr>v_type = Number_type, v_data = U_number (cl_of_int C 0)\<rparr>) m"
| "new_of_type C Int64_type m = new_int64 0 m"
| "new_of_type C String_type m = new_string [] m"
| "new_of_type C Array_type m = with_block Array_type U_array (Vector []) m"
| "new_of_type C Object_type m = with_block Object_type U_object (Tree []) m"

text \<open>From a C string, which ends at its first NUL, and from bytes with a length.\<close>

definition new_c_string :: "string \<Rightarrow> 'd memory \<Rightarrow> addr \<times> 'd memory" where
  "new_c_string s = new_string (takeWhile (\<lambda>c. c \<noteq> CHR 0x00) s)"

definition new_string_len :: "string \<Rightarrow> nat \<Rightarrow> 'd memory \<Rightarrow> (addr \<times> 'd memory) option" where
  "new_string_len s len m = (if len \<le> length s then Some (new_string (take len s) m) else None)"

section \<open>Destruction, copies and moves\<close>

primrec clear_value :: "nat \<Rightarrow> addr \<Rightarrow> 'd memory \<Rightarrow> 'd memory option" where
  "clear_value 0 a m = None"
| "clear_value (Suc n) a m = do {
     v \<leftarrow> value_at a m;
     case v_type v of
       String_type \<Rightarrow> do { p \<leftarrow> string_ptr (v_data v); _ \<leftarrow> chars_at p m; dealloc p m }
     | Array_type \<Rightarrow> do {
         p \<leftarrow> array_ptr (v_data v);
         xs \<leftarrow> vector_at p m;
         m \<leftarrow> each (\<lambda>x m. do { m \<leftarrow> clear_value n x m; dealloc x m }) xs m;
         dealloc p m }
     | Object_type \<Rightarrow> do {
         p \<leftarrow> object_ptr (v_data v);
         kxs \<leftarrow> tree_at p m;
         m \<leftarrow> each (\<lambda>x m. do { m \<leftarrow> clear_value n x m; dealloc x m }) (map snd kxs) m;
         dealloc p m }
     | _ \<Rightarrow> Some m }"

text \<open>The end of a value object: the destructor, then its own memory.\<close>

definition destroy :: "nat \<Rightarrow> addr \<Rightarrow> 'd memory \<Rightarrow> 'd memory option" where
  "destroy n a m = do { m \<leftarrow> clear_value n a m; dealloc a m }"

primrec copy_value :: "nat \<Rightarrow> addr \<Rightarrow> 'd memory \<Rightarrow> (addr \<times> 'd memory) option" where
  "copy_value 0 x m = None"
| "copy_value (Suc n) x m = do {
     v \<leftarrow> value_at x m;
     case v_type v of
       String_type \<Rightarrow> do { p \<leftarrow> string_ptr (v_data v); s \<leftarrow> chars_at p m; Some (with_block String_type U_string (Chars s) m) }
     | Array_type \<Rightarrow> do {
         p \<leftarrow> array_ptr (v_data v);
         xs \<leftarrow> vector_at p m;
         (ys, m) \<leftarrow> each_new (copy_value n) xs m;
         Some (with_block Array_type U_array (Vector ys) m) }
     | Object_type \<Rightarrow> do {
         p \<leftarrow> object_ptr (v_data v);
         kxs \<leftarrow> tree_at p m;
         (ys, m) \<leftarrow> each_new (copy_value n) (map snd kxs) m;
         Some (with_block Object_type U_object (Tree (zip (map fst kxs) ys)) m) }
     | _ \<Rightarrow> Some (alloc (Value v) m) }"

text \<open>From an array or an object somewhere in memory.\<close>

definition new_array :: "nat \<Rightarrow> addr \<Rightarrow> 'd memory \<Rightarrow> (addr \<times> 'd memory) option" where
  "new_array n p m = do {
     xs \<leftarrow> vector_at p m;
     (ys, m) \<leftarrow> each_new (copy_value n) xs m;
     Some (with_block Array_type U_array (Vector ys) m) }"

definition new_object :: "nat \<Rightarrow> addr \<Rightarrow> 'd memory \<Rightarrow> (addr \<times> 'd memory) option" where
  "new_object n p m = do {
     kxs \<leftarrow> tree_at p m;
     (ys, m) \<leftarrow> each_new (copy_value n) (map snd kxs) m;
     Some (with_block Object_type U_object (Tree (zip (map fst kxs) ys)) m) }"

text \<open>The constructors from an rvalue take the contents and leave the container empty.\<close>

definition new_string_move :: "addr \<Rightarrow> 'd memory \<Rightarrow> (addr \<times> 'd memory) option" where
  "new_string_move p m = do {
     s \<leftarrow> chars_at p m;
     Some (with_block String_type U_string (Chars s) (write_cell p (Chars []) m)) }"

definition new_array_move :: "addr \<Rightarrow> 'd memory \<Rightarrow> (addr \<times> 'd memory) option" where
  "new_array_move p m = do {
     xs \<leftarrow> vector_at p m;
     Some (with_block Array_type U_array (Vector xs) (write_cell p (Vector []) m)) }"

definition new_object_move :: "addr \<Rightarrow> 'd memory \<Rightarrow> (addr \<times> 'd memory) option" where
  "new_object_move p m = do {
     kxs \<leftarrow> tree_at p m;
     Some (with_block Object_type U_object (Tree kxs) (write_cell p (Tree []) m)) }"

definition swap_values :: "addr \<Rightarrow> addr \<Rightarrow> 'd memory \<Rightarrow> 'd memory option" where
  "swap_values x y m = do {
     v \<leftarrow> value_at x m;
     w \<leftarrow> value_at y m;
     m \<leftarrow> write_value x w m;
     write_value y v m }"

definition assign_value :: "nat \<Rightarrow> addr \<Rightarrow> addr \<Rightarrow> 'd memory \<Rightarrow> 'd memory option" where
  "assign_value n this x m =
     (if this \<noteq> x
      then do { (t, m) \<leftarrow> copy_value n x m; m \<leftarrow> swap_values this t m; destroy n t m }
      else Some m)"

definition new_moved :: "addr \<Rightarrow> 'd memory \<Rightarrow> (addr \<times> 'd memory) option" where
  "new_moved x m = (let (a, m) = new_null m in do { m \<leftarrow> swap_values a x m; Some (a, m) })"

definition move_value :: "addr \<Rightarrow> addr \<Rightarrow> 'd memory \<Rightarrow> 'd memory option" where
  "move_value this x m = swap_values this x m"

section \<open>Setting\<close>

text \<open>\<^verbatim>\<open>set\<close> clears the value before it looks at its argument, a reference that is an address here.\<close>

definition set_plain :: "nat \<Rightarrow> addr \<Rightarrow> json_type \<Rightarrow> 'd storage \<Rightarrow> 'd memory \<Rightarrow> 'd memory option" where
  "set_plain n a t u m = do { m \<leftarrow> clear_value n a m; write_value a \<lparr>v_type = t, v_data = u\<rparr> m }"

definition set_block :: "nat \<Rightarrow> addr \<Rightarrow> json_type \<Rightarrow> (addr \<Rightarrow> 'd storage) \<Rightarrow> ('d memory \<Rightarrow> (addr \<times> 'd memory) option) \<Rightarrow> 'd memory \<Rightarrow> 'd memory option" where
  "set_block n a t u build m = do {
     m \<leftarrow> clear_value n a m;
     v \<leftarrow> value_at a m;
     m \<leftarrow> write_value a (v\<lparr>v_type := t\<rparr>) m;
     (q, m) \<leftarrow> build m;
     write_value a \<lparr>v_type = t, v_data = u q\<rparr> m }"

definition set_to_string :: "nat \<Rightarrow> addr \<Rightarrow> addr \<Rightarrow> 'd memory \<Rightarrow> 'd memory option" where
  "set_to_string n a p = set_block n a String_type U_string (\<lambda>m. do { s \<leftarrow> chars_at p m; Some (alloc (Chars s) m) })"

definition set_to_array :: "nat \<Rightarrow> addr \<Rightarrow> addr \<Rightarrow> 'd memory \<Rightarrow> 'd memory option" where
  "set_to_array n a p = set_block n a Array_type U_array
     (\<lambda>m. do { xs \<leftarrow> vector_at p m; (ys, m) \<leftarrow> each_new (copy_value n) xs m; Some (alloc (Vector ys) m) })"

definition set_to_object :: "nat \<Rightarrow> addr \<Rightarrow> addr \<Rightarrow> 'd memory \<Rightarrow> 'd memory option" where
  "set_to_object n a p = set_block n a Object_type U_object
     (\<lambda>m. do { kxs \<leftarrow> tree_at p m; (ys, m) \<leftarrow> each_new (copy_value n) (map snd kxs) m; Some (alloc (Tree (zip (map fst kxs) ys)) m) })"

definition set_to_string_move :: "nat \<Rightarrow> addr \<Rightarrow> addr \<Rightarrow> 'd memory \<Rightarrow> 'd memory option" where
  "set_to_string_move n a p = set_block n a String_type U_string
     (\<lambda>m. do { s \<leftarrow> chars_at p m; Some (alloc (Chars s) (write_cell p (Chars []) m)) })"

definition set_to_array_move :: "nat \<Rightarrow> addr \<Rightarrow> addr \<Rightarrow> 'd memory \<Rightarrow> 'd memory option" where
  "set_to_array_move n a p = set_block n a Array_type U_array
     (\<lambda>m. do { xs \<leftarrow> vector_at p m; Some (alloc (Vector xs) (write_cell p (Vector []) m)) })"

definition set_to_object_move :: "nat \<Rightarrow> addr \<Rightarrow> addr \<Rightarrow> 'd memory \<Rightarrow> 'd memory option" where
  "set_to_object_move n a p = set_block n a Object_type U_object
     (\<lambda>m. do { kxs \<leftarrow> tree_at p m; Some (alloc (Tree kxs) (write_cell p (Tree []) m)) })"

section \<open>References to elements\<close>

text \<open>Where the element is absent, the reference is to a static object of the function, \<^verbatim>\<open>s_null\<close>.\<close>

definition index_ref :: "addr \<Rightarrow> addr \<Rightarrow> nat \<Rightarrow> 'd memory \<Rightarrow> addr result option" where
  "index_ref s_null a idx m = do {
     v \<leftarrow> value_at a m;
     if v_type v = Array_type
     then do { p \<leftarrow> array_ptr (v_data v); xs \<leftarrow> vector_at p m; Some (Inr (if idx < length xs then xs ! idx else s_null)) }
     else Some (Inl (Std_exception ''is<array>()'')) }"

definition key_ref :: "addr \<Rightarrow> addr \<Rightarrow> string \<Rightarrow> 'd memory \<Rightarrow> addr result option" where
  "key_ref s_null a k m = do {
     v \<leftarrow> value_at a m;
     if v_type v = Object_type
     then do { p \<leftarrow> object_ptr (v_data v); kxs \<leftarrow> tree_at p m;
               Some (Inr (case map_of kxs k of Some b \<Rightarrow> b | None \<Rightarrow> s_null)) }
     else Some (Inl (Std_exception ''is<object>()'')) }"

section \<open>What a value owns\<close>

text \<open>\<open>owns h a v F\<close>: in the memory \<open>h\<close> the object at \<open>a\<close> represents \<open>v\<close>, and its memory is \<open>F\<close>, each cell of it once.\<close>

inductive owns :: "(addr \<Rightarrow> 'd cell option) \<Rightarrow> addr \<Rightarrow> 'd json \<Rightarrow> addr set \<Rightarrow> bool"
  and owns_all :: "(addr \<Rightarrow> 'd cell option) \<Rightarrow> addr list \<Rightarrow> 'd json list \<Rightarrow> addr set \<Rightarrow> bool" where
  owns_null: "h a = Some (Value \<lparr>v_type = Null_type, v_data = u\<rparr>) \<Longrightarrow> owns h a J_null {a}"
| owns_bool: "h a = Some (Value \<lparr>v_type = Boolean_type, v_data = U_boolean b\<rparr>) \<Longrightarrow> owns h a (J_bool b) {a}"
| owns_number: "h a = Some (Value \<lparr>v_type = Number_type, v_data = U_number d\<rparr>) \<Longrightarrow> owns h a (J_number d) {a}"
| owns_int: "h a = Some (Value \<lparr>v_type = Int64_type, v_data = U_int64 i\<rparr>) \<Longrightarrow> owns h a (J_int i) {a}"
| owns_string: "h a = Some (Value \<lparr>v_type = String_type, v_data = U_string p\<rparr>) \<Longrightarrow> h p = Some (Chars s)
    \<Longrightarrow> owns h a (J_string s) {a, p}"
| owns_array: "h a = Some (Value \<lparr>v_type = Array_type, v_data = U_array p\<rparr>) \<Longrightarrow> h p = Some (Vector xs)
    \<Longrightarrow> owns_all h xs vs F \<Longrightarrow> a \<notin> F \<Longrightarrow> p \<notin> F \<Longrightarrow> owns h a (J_array vs) ({a, p} \<union> F)"
| owns_object: "h a = Some (Value \<lparr>v_type = Object_type, v_data = U_object p\<rparr>) \<Longrightarrow> h p = Some (Tree kxs)
    \<Longrightarrow> owns_all h (map snd kxs) (map snd kvs) F \<Longrightarrow> map fst kxs = map fst kvs \<Longrightarrow> a \<notin> F \<Longrightarrow> p \<notin> F
    \<Longrightarrow> owns h a (J_object kvs) ({a, p} \<union> F)"
| owns_Nil: "owns_all h [] [] {}"
| owns_Cons: "owns h a v F \<Longrightarrow> owns_all h as vs G \<Longrightarrow> F \<inter> G = {} \<Longrightarrow> owns_all h (a # as) (v # vs) (F \<union> G)"

lemmas owns_containers = owns_array [unfolded insert_is_Un [symmetric] Un_insert_left Un_empty_left]
  owns_object [unfolded insert_is_Un [symmetric] Un_insert_left Un_empty_left]

inductive_cases owns_nullE: "owns h a J_null F"
inductive_cases owns_arrayE: "owns h a (J_array vs) F"
inductive_cases owns_objectE: "owns h a (J_object kvs) F"
inductive_cases owns_all_NilE: "owns_all h [] vs F"
inductive_cases owns_all_ConsE: "owns_all h (a # as) vs F"

lemma owns_allocated:
  "owns h a v F \<Longrightarrow> a \<in> F \<and> F \<subseteq> dom h"
  "owns_all h xs vs F \<Longrightarrow> F \<subseteq> dom h \<and> length xs = length vs \<and> set xs \<subseteq> F"
  by (induction rule: owns_owns_all.inducts) auto

lemma owns_frame:
  "owns h a v F \<Longrightarrow> \<forall>x\<in>F. h' x = h x \<Longrightarrow> owns h' a v F"
  "owns_all h xs vs F \<Longrightarrow> \<forall>x\<in>F. h' x = h x \<Longrightarrow> owns_all h' xs vs F"
  by (induction rule: owns_owns_all.inducts) (auto intro: owns_owns_all.intros owns_containers)

lemma owns_unique:
  "owns h a v F \<Longrightarrow> owns h a w G \<Longrightarrow> v = w \<and> F = G"
  "owns_all h xs vs F \<Longrightarrow> owns_all h xs ws G \<Longrightarrow> vs = ws \<and> F = G"
proof (induction arbitrary: w G and ws G rule: owns_owns_all.inducts)
  case (owns_object h a p kxs kvs F)
  from owns_object.prems owns_object.hyps obtain lvs H where w: "w = J_object lvs" "G = {a, p} \<union> H"
    "owns_all h (map snd kxs) (map snd lvs) H" "map fst kxs = map fst lvs"
    by (cases rule: owns.cases) auto
  then have "map snd kvs = map snd lvs" "F = H" using owns_object.IH by blast+
  moreover have "map fst kvs = map fst lvs" using w(4) owns_object.hyps by simp
  ultimately have "kvs = lvs" by (metis zip_map_fst_snd)
  then show ?case using w \<open>F = H\<close> by simp
next
  case (owns_array h a p xs vs F)
  from owns_array.prems owns_array.hyps obtain ws H where "w = J_array ws" "G = {a, p} \<union> H" "owns_all h xs ws H"
    by (cases rule: owns.cases) auto
  then show ?case using owns_array.IH by blast
next
  case (owns_Cons h a v F as vs G')
  from owns_Cons.prems show ?case
    by (cases rule: owns_all.cases) (use owns_Cons.IH in blast)
qed (erule owns.cases owns_all.cases; auto)+

text \<open>The same data in another place, as after a swap.\<close>

lemma owns_moved:
  assumes "owns h a v F" "h' b = h a" "\<forall>x\<in>F - {a}. h' x = h x" "b \<notin> F - {a}"
  shows "owns h' b v (insert b (F - {a}))"
  using assms
proof (cases rule: owns.cases)
  case (owns_array p xs vs G)
  then have p: "p \<noteq> a" by auto
  have "owns_all h' xs vs G" using owns_array assms(3) by (intro owns_frame(2) [OF owns_array(5)]) auto
  moreover have "insert b (F - {a}) = insert b (insert p G)" using owns_array p by auto
  ultimately show ?thesis using owns_array assms p by (auto intro!: owns_containers)
next
  case (owns_object p kxs kvs G)
  then have p: "p \<noteq> a" by auto
  have "owns_all h' (map snd kxs) (map snd kvs) G" using owns_object assms(3) by (intro owns_frame(2) [OF owns_object(5)]) auto
  moreover have "insert b (F - {a}) = insert b (insert p G)" using owns_object p by auto
  ultimately show ?thesis using owns_object assms p by (auto intro!: owns_containers)
next
  case (owns_string p s)
  then have p: "p \<noteq> a" by auto
  moreover have "insert b (F - {a}) = {b, p}" using owns_string p by auto
  ultimately show ?thesis using owns_string assms by (auto intro!: owns_owns_all.owns_string)
qed (auto intro: owns_owns_all.intros)

section \<open>Destruction\<close>

definition forget :: "addr set \<Rightarrow> 'd memory \<Rightarrow> 'd memory" where
  "forget F m = m\<lparr>m_cells := m_cells m |` (- F)\<rparr>"

definition agree :: "(addr \<Rightarrow> 'd cell option) \<Rightarrow> addr set \<Rightarrow> 'd memory \<Rightarrow> bool" where
  "agree h F m \<longleftrightarrow> (\<forall>x\<in>F. m_cells m x = h x)"

lemma forget_cells [simp]:
  "m_cells (forget F m) x = (if x \<in> F then None else m_cells m x)" "m_next (forget F m) = m_next m"
  by (simp_all add: forget_def restrict_map_def)

lemma forget_more [simp]: "forget F (forget G m) = forget (G \<union> F) m" "forget {} m = m"
  by (simp_all add: forget_def restrict_map_def fun_eq_iff)

lemma dom_forget [simp]: "dom (m_cells (forget F m)) = dom (m_cells m) - F"
  by (auto simp: dom_def)

lemma dealloc_forget [simp]: "m_cells m a \<noteq> None \<Longrightarrow> dealloc a m = Some (forget {a} m)"
  by (simp add: dealloc_def forget_def) (auto simp: restrict_map_def fun_eq_iff)

lemma agree_forget: "agree h F m \<Longrightarrow> G \<inter> F = {} \<Longrightarrow> agree h F (forget G m)"
  by (auto simp: agree_def)

lemma agree_subset: "agree h F m \<Longrightarrow> G \<subseteq> F \<Longrightarrow> agree h G m"
  by (auto simp: agree_def)

lemma size_map_snd: "size_list size (map snd kvs) \<le> size_list (size_prod (\<lambda>_. 0) size) (kvs :: ('a \<times> 'd json) list)"
  by (induction kvs) auto

lemmas cell_access = value_at_def chars_at_def vector_at_def tree_at_def

text \<open>What an object owns is released, each cell once, and nothing else.\<close>

lemma clear_owned:
  "owns h a v F \<Longrightarrow> agree h F m \<Longrightarrow> size v < n \<Longrightarrow> clear_value n a m = Some (forget (F - {a}) m)"
  "owns_all h xs vs F \<Longrightarrow> agree h F m \<Longrightarrow> size_list size vs \<le> n \<Longrightarrow> each (destroy n) xs m = Some (forget F m)"
proof (induction arbitrary: m n and m n rule: owns_owns_all.inducts)
  case (owns_string h a p s)
  then have "F = {a, p} \<Longrightarrow> F - {a} = {p}" for F by auto
  then show ?case using owns_string by (cases n) (auto simp: cell_access agree_def insert_Diff_if)
next
  case (owns_array h a p xs vs F)
  then have pa: "p \<noteq> a" by auto
  obtain k where n: "n = Suc k" "size_list size vs \<le> k" using owns_array.prems by (cases n) auto
  have "each (destroy k) xs m = Some (forget F m)"
    using owns_array.IH [of m k] owns_array.prems n by (auto intro: agree_subset)
  moreover have "m_cells m a = h a" "m_cells m p = h p" using owns_array.prems by (auto simp: agree_def)
  moreover have "({a, p} \<union> F) - {a} = F \<union> {p}" using pa owns_array.hyps by auto
  ultimately show ?case using owns_array.hyps n by (simp add: cell_access flip: destroy_def)
next
  case (owns_object h a p kxs kvs F)
  then have pa: "p \<noteq> a" by auto
  obtain k where n: "n = Suc k" "size_list size (map snd kvs) \<le> k"
    using owns_object.prems size_map_snd [of kvs] by (cases n) (auto simp: less_Suc_eq_le intro: order.trans)
  have "each (destroy k) (map snd kxs) m = Some (forget F m)"
    using owns_object.IH [of m k] owns_object.prems n by (auto intro: agree_subset)
  moreover have "m_cells m a = h a" "m_cells m p = h p" using owns_object.prems by (auto simp: agree_def)
  moreover have "({a, p} \<union> F) - {a} = F \<union> {p}" using pa owns_object.hyps by auto
  ultimately show ?case using owns_object.hyps n by (simp add: cell_access flip: destroy_def)
next
  case (owns_Cons h a v F as vs G)
  have "m_cells m a \<noteq> None" "a \<in> F" using owns_allocated(1) [OF owns_Cons.hyps(1)] owns_Cons.prems by (auto simp: agree_def)
  moreover have "clear_value n a m = Some (forget (F - {a}) m)"
    using owns_Cons by (intro owns_Cons.IH(1)) (auto intro: agree_subset)
  ultimately have "destroy n a m = Some (forget F m)" by (auto simp: destroy_def insert_absorb)
  moreover have "each (destroy n) as (forget F m) = Some (forget G (forget F m))"
    using owns_Cons by (intro owns_Cons.IH(2) agree_forget) (auto intro: agree_subset)
  ultimately show ?case by simp
next
  case (owns_null h a u)
  then show ?case by (cases n) (simp_all add: cell_access agree_def)
next
  case (owns_bool h a b)
  then show ?case by (cases n) (simp_all add: cell_access agree_def)
next
  case (owns_number h a d)
  then show ?case by (cases n) (simp_all add: cell_access agree_def)
next
  case (owns_int h a i)
  then show ?case by (cases n) (simp_all add: cell_access agree_def)
qed simp

lemma destroy_owned:
  assumes "owns (m_cells m) a v F" "size v < n"
  shows "destroy n a m = Some (forget F m)"
proof -
  have "clear_value n a m = Some (forget (F - {a}) m)" using assms by (intro clear_owned) (auto simp: agree_def)
  moreover have "m_cells m a \<noteq> None" "insert a F = F" using owns_allocated(1) [OF assms(1)] by auto
  ultimately show ?thesis by (auto simp: destroy_def)
qed

section \<open>Copies\<close>

definition fresh :: "'d memory \<Rightarrow> bool" where
  "fresh m \<longleftrightarrow> (\<forall>x\<ge>m_next m. m_cells m x = None)"

definition extends :: "'d memory \<Rightarrow> 'd memory \<Rightarrow> bool" where
  "extends m m' \<longleftrightarrow> m_next m \<le> m_next m' \<and> (\<forall>x<m_next m. m_cells m' x = m_cells m x) \<and> fresh m'"

definition new_between :: "'d memory \<Rightarrow> 'd memory \<Rightarrow> addr set" where
  "new_between m m' = {m_next m..<m_next m'}"

lemma extends_trans: "extends m m' \<Longrightarrow> extends m' m'' \<Longrightarrow> extends m m''"
  by (auto simp: extends_def)

lemma extends_refl: "fresh m \<Longrightarrow> extends m m"
  by (simp add: extends_def)

lemma extends_alloc: "fresh m \<Longrightarrow> alloc c m = (a, m') \<Longrightarrow> extends m m' \<and> m_cells m' a = Some c \<and> new_between m m' = {a}"
  by (auto simp: extends_def fresh_def alloc_def new_between_def)

lemma extends_block:
  assumes "fresh m" "with_block t u c m = (a, m')"
  shows "extends m m' \<and> m_cells m' a = Some (Value \<lparr>v_type = t, v_data = u (m_next m)\<rparr>) \<and> m_cells m' (m_next m) = Some c
    \<and> a = Suc (m_next m) \<and> new_between m m' = {a, m_next m}"
  using assms by (auto simp: with_block_def alloc_def extends_def fresh_def new_between_def)

lemma agree_extends:
  assumes "agree h F m" "F \<subseteq> dom h" "fresh m" "extends m m'"
  shows "agree h F m'"
proof -
  have "x < m_next m" if "x \<in> F" for x
    using assms that by (auto simp: agree_def fresh_def) (metis domD in_mono leI option.distinct(1))
  then show ?thesis using assms by (auto simp: agree_def extends_def)
qed

lemma new_between_trans:
  "extends m m' \<Longrightarrow> extends m' m'' \<Longrightarrow> new_between m m' \<union> new_between m' m'' = new_between m m'' \<and> new_between m m' \<inter> new_between m' m'' = {}"
  by (auto simp: extends_def new_between_def)

lemma owns_extends:
  "owns (m_cells m') a v (new_between m m') \<Longrightarrow> extends m' m'' \<Longrightarrow> owns (m_cells m'') a v (new_between m m')"
  "owns_all (m_cells m') xs vs (new_between m m') \<Longrightarrow> extends m' m'' \<Longrightarrow> owns_all (m_cells m'') xs vs (new_between m m')"
  by (auto intro!: owns_frame(1) [of "m_cells m'"] owns_frame(2) [of "m_cells m'"] simp: extends_def new_between_def)

definition copies :: "'d memory \<Rightarrow> 'd json \<Rightarrow> (addr \<times> 'd memory) option \<Rightarrow> bool" where
  "copies m v r \<longleftrightarrow> (\<exists>b m'. r = Some (b, m') \<and> extends m m' \<and> owns (m_cells m') b v (new_between m m'))"

lemma copies_flat:
  assumes "fresh m" "\<And>h a. h a = Some (Value c) \<Longrightarrow> owns h a v {a}"
  shows "copies m v (Some (alloc (Value c) m))"
proof -
  obtain a m' where "alloc (Value c) m = (a, m')" by fastforce
  then show ?thesis using extends_alloc [OF assms(1)] assms(2) unfolding copies_def by metis
qed

text \<open>A copy is new memory throughout, and all of the new memory is the copy's.\<close>

lemma copy_owned:
  "owns h a v F \<Longrightarrow> agree h F m \<Longrightarrow> fresh m \<Longrightarrow> size v < n \<Longrightarrow> copies m v (copy_value n a m)"
  "owns_all h xs vs F \<Longrightarrow> agree h F m \<Longrightarrow> fresh m \<Longrightarrow> size_list size vs \<le> n \<Longrightarrow>
     \<exists>ys m'. each_new (copy_value n) xs m = Some (ys, m') \<and> extends m m' \<and> owns_all (m_cells m') ys vs (new_between m m')"
proof (induction arbitrary: m n and m n rule: owns_owns_all.inducts)
  case (owns_string h a p s)
  obtain b m' where "with_block String_type U_string (Chars s) m = (b, m')" by fastforce
  then show ?case using extends_block [OF owns_string.prems(2)] owns_string
    by (cases n) (auto simp: cell_access agree_def copies_def intro!: owns_owns_all.owns_string)
next
  case (owns_array h a p xs vs F)
  obtain k where n: "n = Suc k" "size_list size vs \<le> k" using owns_array.prems by (cases n) auto
  obtain ys m1 where m1: "each_new (copy_value k) xs m = Some (ys, m1)" "extends m m1" "owns_all (m_cells m1) ys vs (new_between m m1)"
    using owns_array.IH [of m k] owns_array.prems n by (auto intro: agree_subset)
  obtain b m2 where b: "with_block Array_type U_array (Vector ys) m1 = (b, m2)" by fastforce
  have "fresh m1" using m1 by (simp add: extends_def)
  note m2 = extends_block [OF this b]
  have new: "new_between m m2 = insert b (insert (m_next m1) (new_between m m1))" "b \<notin> new_between m m1" "m_next m1 \<notin> new_between m m1"
    using m1 m2 by (auto simp: extends_def new_between_def)
  have "owns (m_cells m2) b (J_array vs) (new_between m m2)"
    using m1 m2 new owns_extends(2) [OF m1(3)] unfolding new(1) by (intro owns_containers) auto
  moreover have "m_cells m a = h a" "m_cells m p = h p" using owns_array.prems by (auto simp: agree_def)
  moreover have "extends m m2" using extends_trans [OF m1(2)] m2 by simp
  ultimately show ?case using owns_array.hyps n m1 b by (simp add: cell_access copies_def)
next
  case (owns_object h a p kxs kvs F)
  obtain k where n: "n = Suc k" "size_list size (map snd kvs) \<le> k"
    using owns_object.prems size_map_snd [of kvs] by (cases n) (auto simp: less_Suc_eq_le intro: order.trans)
  obtain ys m1 where m1: "each_new (copy_value k) (map snd kxs) m = Some (ys, m1)" "extends m m1"
      "owns_all (m_cells m1) ys (map snd kvs) (new_between m m1)"
    using owns_object.IH [of m k] owns_object.prems n by (auto intro: agree_subset)
  let ?t = "zip (map fst kxs) ys"
  have "length ys = length kxs" using owns_allocated(2) [OF m1(3)] arg_cong [OF owns_object.hyps(4), of length] by simp
  then have "map snd ?t = ys" "map fst ?t = map fst kxs" by simp_all
  then have t: "map snd ?t = ys" "map fst ?t = map fst kvs" by (simp_all only: owns_object.hyps(4))
  obtain b m2 where b: "with_block Object_type U_object (Tree ?t) m1 = (b, m2)" by fastforce
  have "fresh m1" using m1 by (simp add: extends_def)
  note m2 = extends_block [OF this b]
  have new: "new_between m m2 = insert b (insert (m_next m1) (new_between m m1))" "b \<notin> new_between m m1" "m_next m1 \<notin> new_between m m1"
    using m1 m2 by (auto simp: extends_def new_between_def)
  have "owns (m_cells m2) b (J_object kvs) (new_between m m2)"
    using m1 m2 new t owns_extends(2) [OF m1(3)] unfolding new(1) by (intro owns_containers) auto
  moreover have "m_cells m a = h a" "m_cells m p = h p" using owns_object.prems by (auto simp: agree_def)
  moreover have "extends m m2" using extends_trans [OF m1(2)] m2 by simp
  ultimately show ?case using owns_object.hyps n m1 b by (simp add: cell_access copies_def)
next
  case (owns_Cons h a v F as vs G)
  have F: "F \<subseteq> dom h" "G \<subseteq> dom h" using owns_allocated owns_Cons.hyps by blast+
  have "copies m v (copy_value n a m)" using owns_Cons by (intro owns_Cons.IH(1)) (auto intro: agree_subset)
  then obtain b m1 where m1: "copy_value n a m = Some (b, m1)" "extends m m1" "owns (m_cells m1) b v (new_between m m1)"
    by (auto simp: copies_def)
  have "agree h G m1" using owns_Cons.prems F m1 by (auto intro: agree_extends agree_subset)
  then obtain bs m2 where m2: "each_new (copy_value n) as m1 = Some (bs, m2)" "extends m1 m2" "owns_all (m_cells m2) bs vs (new_between m1 m2)"
    using owns_Cons.IH(2) [of m1 n] owns_Cons.prems m1(2) by (auto simp: extends_def)
  have "owns_all (m_cells m2) (b # bs) (v # vs) (new_between m m1 \<union> new_between m1 m2)"
    using owns_extends(1) [OF m1(3) m2(2)] m2 new_between_trans [OF m1(2) m2(2)] by (intro owns_owns_all.owns_Cons) simp_all
  then show ?case using m1 m2 new_between_trans [OF m1(2) m2(2)] extends_trans [OF m1(2) m2(2)] by simp
next
  case (owns_null h a u)
  then show ?case by (cases n) (auto simp: cell_access agree_def intro!: copies_flat owns_owns_all.intros)
next
  case (owns_bool h a b)
  then show ?case by (cases n) (auto simp: cell_access agree_def intro!: copies_flat owns_owns_all.intros)
next
  case (owns_number h a d)
  then show ?case by (cases n) (auto simp: cell_access agree_def intro!: copies_flat owns_owns_all.intros)
next
  case (owns_int h a i)
  then show ?case by (cases n) (auto simp: cell_access agree_def intro!: copies_flat owns_owns_all.intros)
next
  case (owns_Nil h)
  then show ?case by (auto simp: new_between_def intro: extends_refl owns_owns_all.owns_Nil)
qed

section \<open>Swapping and assigning\<close>

lemma owned_value: "owns h a v F \<Longrightarrow> \<exists>c. h a = Some (Value c)"
  by (cases rule: owns.cases) auto

lemma swap_values_eq:
  assumes "m_cells m x = Some (Value v)" "m_cells m y = Some (Value w)"
  shows "swap_values x y m = Some (m\<lparr>m_cells := (m_cells m)(x \<mapsto> Value w, y \<mapsto> Value v)\<rparr>)"
  using assms by (auto simp: swap_values_def write_value_def write_cell_def cell_access)

text \<open>Two objects that own different memory exchange what they represent.\<close>

lemma swap_owned:
  assumes "owns (m_cells m) x v F" "owns (m_cells m) y w G" "F \<inter> G = {}"
  obtains m' where "swap_values x y m = Some m'" "owns (m_cells m') x w (insert x (G - {y}))" "owns (m_cells m') y v (insert y (F - {x}))"
    "m_next m' = m_next m" "\<forall>a. a \<noteq> x \<longrightarrow> a \<noteq> y \<longrightarrow> m_cells m' a = m_cells m a"
proof -
  obtain c d where cd: "m_cells m x = Some (Value c)" "m_cells m y = Some (Value d)" using owned_value assms by metis
  have xy: "x \<noteq> y" "x \<in> F" "y \<in> G" using owns_allocated(1) assms by blast+
  let ?m = "m\<lparr>m_cells := (m_cells m)(x \<mapsto> Value d, y \<mapsto> Value c)\<rparr>"
  have "\<forall>a. a \<noteq> x \<longrightarrow> a \<noteq> y \<longrightarrow> m_cells ?m a = m_cells m a" by simp
  moreover have "owns (m_cells ?m) x w (insert x (G - {y}))" by (rule owns_moved [OF assms(2)]) (use cd xy assms(3) in auto)
  moreover have "owns (m_cells ?m) y v (insert y (F - {x}))" by (rule owns_moved [OF assms(1)]) (use cd xy assms(3) in auto)
  ultimately show ?thesis using that swap_values_eq [OF cd] by simp
qed

lemma fresh_owned: "fresh m \<Longrightarrow> owns (m_cells m) a v F \<Longrightarrow> x \<in> F \<Longrightarrow> x < m_next m"
  using owns_allocated(1) [of "m_cells m" a v F] by (auto simp: fresh_def) (metis domD in_mono leI option.distinct(1))

text \<open>The memory after an assignment to \<open>y\<close>, which owned \<open>F\<close> and now owns \<open>G\<close>.\<close>

definition replaced :: "addr \<Rightarrow> 'd json \<Rightarrow> addr set \<Rightarrow> addr set \<Rightarrow> 'd memory \<Rightarrow> 'd memory \<Rightarrow> bool" where
  "replaced y w F G m m' \<longleftrightarrow> owns (m_cells m') y w G \<and> dom (m_cells m') = dom (m_cells m) - F \<union> G
     \<and> (\<forall>a. a \<notin> F \<union> G \<longrightarrow> m_cells m' a = m_cells m a) \<and> G \<inter> dom (m_cells m) \<subseteq> F \<and> fresh m'"

lemma assign_other:
  assumes m: "fresh m" and y: "owns (m_cells m) y v F" and x: "owns (m_cells m) x w H" and n: "size v < n" "size w < n" and "y \<noteq> x"
  shows "\<exists>m' G. assign_value n y x m = Some m' \<and> replaced y w F G m m'"
proof -
  have "copies m w (copy_value n x m)" using x m n by (intro copy_owned(1)) (auto simp: agree_def)
  then obtain t m1 where m1: "copy_value n x m = Some (t, m1)" "extends m m1" "owns (m_cells m1) t w (new_between m m1)"
    by (auto simp: copies_def)
  let ?N = "new_between m m1"
  have old: "\<forall>a\<in>F. a < m_next m" using fresh_owned [OF m y] by blast
  have disjoint: "F \<inter> ?N = {}" using old by (auto simp: new_between_def)
  have y1: "owns (m_cells m1) y v F" using m1(2) old by (intro owns_frame(1) [OF y]) (auto simp: extends_def)
  obtain m2 where m2: "swap_values y t m1 = Some m2" "owns (m_cells m2) y w (insert y (?N - {t}))" "owns (m_cells m2) t v (insert t (F - {y}))"
      "m_next m2 = m_next m1" "\<forall>a. a \<noteq> y \<longrightarrow> a \<noteq> t \<longrightarrow> m_cells m2 a = m_cells m1 a"
    using swap_owned [OF y1 m1(3) disjoint] by metis
  let ?O = "insert t (F - {y})" and ?G = "insert y (?N - {t})" and ?m = "forget (insert t (F - {y})) m2"
  have ty: "t \<in> ?N" "y \<in> F" using owns_allocated(1) m1(3) y by blast+
  have "destroy n t m2 = Some ?m" using destroy_owned [OF m2(3)] n by simp
  then have "assign_value n y x m = Some ?m" using \<open>y \<noteq> x\<close> m1 m2 by (simp add: assign_value_def)
  moreover have "owns (m_cells ?m) y w ?G" using ty disjoint by (intro owns_frame(1) [OF m2(2)]) auto
  moreover have cells: "\<forall>a. a \<notin> F \<union> ?N \<longrightarrow> m_cells ?m a = m_cells m a"
    using m1(2) m2(5) m ty by (auto simp: extends_def fresh_def new_between_def not_le)
  moreover have N: "?N \<inter> dom (m_cells m) = {}" using m by (auto simp: fresh_def new_between_def)
  moreover have "dom (m_cells ?m) = dom (m_cells m) - F \<union> ?G"
  proof -
    have "?G \<subseteq> dom (m_cells ?m)" using owns_allocated(1) \<open>owns (m_cells ?m) y w ?G\<close> by blast
    moreover have gone: "m_cells ?m a = None" if "a \<in> F \<union> ?N" "a \<notin> ?G" for a using that by auto
    moreover have "a \<in> dom (m_cells ?m) \<longleftrightarrow> a \<in> dom (m_cells m) - F" if "a \<notin> ?G" for a
    proof (cases "a \<in> F \<union> ?N")
      case True
      then show ?thesis using gone [OF True that] N by blast
    next
      case False
      then have "m_cells ?m a = m_cells m a" using cells by blast
      then show ?thesis using False by (simp add: dom_def)
    qed
    ultimately show ?thesis by blast
  qed
  moreover have "fresh ?m"
  proof -
    have "m_cells ?m a = None" if "a \<ge> m_next m1" for a
      using that old ty m1(2) m2(5) by (cases "a = y \<or> a = t") (auto simp: extends_def fresh_def)
    then show ?thesis using m2(4) by (simp add: fresh_def)
  qed
  moreover have "?G \<inter> dom (m_cells m) \<subseteq> F" using N ty(2) by blast
  moreover have "m_cells ?m a = m_cells m a" if "a \<notin> F \<union> ?G" for a
  proof (cases "a = t")
    case True
    then have "m_cells m a = None" using ty(1) N by blast
    then show ?thesis using True by simp
  next
    case False
    then show ?thesis using that cells by blast
  qed
  ultimately show ?thesis unfolding replaced_def by (intro exI [of _ ?m] exI [of _ ?G] conjI allI impI)
qed

lemma assignment_eq:
  assumes "fresh m" "owns (m_cells m) y v F" "owns (m_cells m) x w H" "size v < n" "size w < n"
  shows "\<exists>m' G. assign_value n y x m = Some m' \<and> replaced y w F G m m'"
proof (cases "y = x")
  case True
  then have "w = v" "H = F" using owns_unique(1) assms by blast+
  moreover have "F \<subseteq> dom (m_cells m)" using owns_allocated(1) [OF assms(2)] by simp
  ultimately have "replaced y w F F m m" using assms by (auto simp: replaced_def)
  then show ?thesis using True by (auto simp: assign_value_def)
next
  case False
  then show ?thesis using assign_other [OF assms] by blast
qed

section \<open>Elements\<close>

lemma owns_all_nth: "owns_all h xs vs F \<Longrightarrow> i < length xs \<Longrightarrow> \<exists>G\<subseteq>F. owns h (xs ! i) (vs ! i) G"
proof (induction xs arbitrary: vs F i)
  case (Cons a as)
  from Cons.prems(1) obtain v ws F1 G1 where *: "vs = v # ws" "F = F1 \<union> G1" "owns h a v F1" "owns_all h as ws G1"
    by (cases rule: owns_all.cases) auto
  show ?case
  proof (cases i)
    case 0
    then show ?thesis using * by auto
  next
    case (Suc j)
    then obtain G where "G \<subseteq> G1" "owns h (as ! j) (ws ! j) G" using Cons.IH [OF *(4), of j] Cons.prems(2) by auto
    then show ?thesis using * Suc by auto
  qed
qed simp

lemma owned_array:
  assumes "owns (m_cells m) a (J_array vs) F"
  obtains p xs G where "m_cells m a = Some (Value \<lparr>v_type = Array_type, v_data = U_array p\<rparr>)" "m_cells m p = Some (Vector xs)"
    "owns_all (m_cells m) xs vs G" "a \<notin> G" "p \<notin> G" "F = {a, p} \<union> G" "length xs = length vs"
  using assms owns_allocated(2) by (cases rule: owns.cases) blast

lemma absent_ref:
  assumes "owns (m_cells m) a (J_array vs) F" "length vs \<le> i"
  shows "index_ref s_null a i m = Some (Inr s_null)"
proof -
  obtain p xs where "m_cells m a = Some (Value \<lparr>v_type = Array_type, v_data = U_array p\<rparr>)" "m_cells m p = Some (Vector xs)"
    "length xs = length vs"
    using owned_array [OF assms(1)] by metis
  then show ?thesis using assms(2) by (simp add: index_ref_def cell_access)
qed

text \<open>A reference to an element refers to what \<open>get_index\<close> and \<open>get_key\<close> return; the null object stands for absent elements.\<close>

lemma index_ref_refines:
  assumes "owns (m_cells m) a v F" "owns (m_cells m) s_null J_null H"
  shows "\<exists>r. index_ref s_null a i m = Some r \<and>
     (case r of Inl e \<Rightarrow> get_index i v = Inl e | Inr b \<Rightarrow> \<exists>w G. get_index i v = Inr w \<and> owns (m_cells m) b w G)"
  using assms(1)
proof (cases rule: owns.cases)
  case (owns_array p xs vs G)
  then have "length xs = length vs" using owns_allocated(2) by blast
  then show ?thesis using owns_array assms(2) owns_all_nth [OF owns_array(5), of i]
    by (auto simp: index_ref_def cell_access get_index_def)
qed (auto simp: index_ref_def cell_access get_index_def)

section \<open>The other constructors and set\<close>

text \<open>\<open>typed_value\<close>, and the move constructor, which leaves a null value.\<close>

lemma new_of_type_owns:
  assumes "fresh m" "new_of_type C t m = (a, m')"
  shows "extends m m' \<and> owns (m_cells m') a (typed_value C t) (new_between m m')"
proof -
  note flat = extends_alloc [OF assms(1)] and block = extends_block [OF assms(1)]
  have arr: "owns h b (J_array []) {b, p}"
    if "h b = Some (Value \<lparr>v_type = Array_type, v_data = U_array p\<rparr>)" "h p = Some (Vector [])" for h :: "addr \<Rightarrow> 'a cell option" and b p
    using owns_array [of h b p "[]" "[]" "{}"] that by (auto intro: owns_owns_all.owns_Nil)
  have obj: "owns h b (J_object []) {b, p}"
    if "h b = Some (Value \<lparr>v_type = Object_type, v_data = U_object p\<rparr>)" "h p = Some (Tree [])" for h :: "addr \<Rightarrow> 'a cell option" and b p
    using owns_object [of h b p "[]" "[]" "{}"] that by (auto intro: owns_owns_all.owns_Nil)
  show ?thesis using assms(2)
    by (cases t)
      (auto simp: new_null_def new_bool_def new_int64_def new_string_def dest!: flat block intro!: owns_owns_all.intros(1-5) arr obj)
qed

lemma new_moved_owns:
  assumes m: "fresh m" and x: "owns (m_cells m) x v F"
  shows "\<exists>a m'. new_moved x m = Some (a, m') \<and> a = m_next m \<and> owns (m_cells m') a v (insert a (F - {x})) \<and> owns (m_cells m') x J_null {x}"
proof -
  obtain a m1 where a: "new_null m = (a, m1)" by fastforce
  then have m1: "extends m m1" "m_cells m1 a = Some (Value \<lparr>v_type = Null_type, v_data = U_none\<rparr>)" "a = m_next m"
    using extends_alloc [OF m, of _ a m1] by (auto simp: new_null_def alloc_def)
  have old: "\<forall>b\<in>F. b < m_next m" using fresh_owned [OF m x] by blast
  have "owns (m_cells m1) x v F" using m1(1) old by (intro owns_frame(1) [OF x]) (auto simp: extends_def)
  moreover have "owns (m_cells m1) a J_null {a}" using m1(2) by (rule owns_owns_all.owns_null)
  moreover have "{a} \<inter> F = {}" using old m1(3) by auto
  ultimately obtain m2 where "swap_values a x m1 = Some m2" "owns (m_cells m2) a v (insert a (F - {x}))"
      "owns (m_cells m2) x J_null (insert x ({a} - {a}))"
    using swap_owned [of m1 a J_null "{a}" x v F] by metis
  then show ?thesis using a m1(3) by (simp add: new_moved_def)
qed

text \<open>\<^verbatim>\<open>set\<close> from an array that is no part of the value copies it.\<close>

lemma set_to_array_owns:
  assumes m: "fresh m" and y: "owns (m_cells m) y v F" and p: "vector_at p m = Some xs" "owns_all (m_cells m) xs ws H"
    and apart: "p \<notin> F" "F \<inter> H = {}" and n: "size v < n" "size_list size ws \<le> n"
  shows "\<exists>m' G. set_to_array n y p m = Some m' \<and> owns (m_cells m') y (J_array ws) G"
proof -
  let ?m = "forget (F - {y}) m"
  have yF: "y \<in> F" using owns_allocated(1) [OF y] by simp
  have clear: "clear_value n y m = Some ?m" using y n by (intro clear_owned(1)) (auto simp: agree_def)
  obtain c where c: "m_cells m y = Some (Value c)" using owned_value [OF y] by blast
  define m1 where "m1 = write_cell y (Value (c\<lparr>v_type := Array_type\<rparr>)) ?m"
  have old: "y < m_next m" using fresh_owned [OF m y yF] .
  have m1: "fresh m1" "m_next m1 = m_next m" using m old by (auto simp: m1_def write_cell_def fresh_def)
  have "vector_at p m1 = Some xs" using p(1) apart(1) yF by (auto simp: m1_def write_cell_def cell_access)
  moreover have "agree (m_cells m) H m1" using apart(2) yF by (auto simp: m1_def write_cell_def agree_def)
  then obtain ys m2 where m2: "each_new (copy_value n) xs m1 = Some (ys, m2)" "extends m1 m2" "owns_all (m_cells m2) ys ws (new_between m1 m2)"
    using copy_owned(2) [OF p(2) _ m1(1) n(2)] by blast
  obtain q m3 where q: "alloc (Vector ys) m2 = (q, m3)" by fastforce
  have m3: "extends m2 m3" "m_cells m3 q = Some (Vector ys)" "q = m_next m2"
    using extends_alloc [OF _ q] m2(2) q by (auto simp: extends_def alloc_def)
  have between: "y \<notin> new_between m1 m2" "q \<notin> new_between m1 m2" "q \<noteq> y" "y < m_next m2"
    using old m1(2) m2(2) m3(3) by (auto simp: new_between_def extends_def)
  let ?r = "write_cell y (Value \<lparr>v_type = Array_type, v_data = U_array q\<rparr>) m3"
  have "owns_all (m_cells m3) ys ws (new_between m1 m2)" using owns_extends(2) [OF m2(3) m3(1)] .
  then have "owns_all (m_cells ?r) ys ws (new_between m1 m2)" by (rule owns_frame(2)) (use between in \<open>auto simp: write_cell_def\<close>)
  then have "owns (m_cells ?r) y (J_array ws) (insert y (insert q (new_between m1 m2)))"
    using between m3(2) by (intro owns_containers(1)) (auto simp: write_cell_def)
  moreover have "value_at y m3 = Some (c\<lparr>v_type := Array_type\<rparr>)"
    using m1(2) m2(2) m3(1) old between(4) by (auto simp: extends_def m1_def write_cell_def cell_access)
  then have "set_to_array n y p m = Some ?r"
    using clear c calculation(1) \<open>vector_at p m1 = Some xs\<close> m2(1) q
    by (simp add: set_to_array_def set_block_def write_value_def cell_access flip: m1_def)
  ultimately show ?thesis by blast
qed

section \<open>Properties\<close>

text \<open>
  C22. Assignment copies: afterwards the object represents the value of the other one, in memory of its own; the
  memory it owned is released and everything else is as it was. The two may be the same object, or one
  a part of the other.
\<close>

theorem assignment_copies:
  assumes "fresh m" "owns (m_cells m) y v F" "owns (m_cells m) x w H" "size v < n" "size w < n"
  shows "\<exists>m' G. assign_value n y x m = Some m' \<and> replaced y w F G m m'"
  using assms by (rule assignment_eq)

text \<open>
  A copy and its destruction leave the memory as it was: the copy shares nothing with the original, and its
  destructor releases all of it.
\<close>

theorem copy_then_destroy:
  assumes "fresh m" "owns (m_cells m) x v F" "size v < n"
  shows "\<exists>b m' G m''. copy_value n x m = Some (b, m') \<and> owns (m_cells m') b v G \<and> G \<inter> F = {}
    \<and> owns (m_cells m') x v F \<and> destroy n b m' = Some m'' \<and> m_cells m'' = m_cells m"
proof -
  have "copies m v (copy_value n x m)" using assms by (intro copy_owned(1)) (auto simp: agree_def)
  then obtain b m' where c: "copy_value n x m = Some (b, m')" "extends m m'" "owns (m_cells m') b v (new_between m m')"
    by (auto simp: copies_def)
  have old: "\<forall>a\<in>F. a < m_next m" using fresh_owned [OF assms(1,2)] by blast
  have "m_cells (forget (new_between m m') m') a = m_cells m a" for a
    using c(2) assms(1) by (cases "a < m_next m") (auto simp: extends_def fresh_def new_between_def)
  then have "m_cells (forget (new_between m m') m') = m_cells m" by blast
  moreover have "owns (m_cells m') x v F" using c(2) old by (intro owns_frame(1) [OF assms(2)]) (auto simp: extends_def)
  moreover have "new_between m m' \<inter> F = {}" using old by (auto simp: new_between_def)
  ultimately show ?thesis using c destroy_owned [OF c(3) assms(3)] by blast
qed

text \<open>
  C30. A value cannot be set from a string, array or object that belongs to it, as in
  \<^verbatim>\<open>v.set(v.get(0).get<array>())\<close>: \<^verbatim>\<open>set\<close> releases the argument before it copies it. Assigning the element
  itself is fine.
\<close>

theorem set_from_own_part:
  assumes "owns (m_cells m) y v F" "p \<in> F" "p \<noteq> y" "m_cells m p \<noteq> None" "size v < n"
  shows "(\<exists>m'. clear_value n y m = Some m' \<and> m_cells m' p = None)
    \<and> set_to_string n y p m = None \<and> set_to_array n y p m = None \<and> set_to_object n y p m = None"
proof -
  have clear: "clear_value n y m = Some (forget (F - {y}) m)"
    using assms by (intro clear_owned(1)) (auto simp: agree_def)
  moreover have "m_cells (forget (F - {y}) m) p = None" using assms(2,3) by simp
  ultimately show ?thesis using assms(3)
    by (auto simp: set_to_string_def set_to_array_def set_to_object_def set_block_def write_value_def write_cell_def cell_access
      split: option.splits Option.bind_splits)
qed

text \<open>
  C31. Moving an element of an array into the array, as in \<^verbatim>\<open>v = std::move(v.get(0))\<close>, leaks: the two are swapped, so
  the old array now belongs to its own element, and destroying \<open>v\<close> does not release it.
\<close>

theorem move_from_own_part_leaks:
  assumes "owns (m_cells m) y (J_array vs) F" "index_ref s_null y i m = Some (Inr x)" "i < length vs" "size (vs ! i) < n"
  shows "\<exists>p xs m' G m''. vector_at p m = Some xs \<and> x \<in> set xs \<and> move_value y x m = Some m' \<and> owns (m_cells m') y (vs ! i) G
    \<and> destroy n y m' = Some m'' \<and> vector_at p m'' = Some xs
    \<and> m_cells m'' x = Some (Value \<lparr>v_type = Array_type, v_data = U_array p\<rparr>)"
proof -
  obtain p xs G where a: "m_cells m y = Some (Value \<lparr>v_type = Array_type, v_data = U_array p\<rparr>)" "m_cells m p = Some (Vector xs)"
    "owns_all (m_cells m) xs vs G" "y \<notin> G" "p \<notin> G" "length xs = length vs"
    using owned_array [OF assms(1)] by metis
  have x: "x = xs ! i" using assms(2,3) a by (auto simp: index_ref_def cell_access)
  obtain H where H: "H \<subseteq> G" "owns (m_cells m) x (vs ! i) H" using owns_all_nth [OF a(3), of i] assms(3) a(6) x by auto
  obtain c where c: "m_cells m x = Some (Value c)" using owned_value H(2) by metis
  have xH: "x \<in> H" "x \<noteq> y" "p \<noteq> x" "p \<noteq> y" using owns_allocated(1) [OF H(2)] H(1) a by auto
  let ?m = "m\<lparr>m_cells := (m_cells m)(y \<mapsto> Value c, x \<mapsto> Value \<lparr>v_type = Array_type, v_data = U_array p\<rparr>)\<rparr>"
  have move: "move_value y x m = Some ?m" using swap_values_eq [OF a(1) c] by (simp add: move_value_def)
  have own: "owns (m_cells ?m) y (vs ! i) (insert y (H - {x}))"
    by (rule owns_moved [OF H(2)]) (use c xH H(1) a(4) in auto)
  have "destroy n y ?m = Some (forget (insert y (H - {x})) ?m)" using destroy_owned [OF own assms(4)] .
  moreover have "vector_at p (forget (insert y (H - {x})) ?m) = Some xs" "p \<notin> H" using a xH H(1) by (auto simp: cell_access)
  moreover have "x \<in> set xs" using x assms(3) a(6) by simp
  ultimately show ?thesis using move own a(2) xH
    by (intro exI [of _ p] exI [of _ xs] exI [of _ ?m] exI [of _ "insert y (H - {x})"] exI [of _ "forget (insert y (H - {x})) ?m"])
      (simp add: cell_access)
qed

text \<open>
  What is assigned to an absent element, \<^verbatim>\<open>v.get(7) = w\<close>, is stored in the null object that all absent elements
  share, so every other one has the value from then on.
\<close>

theorem absent_element_shared:
  assumes "fresh m" "owns (m_cells m) y (J_array vs) F" "owns (m_cells m) s_null J_null {s_null}" "s_null \<notin> F"
    "owns (m_cells m) z w H" "length vs \<le> i" "length vs \<le> j" "size w < n"
  shows "\<exists>m' G. index_ref s_null y i m = Some (Inr s_null) \<and> assign_value n s_null z m = Some m'
    \<and> index_ref s_null y j m' = Some (Inr s_null) \<and> owns (m_cells m') s_null w G"
proof -
  have "size (J_null :: 'a json) < n" using assms(8) by (cases w) simp_all
  then obtain m' G where m': "assign_value n s_null z m = Some m'" "replaced s_null w {s_null} G m m'"
    using assignment_eq [OF assms(1,3,5) _ assms(8)] by blast
  have "F \<subseteq> dom (m_cells m)" "G \<inter> dom (m_cells m) \<subseteq> {s_null}"
    using owns_allocated(1) [OF assms(2)] m'(2) by (simp_all add: replaced_def)
  then have "\<forall>a\<in>F. a \<notin> {s_null} \<union> G" using assms(4) by blast
  then have "owns (m_cells m') y (J_array vs) F" using m'(2) by (intro owns_frame(1) [OF assms(2)]) (simp add: replaced_def)
  then have "index_ref s_null y j m' = Some (Inr s_null)" by (rule absent_ref) (rule assms(7))
  moreover have "index_ref s_null y i m = Some (Inr s_null)" using assms(2,6) by (rule absent_ref)
  moreover have "owns (m_cells m') s_null w G" using m'(2) by (simp add: replaced_def)
  ultimately show ?thesis using m'(1) by blast
qed

section \<open>Witnesses\<close>

text \<open>The value \<open>[[]]\<close> at \<open>0\<close>, the null object at \<open>4\<close> and a boolean at \<open>5\<close>.\<close>

definition nested_memory :: "int memory" where
  "nested_memory =
     \<lparr>m_cells = [0 \<mapsto> Value \<lparr>v_type = Array_type, v_data = U_array 1\<rparr>, 1 \<mapsto> Vector [2],
        2 \<mapsto> Value \<lparr>v_type = Array_type, v_data = U_array 3\<rparr>, 3 \<mapsto> Vector [],
        4 \<mapsto> Value \<lparr>v_type = Null_type, v_data = U_none\<rparr>, 5 \<mapsto> Value \<lparr>v_type = Boolean_type, v_data = U_boolean True\<rparr>],
      m_next = 6\<rparr>"

lemma nested_memory_owns:
  "fresh nested_memory" "owns (m_cells nested_memory) 2 (J_array []) {2, 3}"
  "owns (m_cells nested_memory) 0 (J_array [J_array []]) {0, 1, 2, 3}"
  "owns (m_cells nested_memory) 4 J_null {4}" "owns (m_cells nested_memory) 5 (J_bool True) {5}"
proof -
  show inner: "owns (m_cells nested_memory) 2 (J_array []) {2, 3}"
    using owns_containers(1) [of "m_cells nested_memory" 2 3 "[]" "[]" "{}"]
    by (simp add: nested_memory_def owns_owns_all.intros)
  have "owns_all (m_cells nested_memory) [2] [J_array []] {2, 3}"
    using owns_Cons [OF inner owns_Nil] by simp
  then show "owns (m_cells nested_memory) 0 (J_array [J_array []]) {0, 1, 2, 3}"
    using owns_containers(1) [of "m_cells nested_memory" 0 1 "[2]" "[J_array []]" "{2, 3}"] by (simp add: nested_memory_def)
qed (auto simp: nested_memory_def fresh_def intro: owns_owns_all.intros)

lemma assignment_copies_witness:
  "\<exists>m' G. assign_value 5 0 2 nested_memory = Some m' \<and> replaced 0 (J_array []) {0, 1, 2, 3} G nested_memory m'"
  by (rule assignment_copies [OF nested_memory_owns(1,3,2)]) simp_all

lemma copy_then_destroy_witness:
  "\<exists>b m' G m''. copy_value 5 0 nested_memory = Some (b, m') \<and> owns (m_cells m') b (J_array [J_array []]) G \<and> G \<inter> {0, 1, 2, 3} = {}
    \<and> owns (m_cells m') 0 (J_array [J_array []]) {0, 1, 2, 3} \<and> destroy 5 b m' = Some m'' \<and> m_cells m'' = m_cells nested_memory"
  by (rule copy_then_destroy [OF nested_memory_owns(1,3)]) simp

lemma set_from_own_part_witness:
  "(\<exists>m'. clear_value 5 0 nested_memory = Some m' \<and> m_cells m' 3 = None)
    \<and> set_to_string 5 0 3 nested_memory = None \<and> set_to_array 5 0 3 nested_memory = None \<and> set_to_object 5 0 3 nested_memory = None"
  by (rule set_from_own_part [OF nested_memory_owns(3)]) (simp_all add: nested_memory_def)

lemma move_from_own_part_leaks_witness:
  "\<exists>p xs m' G m''. vector_at p nested_memory = Some xs \<and> 2 \<in> set xs \<and> move_value 0 2 nested_memory = Some m'
    \<and> owns (m_cells m') 0 ([J_array []] ! 0) G \<and> destroy 5 0 m' = Some m'' \<and> vector_at p m'' = Some xs
    \<and> m_cells m'' 2 = Some (Value \<lparr>v_type = Array_type, v_data = U_array p\<rparr>)"
  by (rule move_from_own_part_leaks [OF nested_memory_owns(3), where s_null = 4])
    (simp_all add: nested_memory_def index_ref_def cell_access)

lemma absent_element_shared_witness:
  "\<exists>m' G. index_ref 4 0 7 nested_memory = Some (Inr 4) \<and> assign_value 5 4 5 nested_memory = Some m'
    \<and> index_ref 4 0 9 m' = Some (Inr 4) \<and> owns (m_cells m') 4 (J_bool True) G"
  by (rule absent_element_shared [OF nested_memory_owns(1,3,4) _ nested_memory_owns(5)]) simp_all

end
