(* ===== verification/Json_Grammar.thy ===== *)
theory Json_Grammar imports Json_Roundtrip
begin

text \<open>
  What texts the parser of \<^verbatim>\<open>include/grpcbackend/picojson.h\<close> reads, and as which values: a
  grammar of JSON that is independent of the parser, with white space, escapes, code points and
  repeated keys, and the theorem that every text of the grammar is read as its value.
\<close>

section \<open>Strings\<close>

text \<open>Four hexadecimal digits.\<close>

fun hex_digits :: "nat \<Rightarrow> string \<Rightarrow> nat option" where
  "hex_digits u [] = Some u"
| "hex_digits u (c # cs) = (case hex_value c of None \<Rightarrow> None | Some d \<Rightarrow> hex_digits (16 * u + d) cs)"

definition hex4 :: "string \<Rightarrow> nat option" where
  "hex4 h = (if length h = 4 then hex_digits 0 h else None)"

definition short_escapes :: "(char \<times> char) list" where
  "short_escapes = [(CHR 0x22, CHR 0x22), (CHR 0x5C, CHR 0x5C), (CHR ''/'', CHR ''/''), (CHR ''b'', CHR 0x08),
     (CHR ''f'', CHR 0x0C), (CHR ''n'', CHR 0x0A), (CHR ''r'', CHR 0x0D), (CHR ''t'', CHR 0x09)]"

text \<open>The text between the quotes, and the bytes it stands for. A pair of surrogates is one code point.\<close>

inductive string_body :: "string \<Rightarrow> string \<Rightarrow> bool" where
  body_end: "string_body [] []"
| body_char: "CHR '' '' \<le> c \<Longrightarrow> c \<noteq> CHR 0x22 \<Longrightarrow> c \<noteq> CHR 0x5C \<Longrightarrow> string_body s b \<Longrightarrow> string_body (c # s) (c # b)"
| body_escape: "(e, c) \<in> set short_escapes \<Longrightarrow> string_body s b \<Longrightarrow> string_body (CHR 0x5C # e # s) (c # b)"
| body_unicode: "hex4 h = Some u \<Longrightarrow> u < 0xD800 \<or> 0xDFFF < u \<Longrightarrow> string_body s b \<Longrightarrow>
    string_body (CHR 0x5C # CHR ''u'' # h @ s) (utf8 u @ b)"
| body_pair: "hex4 h = Some u \<Longrightarrow> hex4 l = Some v \<Longrightarrow> 0xD800 \<le> u \<and> u < 0xDC00 \<Longrightarrow> 0xDC00 \<le> v \<and> v < 0xE000 \<Longrightarrow>
    string_body s b \<Longrightarrow>
    string_body (CHR 0x5C # CHR ''u'' # h @ CHR 0x5C # CHR ''u'' # l @ s)
      (utf8 (0x10000 + (u - 0xD800) * 0x400 + (v - 0xDC00)) @ b)"

definition quoted :: "string \<Rightarrow> string" where
  "quoted s = CHR 0x22 # s @ [CHR 0x22]"

section \<open>Values\<close>

abbreviation blank :: "string \<Rightarrow> bool" where
  "blank w \<equiv> list_all is_ws w"

text \<open>An integer that fits into 64 bits; any other number is what \<^verbatim>\<open>strtod\<close> makes of all of it.\<close>

definition integer_text :: "string \<Rightarrow> int \<Rightarrow> bool" where
  "integer_text s n \<longleftrightarrow>
     (\<exists>ds. ds \<noteq> [] \<and> list_all is_digit ds \<and> (s = ds \<and> n = digits_value ds \<or> s = CHR ''-'' # ds \<and> n = - digits_value ds)) \<and>
     - (2 ^ 63) \<le> n \<and> n < 2 ^ 63"

definition real_text :: "'d c_lib \<Rightarrow> string \<Rightarrow> 'd \<Rightarrow> bool" where
  "real_text C s d \<longleftrightarrow>
     s \<noteq> [] \<and> (is_digit (hd s) \<or> hd s = CHR ''-'') \<and> list_all number_part s \<and>
     strtoimax_whole (localise C s) = None \<and>
     cl_strtod C (localise C s) = (d, length (localise C s)) \<and> cl_finite C d"

text \<open>
  Of the members of an object with the same key the last one counts, and the object is a map:
  its entries are in the order of the keys.
\<close>

inductive json_text :: "'d c_lib \<Rightarrow> string \<Rightarrow> 'd json \<Rightarrow> bool"
  and json_items :: "'d c_lib \<Rightarrow> string \<Rightarrow> 'd json list \<Rightarrow> bool"
  and json_members :: "'d c_lib \<Rightarrow> string \<Rightarrow> (string \<times> 'd json) list \<Rightarrow> bool"
  for C :: "'d c_lib" where
  text_null: "json_text C ''null'' J_null"
| text_true: "json_text C ''true'' (J_bool True)"
| text_false: "json_text C ''false'' (J_bool False)"
| text_int: "integer_text s n \<Longrightarrow> json_text C s (J_int (word_of_int n))"
| text_real: "real_text C s d \<Longrightarrow> json_text C s (J_number d)"
| text_string: "string_body s b \<Longrightarrow> json_text C (quoted s) (J_string b)"
| text_no_items: "blank w \<Longrightarrow> json_text C (CHR ''['' # w @ '']'') (J_array [])"
| text_array: "json_items C s vs \<Longrightarrow> json_text C (CHR ''['' # s @ '']'') (J_array vs)"
| text_no_members: "blank w \<Longrightarrow> json_text C (CHR ''{'' # w @ ''}'') (J_object [])"
| text_object: "json_members C s kvs \<Longrightarrow> sorted_wrt (<) (map fst obj) \<Longrightarrow> map_of obj = map_of (rev kvs) \<Longrightarrow>
    json_text C (CHR ''{'' # s @ ''}'') (J_object obj)"
| items_one: "blank w1 \<Longrightarrow> json_text C s v \<Longrightarrow> blank w2 \<Longrightarrow> json_items C (w1 @ s @ w2) [v]"
| items_more: "blank w1 \<Longrightarrow> json_text C s v \<Longrightarrow> blank w2 \<Longrightarrow> json_items C r vs \<Longrightarrow>
    json_items C (w1 @ s @ w2 @ CHR '','' # r) (v # vs)"
| members_one: "blank w1 \<Longrightarrow> string_body s k \<Longrightarrow> blank w2 \<Longrightarrow> blank w3 \<Longrightarrow> json_text C u v \<Longrightarrow> blank w4 \<Longrightarrow>
    json_members C (w1 @ quoted s @ w2 @ CHR '':'' # w3 @ u @ w4) [(k, v)]"
| members_more: "blank w1 \<Longrightarrow> string_body s k \<Longrightarrow> blank w2 \<Longrightarrow> blank w3 \<Longrightarrow> json_text C u v \<Longrightarrow> blank w4 \<Longrightarrow>
    json_members C r kvs \<Longrightarrow>
    json_members C (w1 @ quoted s @ w2 @ CHR '':'' # w3 @ u @ w4 @ CHR '','' # r) ((k, v) # kvs)"

section \<open>Reading strings\<close>

lemma hex_digits_read:
  "hex_digits u h = Some v \<Longrightarrow> rem i = h @ t \<Longrightarrow> \<exists>j. quadhex_loop (length h) u i = (Some v, j) \<and> rem j = t"
proof (induction h arbitrary: u i)
  case (Cons c h)
  obtain j where j: "getc i = (Some c, j)" "rem j = h @ t" using getc_Cons [of i c "h @ t"] Cons.prems by auto
  then show ?case using Cons.prems(1) Cons.IH [OF _ j(2)] by (auto simp: mult.commute split: option.splits)
qed simp

lemma hex4_reads:
  assumes "hex4 h = Some u" "rem i = h @ t"
  obtains j where "parse_quadhex i = (Some u, j)" "rem j = t"
  using hex_digits_read [of 0 h u i t] assms that by (auto simp: hex4_def parse_quadhex_def split: if_splits)

lemma codepoint_reads:
  assumes "hex4 h = Some u" "u < 0xD800 \<or> 0xDFFF < u" "rem i = h @ t"
  obtains j where "parse_codepoint i = (Some (utf8 u), j)" "rem j = t"
proof -
  obtain j where "parse_quadhex i = (Some u, j)" "rem j = t" by (rule hex4_reads [OF assms(1,3)])
  moreover have "\<not> (0xD800 \<le> u \<and> u \<le> 0xDFFF)" using assms(2) by linarith
  ultimately have "parse_codepoint i = (Some (utf8 u), j)" "rem j = t"
    unfolding parse_codepoint_def by (simp_all del: de_Morgan_conj)
  then show ?thesis using that by blast
qed

lemma surrogates_read:
  assumes "hex4 h = Some u" "hex4 l = Some v" "0xD800 \<le> u \<and> u < 0xDC00" "0xDC00 \<le> v \<and> v < 0xE000"
    and "rem i = h @ CHR 0x5C # CHR ''u'' # l @ t"
  obtains j where "parse_codepoint i = (Some (utf8 (0x10000 + (u - 0xD800) * 0x400 + (v - 0xDC00))), j)" "rem j = t"
proof -
  obtain i1 where 1: "parse_quadhex i = (Some u, i1)" "rem i1 = CHR 0x5C # CHR ''u'' # l @ t"
    by (rule hex4_reads [OF assms(1,5)])
  obtain i2 where 2: "getc i1 = (Some (CHR 0x5C), i2)" "rem i2 = CHR ''u'' # l @ t" using getc_Cons [OF 1(2)] by auto
  obtain i3 where 3: "getc i2 = (Some (CHR ''u''), i3)" "rem i3 = l @ t" using getc_Cons [OF 2(2)] by auto
  obtain i4 where 4: "parse_quadhex i3 = (Some v, i4)" "rem i4 = t" by (rule hex4_reads [OF assms(2) 3(2)])
  have "v - 0xDC00 < 0x400" using assms(4) by arith
  then have "(u - 0xD800) * 2 ^ 10 + (v - 0xDC00) mod 0x400 + 0x10000 = 0x10000 + (u - 0xD800) * 0x400 + (v - 0xDC00)"
    by simp
  then have "parse_codepoint i = (Some (utf8 (0x10000 + (u - 0xD800) * 0x400 + (v - 0xDC00))), i4)"
    using 1(1) 2(1) 3(1) 4(1) assms(3,4) by (simp add: parse_codepoint_def)
  then show ?thesis using that 4(2) by blast
qed

lemma short_escape:
  assumes "(e, c) \<in> set short_escapes"
  shows "e \<noteq> CHR ''u''" "unescape e = Some c"
proof -
  have "\<forall>(e, c) \<in> set short_escapes. e \<noteq> CHR ''u'' \<and> unescape e = Some c" by code_simp
  then show "e \<noteq> CHR ''u''" "unescape e = Some c" using assms by auto
qed

lemma string_body_reads:
  "string_body s b \<Longrightarrow> rem i = s @ CHR 0x22 # t \<Longrightarrow> \<exists>j. parse_string out i = (Some (out @ b), j) \<and> rem j = t"
proof (induction arbitrary: i out rule: string_body.induct)
  case body_end
  then obtain j where "getc i = (Some (CHR 0x22), j)" "rem j = t" using getc_Cons [of i "CHR 0x22" t] by auto
  moreover have "\<not> CHR 0x22 < CHR '' ''" by code_simp
  ultimately show ?case by (simp add: parse_string.simps [of out i])
next
  case (body_char c s b)
  then obtain j where "getc i = (Some c, j)" "rem j = s @ CHR 0x22 # t"
    using getc_Cons [of i c "s @ CHR 0x22 # t"] by auto
  then show ?case using body_char(1-3) body_char.IH [of j "out @ [c]"]
    by (simp add: parse_string.simps [of out i] not_less)
next
  case (body_escape e c s b)
  obtain j where j: "getc i = (Some (CHR 0x5C), j)" "rem j = e # s @ CHR 0x22 # t"
    using getc_Cons [of i "CHR 0x5C" "e # s @ CHR 0x22 # t"] body_escape.prems by auto
  obtain k where k: "getc j = (Some e, k)" "rem k = s @ CHR 0x22 # t" using getc_Cons [OF j(2)] by auto
  have "\<not> CHR 0x5C < CHR '' ''" by code_simp
  then show ?case using j k short_escape [OF body_escape(1)] body_escape.IH [of k "out @ [c]"]
    by (simp add: parse_string.simps [of out i])
next
  case (body_unicode h u s b)
  let ?r = "h @ s @ CHR 0x22 # t"
  obtain j where j: "getc i = (Some (CHR 0x5C), j)" "rem j = CHR ''u'' # ?r"
    using getc_Cons [of i "CHR 0x5C" "CHR ''u'' # ?r"] body_unicode.prems by auto
  obtain k where k: "getc j = (Some (CHR ''u''), k)" "rem k = ?r" using getc_Cons [OF j(2)] by auto
  obtain l where l: "parse_codepoint k = (Some (utf8 u), l)" "rem l = s @ CHR 0x22 # t"
    by (rule codepoint_reads [OF body_unicode(1,2) k(2)])
  have "\<not> CHR 0x5C < CHR '' ''" by code_simp
  then show ?case using j k l body_unicode.IH [of l "out @ utf8 u"] by (simp add: parse_string.simps [of out i])
next
  case (body_pair h u l v s b)
  let ?r = "h @ CHR 0x5C # CHR ''u'' # l @ s @ CHR 0x22 # t"
  let ?w = "utf8 (0x10000 + (u - 0xD800) * 0x400 + (v - 0xDC00))"
  obtain j where j: "getc i = (Some (CHR 0x5C), j)" "rem j = CHR ''u'' # ?r"
    using getc_Cons [of i "CHR 0x5C" "CHR ''u'' # ?r"] body_pair.prems by auto
  obtain k where k: "getc j = (Some (CHR ''u''), k)" "rem k = ?r" using getc_Cons [OF j(2)] by auto
  obtain q where q: "parse_codepoint k = (Some ?w, q)" "rem q = s @ CHR 0x22 # t"
    by (rule surrogates_read [OF body_pair(1-4) k(2)])
  have "\<not> CHR 0x5C < CHR '' ''" by code_simp
  then show ?case using j k q body_pair.IH [of q "out @ ?w"] by (simp add: parse_string.simps [of out i])
qed

lemma key_reads:
  assumes "lead i = quoted s @ w @ CHR '':'' # u" "string_body s k" "blank w"
  obtains i1 i2 i3 where "expect (CHR 0x22) i = (True, i1)" "parse_string [] i1 = (Some k, i2)"
    "expect (CHR '':'') i2 = (True, i3)" "rem i3 = u"
proof -
  obtain i1 where 1: "expect (CHR 0x22) i = (True, i1)" "rem i1 = s @ CHR 0x22 # w @ CHR '':'' # u"
    using expect_yes [of i "CHR 0x22"] assms(1) by (auto simp: quoted_def)
  obtain i2 where 2: "parse_string [] i1 = (Some k, i2)" "rem i2 = w @ CHR '':'' # u"
    using string_body_reads [OF assms(2) 1(2), of "[]"] by auto
  have "lead i2 = CHR '':'' # u" using 2 assms(3) punctuation by (simp add: lead_def dropWhile_ws)
  then show ?thesis using expect_yes that 1 2 by blast
qed

section \<open>Reading values\<close>

text \<open>The map a list of members makes.\<close>

definition insert_all :: "(string \<times> 'd json) list \<Rightarrow> 'd object \<Rightarrow> 'd object" where
  "insert_all kvs obj = fold (\<lambda>(k, v). obj_insert k v) kvs obj"

lemma insert_all_simps [simp]:
  "insert_all [] obj = obj" "insert_all ((k, v) # kvs) obj = insert_all kvs (obj_insert k v obj)"
  by (simp_all add: insert_all_def)

lemma insert_all_sorted: "sorted_wrt (<) (map fst obj) \<Longrightarrow> sorted_wrt (<) (map fst (insert_all kvs obj))"
  by (induction kvs arbitrary: obj) (auto simp: obj_insert_sorted)

lemma map_of_obj_insert: "sorted_wrt (<) (map fst obj) \<Longrightarrow> map_of (obj_insert k v obj) = (map_of obj)(k \<mapsto> v)"
proof (induction k v obj rule: obj_insert.induct)
  case (2 k v l u kvs)
  then have "k \<le> l \<Longrightarrow> k \<notin> fst ` set kvs" by (auto dest!: bspec)
  then show ?case using 2 by (auto simp: fun_eq_iff)
qed simp

lemma map_of_insert_all:
  "sorted_wrt (<) (map fst obj) \<Longrightarrow> map_of (insert_all kvs obj) = map_of obj ++ map_of (rev kvs)"
proof (induction kvs arbitrary: obj)
  case (Cons kv kvs)
  obtain k v where kv: "kv = (k, v)" by (cases kv)
  have "map_of (insert_all kvs (obj_insert k v obj)) = map_of (obj_insert k v obj) ++ map_of (rev kvs)"
    using Cons by (simp add: obj_insert_sorted)
  then show ?case using Cons.prems kv by (simp add: map_of_obj_insert)
qed simp

lemma sorted_map_unique:
  fixes xs ys :: "(string \<times> 'a) list"
  assumes "sorted_wrt (<) (map fst xs)" "sorted_wrt (<) (map fst ys)" "map_of xs = map_of ys"
  shows "xs = ys"
proof -
  have d: "distinct (map fst xs)" "distinct (map fst ys)"
    using assms(1,2) by (simp_all add: strict_sorted_iff)
  then have set: "set xs = set ys" using assms(3) by (simp add: map_of_inject_set)
  have "inj_on fst (set xs \<union> set ys)" using d(1) set by (simp add: distinct_map)
  then show ?thesis
    using assms(1,2) d set by (intro map_sorted_distinct_set_unique) (simp_all add: strict_sorted_iff)
qed

lemma object_entries:
  assumes "sorted_wrt (<) (map fst obj)" "map_of obj = map_of (rev kvs)"
  shows "insert_all kvs [] = obj"
  by (rule sorted_map_unique) (simp_all add: assms insert_all_sorted map_of_insert_all)

lemma integer_text_parts:
  assumes "integer_text s n"
  shows "s \<noteq> []" "is_digit (hd s) \<or> hd s = CHR ''-''" "list_all number_part s" "localise C s = s"
    "strtoimax_whole s = Some n"
proof -
  obtain ds where ds: "ds \<noteq> []" "list_all is_digit ds"
    "s = ds \<and> n = digits_value ds \<or> s = CHR ''-'' # ds \<and> n = - digits_value ds"
    and range: "- (2 ^ 63) \<le> n" "n < 2 ^ 63"
    using assms by (auto simp: integer_text_def)
  obtain c cs where c: "ds = c # cs" "is_digit c" using ds(1,2) by (cases ds) auto
  have minus: "number_part (CHR ''-'')" by code_simp
  have digits: "list_all number_part ds" using ds(2) by (auto simp: list_all_iff number_part_def is_number_char_def)
  have dots: "localise C ds = ds" using ds(2) not_sign_digit
    by (induction ds) (auto simp: localise_def)
  have neg: "localise C (CHR ''-'' # ds) = CHR ''-'' # ds" using dots by (simp add: localise_def)
  show "s \<noteq> []" "is_digit (hd s) \<or> hd s = CHR ''-''" "list_all number_part s" "localise C s = s"
    using ds(3) c digits minus dots neg by auto
  show "strtoimax_whole s = Some n"
    using ds range c not_sign_digit [of c] by (auto simp: strtoimax_whole_def Let_def)
qed

lemma json_text_head:
  assumes "json_text C s v"
  shows "\<exists>c u. s = c # u \<and> starts_value c"
proof -
  have int: "\<exists>c u. s = c # u \<and> starts_value c" if "integer_text s n" for n
    using integer_text_parts [OF that] by (cases s) (auto simp: starts_value_def)
  have real: "\<exists>c u. s = c # u \<and> starts_value c" if "real_text C s d" for d
    using that by (cases s) (auto simp: real_text_def starts_value_def)
  show ?thesis using assms int real
    by (cases rule: json_text.cases) (auto simp: starts_value_def quoted_def)
qed

lemma dropWhile_text: "json_text C s v \<Longrightarrow> dropWhile is_ws (s @ t) = s @ t"
  using json_text_head [of C s v] starts_value_char by fastforce

lemma dropWhile_quoted: "dropWhile is_ws (quoted s @ t) = quoted s @ t"
proof -
  have "\<not> is_ws (CHR 0x22)" by code_simp
  then show ?thesis by (simp add: quoted_def)
qed

text \<open>What a value read by any call promises, for the items and members around it.\<close>

definition value_reads :: "'d c_lib \<Rightarrow> string \<Rightarrow> 'd json \<Rightarrow> bool" where
  "value_reads C s v \<longleftrightarrow>
     (\<forall>t i n. follow t \<longrightarrow> lead i = s @ t \<longrightarrow> 2 * length (lead i) + 1 \<le> n \<longrightarrow>
        (\<exists>j. parse_value C n i = P_ok v j \<and> rem j = t))"

lemma value_step:
  assumes "value_reads C s v" "lead i = s @ w @ d # r" "blank w" "d = CHR '','' \<or> d = CHR '']'' \<or> d = CHR ''}''"
    "2 * length (lead i) + 1 \<le> n"
  obtains j where "parse_value C n i = P_ok v j" "lead j = d # r"
proof -
  have "follow (w @ d # r)" using assms(3,4) punctuation by (intro follow_ws) (auto simp: follow_def)
  then obtain j where j: "parse_value C n i = P_ok v j" "rem j = w @ d # r"
    using assms(1,2,5) unfolding value_reads_def by (metis append.assoc)
  then show ?thesis using that separator_reads [OF j(2) assms(3,4)] by blast
qed

text \<open>A key and the value behind it.\<close>

lemma member_step:
  assumes "value_reads C u v" "json_text C u v" "string_body s k" "blank w2" "blank w3" "blank w4"
    and "lead i = quoted s @ w2 @ CHR '':'' # w3 @ u @ w4 @ d # r" "d = CHR '','' \<or> d = CHR ''}''"
    and "2 * length (lead i) + 1 \<le> n"
  obtains i1 i2 i3 j where "expect (CHR 0x22) i = (True, i1)" "parse_string [] i1 = (Some k, i2)"
    "expect (CHR '':'') i2 = (True, i3)" "parse_value C n i3 = P_ok v j" "lead j = d # r"
proof -
  obtain i1 i2 i3 where key: "expect (CHR 0x22) i = (True, i1)" "parse_string [] i1 = (Some k, i2)"
    "expect (CHR '':'') i2 = (True, i3)" "rem i3 = w3 @ u @ w4 @ d # r"
    by (rule key_reads [OF assms(7,3,4)])
  have lead3: "lead i3 = u @ w4 @ d # r" using key(4) assms(2,5) by (simp add: lead_ws dropWhile_text)
  obtain j where "parse_value C n i3 = P_ok v j" "lead j = d # r"
  proof (rule value_step [OF assms(1) lead3 assms(6)])
    show "2 * length (lead i3) + 1 \<le> n" using assms(7,9) unfolding lead3 by simp
  qed (use assms(8) in auto)
  then show ?thesis using that key by blast
qed

lemma container_reads:
  assumes "lead i = b # s @ e # t" "dropWhile is_ws (s @ e # t) = c # u" "c \<noteq> e"
  obtains j k where "getc (skip_ws i) = (Some b, j)" "expect e j = (False, k)" "lead k = c # u"
  using open_step [OF assms(1,2,3)] by blast

lemma empty_reads:
  assumes "lead i = b # w @ e # t" "blank w" "\<not> is_ws e"
  obtains j k where "getc (skip_ws i) = (Some b, j)" "expect e j = (True, k)" "rem k = t"
proof -
  obtain j where j: "getc (skip_ws i) = (Some b, j)" "rem j = w @ e # t" by (rule lead_reads [OF assms(1)])
  then have "lead j = e # t" using assms(2,3) by (simp add: lead_def dropWhile_ws)
  then show ?thesis using that j expect_yes by blast
qed

lemma items_head:
  "json_items C s vs \<Longrightarrow> \<exists>c u. dropWhile is_ws (s @ r) = c # u \<and> starts_value c"
  by (cases rule: json_items.cases) (auto simp: dropWhile_ws starts_value_char dest!: json_text_head)

lemma members_head: "json_members C s kvs \<Longrightarrow> \<exists>u. dropWhile is_ws (s @ r) = CHR 0x22 # u"
  by (cases rule: json_members.cases)
     (auto simp: dropWhile_ws dropWhile_quoted [unfolded quoted_def, simplified] quoted_def)

lemma word_reads:
  assumes "c = CHR ''n'' \<and> w = ''ull'' \<and> v = J_null \<or> c = CHR ''t'' \<and> w = ''rue'' \<and> v = J_bool True \<or>
      c = CHR ''f'' \<and> w = ''alse'' \<and> v = J_bool False"
  shows "value_reads C (c # w) v"
  unfolding value_reads_def
proof (intro allI impI)
  fix t i n
  assume "lead i = (c # w) @ t" "2 * length (lead i) + 1 \<le> n"
  then show "\<exists>j. parse_value C n i = P_ok v j \<and> rem j = t"
    using parse_word_value [of i c w t v C "n - 1"] assms by (cases n) simp_all
qed

lemma number_reads:
  assumes "s \<noteq> []" "is_digit (hd s) \<or> hd s = CHR ''-''" "list_all number_part s"
    and "\<And>j. finish_number C (localise C s) j = P_ok v j"
  shows "value_reads C s v"
  unfolding value_reads_def
proof (intro allI impI)
  fix t i n
  assume a: "follow t" "lead i = s @ t" "2 * length (lead i) + 1 \<le> n"
  then obtain m where "n = Suc m" by (cases n) simp_all
  then show "\<exists>j. parse_value C n i = P_ok v j \<and> rem j = t"
    using parse_number_value [OF a(2) assms(1-3) a(1), of C m] assms(4) by metis
qed

lemma quoted_reads:
  assumes "string_body s b"
  shows "value_reads C (quoted s) (J_string b)"
  unfolding value_reads_def
proof (intro allI impI)
  fix t i n
  assume i: "lead i = quoted s @ t" and "2 * length (lead i) + 1 \<le> n"
  then obtain m where m: "n = Suc m" by (cases n) simp_all
  have "lead i = CHR 0x22 # s @ CHR 0x22 # t" using i by (simp add: quoted_def)
  then obtain j where j: "getc (skip_ws i) = (Some (CHR 0x22), j)" "rem j = s @ CHR 0x22 # t"
    by (rule lead_reads)
  then show "\<exists>j. parse_value C n i = P_ok (J_string b) j \<and> rem j = t"
    using string_body_reads [OF assms j(2), of "[]"] m by auto
qed

text \<open>Brackets with items or members inside, given that these are read.\<close>

lemma array_reads:
  assumes head: "\<And>r. \<exists>c u. dropWhile is_ws (s @ r) = c # u \<and> starts_value c"
    and items: "\<And>t i n acc. lead i = dropWhile is_ws (s @ CHR '']'' # t) \<Longrightarrow> 2 * length (lead i) + 2 \<le> n \<Longrightarrow>
      \<exists>j. parse_items C n acc i = P_ok (J_array (acc @ vs)) j \<and> rem j = t"
  shows "value_reads C (CHR ''['' # s @ '']'') (J_array vs)"
  unfolding value_reads_def
proof (intro allI impI)
  fix t i n
  assume i: "lead i = (CHR ''['' # s @ '']'') @ t" and n: "2 * length (lead i) + 1 \<le> n"
  then obtain m where m: "n = Suc m" by (cases n) simp_all
  obtain c u where c: "dropWhile is_ws (s @ CHR '']'' # t) = c # u" "starts_value c" using head by blast
  have i': "lead i = CHR ''['' # s @ CHR '']'' # t" using i by simp
  obtain j k where jk: "getc (skip_ws i) = (Some (CHR ''[''), j)" "expect (CHR '']'') j = (False, k)" "lead k = c # u"
    by (rule open_step [OF i' c(1), of "CHR '']''"]) (use starts_value_char [OF c(2)] in auto)
  have "length (c # u) \<le> length (s @ CHR '']'' # t)" unfolding c(1) [symmetric] by (rule length_dropWhile_le)
  then have "\<exists>l. parse_items C m [] k = P_ok (J_array ([] @ vs)) l \<and> rem l = t"
    using n m i' jk(3) c(1) by (intro items) simp_all
  then show "\<exists>j. parse_value C n i = P_ok (J_array vs) j \<and> rem j = t" using jk m by auto
qed

lemma object_reads:
  assumes head: "\<And>r. \<exists>u. dropWhile is_ws (s @ r) = CHR 0x22 # u"
    and members: "\<And>t i n. lead i = dropWhile is_ws (s @ CHR ''}'' # t) \<Longrightarrow> 2 * length (lead i) + 2 \<le> n \<Longrightarrow>
      \<exists>j. parse_members C n [] i = P_ok (J_object obj) j \<and> rem j = t"
  shows "value_reads C (CHR ''{'' # s @ ''}'') (J_object obj)"
  unfolding value_reads_def
proof (intro allI impI)
  fix t i n
  assume i: "lead i = (CHR ''{'' # s @ ''}'') @ t" and n: "2 * length (lead i) + 1 \<le> n"
  then obtain m where m: "n = Suc m" by (cases n) simp_all
  obtain u where c: "dropWhile is_ws (s @ CHR ''}'' # t) = CHR 0x22 # u" using head by blast
  have i': "lead i = CHR ''{'' # s @ CHR ''}'' # t" using i by simp
  obtain j k where jk: "getc (skip_ws i) = (Some (CHR ''{''), j)" "expect (CHR ''}'') j = (False, k)"
    "lead k = CHR 0x22 # u"
    by (rule open_step [OF i' c, of "CHR ''}''"]) auto
  have "length (CHR 0x22 # u) \<le> length (s @ CHR ''}'' # t)" unfolding c [symmetric] by (rule length_dropWhile_le)
  then have "\<exists>l. parse_members C m [] k = P_ok (J_object obj) l \<and> rem l = t"
    using n m i' jk(3) c by (intro members) simp_all
  then show "\<exists>j. parse_value C n i = P_ok (J_object obj) j \<and> rem j = t" using jk m by auto
qed

lemma empty_value_reads:
  assumes "blank w" "b = CHR ''['' \<and> e = CHR '']'' \<and> v = J_array [] \<or> b = CHR ''{'' \<and> e = CHR ''}'' \<and> v = J_object []"
  shows "value_reads C (b # w @ [e]) v"
  unfolding value_reads_def
proof (intro allI impI)
  fix t i n
  assume i: "lead i = (b # w @ [e]) @ t" and "2 * length (lead i) + 1 \<le> n"
  then obtain m where m: "n = Suc m" by (cases n) simp_all
  have "lead i = b # w @ e # t" using i by simp
  then obtain j k where "getc (skip_ws i) = (Some b, j)" "expect e j = (True, k)" "rem k = t"
    by (rule empty_reads [OF _ assms(1)]) (use assms(2) punctuation in auto)
  then show "\<exists>j. parse_value C n i = P_ok v j \<and> rem j = t" using m assms(2) by auto
qed

text \<open>Every text of the grammar is read as its value.\<close>

lemma grammar_reads:
  "json_text C s v \<Longrightarrow> value_reads C s v"
  "json_items C s vs \<Longrightarrow> lead i = dropWhile is_ws (s @ CHR '']'' # t) \<Longrightarrow> 2 * length (lead i) + 2 \<le> n \<Longrightarrow>
     \<exists>j. parse_items C n acc i = P_ok (J_array (acc @ vs)) j \<and> rem j = t"
  "json_members C s kvs \<Longrightarrow> lead i = dropWhile is_ws (s @ CHR ''}'' # t) \<Longrightarrow> 2 * length (lead i) + 2 \<le> n \<Longrightarrow>
     \<exists>j. parse_members C n oacc i = P_ok (J_object (insert_all kvs oacc)) j \<and> rem j = t"
proof (induction arbitrary: and i t n acc and i t n oacc rule: json_text_json_items_json_members.inducts)
  case (text_int s n)
  note p = integer_text_parts(1-3,5) [OF text_int]
  have loc: "localise C s = s" by (rule integer_text_parts(4) [OF text_int])
  have "finish_number C (localise C s) j = P_ok (J_int (word_of_int n)) j" for j
    using p loc by (simp add: finish_number_def)
  then show ?case using p by (intro number_reads)
next
  case (text_real s d)
  obtain c u where "s = c # u" "is_digit c \<or> c = CHR ''-''"
    using text_real by (cases s) (auto simp: real_text_def)
  then have "localise C s \<noteq> []" using not_sign_digit by (auto simp: localise_def)
  then have "finish_number C (localise C s) j = P_ok (J_number d) j" for j
    using text_real by (simp add: real_text_def finish_number_def number_value_def)
  then show ?case using text_real by (intro number_reads) (auto simp: real_text_def)
next
  case (text_array s vs)
  show ?case by (rule array_reads) (fact items_head [OF text_array.IH(1)], fact text_array.IH(2))
next
  case (text_object s kvs obj)
  then show ?case using object_entries [of obj kvs] by (intro object_reads members_head) auto
next
  case (items_one w1 s v w2)
  obtain m where m: "n = Suc m" using items_one.prems by (cases n) auto
  have lead: "lead i = s @ w2 @ CHR '']'' # t"
    using items_one by (simp add: dropWhile_ws dropWhile_text)
  obtain j where j: "parse_value C m i = P_ok v j" "lead j = CHR '']'' # t"
    by (rule value_step [OF items_one.IH(2) lead items_one.hyps(2)]) (use items_one.prems m lead in auto)
  obtain k where k: "expect (CHR '','') j = (False, k)" "lead k = CHR '']'' # t"
    using expect_no [OF j(2), of "CHR '',''"] by auto
  show ?case using expect_yes [OF k(2)] j k m by auto
next
  case (items_more w1 s v w2 r vs)
  obtain m where m: "n = Suc m" using items_more.prems by (cases n) auto
  let ?w = "r @ CHR '']'' # t"
  have lead: "lead i = s @ w2 @ CHR '','' # ?w"
    using items_more by (simp add: dropWhile_ws dropWhile_text)
  obtain j where j: "parse_value C m i = P_ok v j" "lead j = CHR '','' # ?w"
    by (rule value_step [OF items_more.IH(2) lead items_more.hyps(2)]) (use items_more.prems m lead in auto)
  obtain k where k: "expect (CHR '','') j = (True, k)" "rem k = ?w" using expect_yes [OF j(2)] by auto
  have "\<exists>l. parse_items C m (acc @ [v]) k = P_ok (J_array ((acc @ [v]) @ vs)) l \<and> rem l = t"
    using items_more.prems m lead k length_lead [of k] by (intro items_more.IH(4)) (simp_all add: lead_def)
  then show ?case using j k m by auto
next
  case (members_one w1 s k w2 w3 u v w4)
  obtain m where m: "n = Suc m" using members_one.prems by (cases n) auto
  have lead: "lead i = quoted s @ w2 @ CHR '':'' # w3 @ u @ w4 @ CHR ''}'' # t"
    using members_one by (simp add: dropWhile_ws dropWhile_quoted)
  obtain i1 i2 i3 j where key: "expect (CHR 0x22) i = (True, i1)" "parse_string [] i1 = (Some k, i2)"
    "expect (CHR '':'') i2 = (True, i3)" "parse_value C m i3 = P_ok v j" "lead j = CHR ''}'' # t"
    by (rule member_step [OF members_one.IH(2,1) members_one.hyps(2-5) lead]) (use members_one.prems m lead in auto)
  obtain l where l: "expect (CHR '','') j = (False, l)" "lead l = CHR ''}'' # t"
    using expect_no [OF key(5), of "CHR '',''"] by auto
  show ?case using expect_yes [OF l(2)] key l m by auto
next
  case (members_more w1 s k w2 w3 u v w4 r kvs)
  obtain m where m: "n = Suc m" using members_more.prems by (cases n) auto
  let ?w = "r @ CHR ''}'' # t"
  have lead: "lead i = quoted s @ w2 @ CHR '':'' # w3 @ u @ w4 @ CHR '','' # ?w"
    using members_more by (simp add: dropWhile_ws dropWhile_quoted)
  obtain i1 i2 i3 j where key: "expect (CHR 0x22) i = (True, i1)" "parse_string [] i1 = (Some k, i2)"
    "expect (CHR '':'') i2 = (True, i3)" "parse_value C m i3 = P_ok v j" "lead j = CHR '','' # ?w"
    by (rule member_step [OF members_more.IH(2,1) members_more.hyps(2-5) lead]) (use members_more.prems m lead in auto)
  obtain l where l: "expect (CHR '','') j = (True, l)" "rem l = ?w" using expect_yes [OF key(5)] by auto
  have "\<exists>q. parse_members C m (obj_insert k v oacc) l = P_ok (J_object (insert_all kvs (obj_insert k v oacc))) q \<and> rem q = t"
    using members_more.prems m lead l length_lead [of l] by (intro members_more.IH(4)) (simp_all add: lead_def)
  then show ?case using key l m by auto
next
  case text_null
  show ?case by (rule word_reads) simp
next
  case text_true
  show ?case by (rule word_reads) simp
next
  case text_false
  show ?case by (rule word_reads) simp
next
  case (text_string s b)
  then show ?case by (rule quoted_reads)
next
  case (text_no_items w)
  then show ?case by (rule empty_value_reads) simp
next
  case (text_no_members w)
  then show ?case by (rule empty_value_reads) simp
qed

section \<open>Properties\<close>


text \<open>An object with a repeated key, white space, a negative number and an escaped character.\<close>

definition sample_text :: string where
  "sample_text = CHR ''{'' # ('' '' @ quoted ''b'' @ [] @ CHR '':'' # '' '' @ ''1'' @ [] @ CHR '','' #
     ([] @ quoted ''a'' @ [] @ CHR '':'' # []
        @ (CHR ''['' # ([] @ ''-2'' @ '' '' @ CHR '','' # ('' '' @ quoted (CHR 0x5C # CHR ''u'' # ''00e9'' @ []) @ [])) @ '']'')
        @ [] @ CHR '','' #
     ('' '' @ quoted ''b'' @ '' '' @ CHR '':'' # [] @ ''null'' @ [CHR 0x0A]))) @ ''}''"

lemma sample_text_value:
  "json_text text_lib sample_text
     (J_object [(''a'', J_array [J_int (word_of_int (-2)), J_string [CHR 0xC3, CHR 0xA9]]), (''b'', J_null)])"
proof -
  have ws: "blank []" "blank '' ''" "blank [CHR 0x0A]" by code_simp+
  have chars: "CHR '' '' \<le> c \<and> c \<noteq> CHR 0x22 \<and> c \<noteq> CHR 0x5C" if "c = CHR ''a'' \<or> c = CHR ''b''" for c
  proof -
    have "CHR '' '' \<le> CHR ''a''" "CHR '' '' \<le> CHR ''b''" by code_simp+
    then show ?thesis using that by auto
  qed
  have a: "string_body ''a'' ''a''" and b: "string_body ''b'' ''b''"
    using chars by (auto intro!: string_body.intros)
  have "hex4 ''00e9'' = Some 0xE9" "utf8 0xE9 @ [] = [CHR 0xC3, CHR 0xA9]" by code_simp+
  then have e: "string_body (CHR 0x5C # CHR ''u'' # ''00e9'' @ []) [CHR 0xC3, CHR 0xA9]"
    using body_unicode [where h = "''00e9''" and u = 233, OF _ _ body_end] by simp
  have "list_all is_digit ''1''" "list_all is_digit ''2''" "digits_value ''1'' = 1" "digits_value ''2'' = 2" by code_simp+
  then have "integer_text ''1'' 1" "integer_text ''-2'' (-2)"
    unfolding integer_text_def by (simp_all, intro exI [of _ "''2''"]) simp
  note n = this [THEN text_int, of text_lib]
  have items: "json_items text_lib ([] @ ''-2'' @ '' '' @ CHR '','' # ('' '' @ quoted (CHR 0x5C # CHR ''u'' # ''00e9'' @ []) @ []))
      [J_int (word_of_int (-2)), J_string [CHR 0xC3, CHR 0xA9]]"
    by (intro items_more items_one ws n(2) text_string e)
  show ?thesis unfolding sample_text_def
  proof (rule text_object)
    show "json_members text_lib ('' '' @ quoted ''b'' @ [] @ CHR '':'' # '' '' @ ''1'' @ [] @ CHR '','' #
       ([] @ quoted ''a'' @ [] @ CHR '':'' # []
        @ (CHR ''['' # ([] @ ''-2'' @ '' '' @ CHR '','' # ('' '' @ quoted (CHR 0x5C # CHR ''u'' # ''00e9'' @ []) @ [])) @ '']'')
        @ [] @ CHR '','' #
       ('' '' @ quoted ''b'' @ '' '' @ CHR '':'' # [] @ ''null'' @ [CHR 0x0A])))
      [(''b'', J_int (word_of_int 1)),
       (''a'', J_array [J_int (word_of_int (-2)), J_string [CHR 0xC3, CHR 0xA9]]), (''b'', J_null)]"
      by (intro members_more members_one ws a b n(1) text_array items text_null)
    show "sorted_wrt (<) (map fst [(''a'', J_array [J_int (word_of_int (-2)), J_string [CHR 0xC3, CHR 0xA9]]), (''b'', J_null)])"
      by code_simp
  qed (auto simp: fun_eq_iff)
qed


end
