(* ===== verification/Unit_Tests.thy ===== *)
theory Unit_Tests imports Http_Api Router
begin

unbundle bit_operations_syntax

text \<open>
  The repository's unit tests (\<^verbatim>\<open>src/test\<close>) as statements about the model: one definition per
  \<^verbatim>\<open>TEST\<close>, which is true when all of its assertions hold. They are evaluated by the kernel, so the model
  passes the tests the code has to pass. The connections of the tests are a stub, \<^verbatim>\<open>dummy_connection\<close>, with
  the fields of a connection and no I/O; what the tests look at is the request, the
  status and the attributes, which the model's connection has as well.
\<close>

section \<open>URITest.cpp\<close>

definition URITest_ParseSimple :: bool where
  "URITest_ParseSimple \<longleftrightarrow> (case parse_uri ''/test'' of
     Inl _ \<Rightarrow> False | Inr u \<Rightarrow> path u = ''/test'' \<and> fname u = ''test'' \<and> ext u = [])"

definition URITest_ParseNoFile :: bool where
  "URITest_ParseNoFile \<longleftrightarrow> (case parse_uri ''/test/'' of
     Inl _ \<Rightarrow> False | Inr u \<Rightarrow> path u = ''/test/'' \<and> fname u = [] \<and> ext u = [])"

definition URITest_ParseExtension :: bool where
  "URITest_ParseExtension \<longleftrightarrow> (case parse_uri ''/test.jpg'' of
     Inl _ \<Rightarrow> False | Inr u \<Rightarrow> path u = ''/test.jpg'' \<and> fname u = ''test.jpg'' \<and> ext u = ''jpg'')"

definition URITest_ParseParams :: bool where
  "URITest_ParseParams \<longleftrightarrow> (case parse_uri ''/test.jpg?p&p1=test&p2=a&p2=b'' of
     Inl _ \<Rightarrow> False
   | Inr u \<Rightarrow> path u = ''/test.jpg'' \<and> fname u = ''test.jpg'' \<and> ext u = ''jpg''
       \<and> card (get_params u ''p'') = 1 \<and> get_param hd u ''p1'' = ''test''
       \<and> card (get_params u ''p2'') = 2 \<and> ''a'' \<in> get_params u ''p2'' \<and> ''b'' \<in> get_params u ''p2'')"

definition throws_invalid :: "'a result \<Rightarrow> bool" where
  "throws_invalid r \<longleftrightarrow> (case r of Inl e \<Rightarrow> e = Invalid_uri_exception | Inr _ \<Rightarrow> False)"

definition URITest_ThrowInvalid :: bool where
  "URITest_ThrowInvalid \<longleftrightarrow> throws_invalid (parse_uri []) \<and> throws_invalid (parse_uri ''dss'')"

text \<open>The loops run over every \<^verbatim>\<open>char\<close> from \<^verbatim>\<open>INT8_MIN\<close> to below \<^verbatim>\<open>INT8_MAX\<close>, that is over all but \<open>0x7F\<close>.\<close>

definition hex_of :: "string \<Rightarrow> char \<Rightarrow> string" where
  "hex_of table i = [CHR ''%'', table ! nat (drop_bit 4 (schar i) AND 0x0f), table ! nat (schar i AND 0x0f)]"

definition URITest_URLDecode :: bool where
  "URITest_URLDecode \<longleftrightarrow>
     (\<forall>i. i = CHR 0x7F \<or> (case url_decode (hex_of ''0123456789ABCDEF'' i) of Inr (c # _) \<Rightarrow> c = i | _ \<Rightarrow> False))
     \<and> url_decode ''hello%20world'' = Inr ''hello world''"

definition URITest_URLDecodeInvalid :: bool where
  "URITest_URLDecodeInvalid \<longleftrightarrow>
     throws_invalid (url_decode ''%1'') \<and> throws_invalid (parse_uri ''%'') \<and> throws_invalid (parse_uri ''%ii'')"

definition char_between :: "char \<Rightarrow> char \<Rightarrow> char \<Rightarrow> bool" where
  "char_between a i b \<longleftrightarrow> schar i \<ge> schar a \<and> schar i \<le> schar b"

definition URITest_URLEncode :: bool where
  "URITest_URLEncode \<longleftrightarrow>
     (\<forall>i. i = CHR 0x7F \<or> url_encode [i] =
       (if char_between (CHR ''A'') i (CHR ''Z'') \<or> char_between (CHR ''a'') i (CHR ''z'') \<or> char_between (CHR ''0'') i (CHR ''9'')
          \<or> i = CHR ''-'' \<or> i = CHR ''_'' \<or> i = CHR ''.'' \<or> i = CHR ''~''
        then [i] else hex_of ''0123456789abcdef'' i))
     \<and> url_encode ''hello world'' = ''hello%20world''"

definition form_sample :: string where
  "form_sample =
     ''test=%3Ca%20id%3D%22a%22%3E%3Cb%20id%3D%22b%22%3Ehey!%3C%2Fb%3E%3C%2Fa%3E&empty1&num=10&dup=1&dup=2&empty2''"

definition quoted :: "string \<Rightarrow> string" where
  "quoted s = CHR 0x22 # s @ [CHR 0x22]"

definition URITest_FormDataParse :: bool where
  "URITest_FormDataParse \<longleftrightarrow> (case parse_formdata form_sample of
     Inl _ \<Rightarrow> False
   | Inr parsed \<Rightarrow> length parsed = 6 \<and> mm_count ''test'' parsed = 1 \<and> mm_count ''num'' parsed = 1
       \<and> mm_count ''empty1'' parsed = 1 \<and> mm_count ''empty2'' parsed = 1 \<and> mm_count ''dup'' parsed = 2
       \<and> map_of parsed ''test'' = Some (''<a id='' @ quoted ''a'' @ ''><b id='' @ quoted ''b'' @ ''>hey!</b></a>'')
       \<and> map_of parsed ''num'' = Some ''10'' \<and> map_of parsed ''empty1'' = Some [] \<and> map_of parsed ''empty2'' = Some []
       \<and> (let dup = map snd (filter (\<lambda>p. fst p = ''dup'') parsed)
          in if dup ! 0 = ''1'' then dup ! 1 = ''2'' else dup ! 0 = ''2'' \<and> dup ! 1 = ''1''))"

lemma uri_tests: "URITest_ParseSimple" "URITest_ParseNoFile" "URITest_ParseExtension" "URITest_ParseParams"
  "URITest_ThrowInvalid" "URITest_URLDecodeInvalid" "URITest_FormDataParse"
  by code_simp+

lemma url_decode_test: URITest_URLDecode
  unfolding URITest_URLDecode_def url_decode_eq by code_simp

lemma url_encode_test: URITest_URLEncode
  unfolding URITest_URLEncode_def url_encode_eq by code_simp

section \<open>RequestTest.cpp\<close>

text \<open>\<^verbatim>\<open>dummy_connection::make_get\<close> and \<^verbatim>\<open>make_post\<close>. The user's part of the state is the list of the flags that were set.\<close>

type_synonym test_world = "(unit, nat list) world"

definition dummy_request :: "string \<Rightarrow> string \<Rightarrow> bool \<Rightarrow> request" where
  "dummy_request method uri ssl =
     \<lparr>rq_method = method, rq_resource = uri, rq_protocol = ''HTTP/1.0'', rq_headers = [],
      rq_client = \<lparr>ci_remote_ip = ''127.0.0.1'', ci_remote_port = 2374, ci_local_ip = ''127.0.0.1'',
        ci_local_port = (if ssl then 443 else 80), ci_encrypted = ssl\<rparr>\<rparr>"

definition dummy :: "string \<Rightarrow> string \<Rightarrow> test_world" where
  "dummy method uri = new_connection [] (dummy_request method uri False)"

definition RequestTest_AttributeStorage :: bool where
  "RequestTest_AttributeStorage \<longleftrightarrow>
     (let t = User_t 0; attrs = w_attributes (dummy ''GET'' ''/''); attrs' = set_attribute t (Some (User_attr 0)) attrs
      in get_attribute attrs t = None \<and> \<not> has_attribute attrs t \<and> has_attribute attrs' t \<and> get_attribute attrs' t \<noteq> None)"

definition RequestTest_RequestMethod :: bool where
  "RequestTest_RequestMethod \<longleftrightarrow>
     is_get (dummy ''GET'' ''/'') \<and> \<not> is_post (dummy ''GET'' ''/'')
     \<and> \<not> is_get (dummy ''POST'' ''/'') \<and> is_post (dummy ''POST'' ''/'')
     \<and> \<not> is_get (dummy ''DELETE'' ''/'') \<and> \<not> is_post (dummy ''DELETE'' ''/'')"

definition RequestTest_ParsedUri :: bool where
  "RequestTest_ParsedUri \<longleftrightarrow> (case get_parsed_uri Http (dummy ''GET'' ''/index.html'') of
     (_, Inl _) \<Rightarrow> False | (_, Inr u) \<Rightarrow> path u = ''/index.html'')"

definition RequestTest_Headers :: bool where
  "RequestTest_Headers \<longleftrightarrow>
     (let w = (dummy ''GET'' ''/index.html'')\<lparr>w_req_headers := mm_insert ''host'' ''test.com'' []\<rparr>
      in get_header ttl_ref w ''test'' = [] \<and> \<not> has_header ttl_ref w ''test''
       \<and> get_header ttl_ref w ''host'' = ''test.com'' \<and> has_header ttl_ref w ''host''
       \<and> get_header ttl_ref w ''Host'' = ''test.com'' \<and> has_header ttl_ref w ''Host'')"

lemma request_tests: "RequestTest_AttributeStorage" "RequestTest_RequestMethod" "RequestTest_ParsedUri" "RequestTest_Headers"
  by code_simp+

section \<open>RouterTest.cpp\<close>

text \<open>
  A flag of a test is a number. Function \<open>n\<close> of a test sets the status and its flag; the function of the test of
  parameters, \<open>9\<close>, makes its assertions first. A \<^verbatim>\<open>dummy_middleware\<close> sets its flag and goes on.
\<close>

definition set_flag :: "nat \<Rightarrow> (unit, nat list) world act" where
  "set_flag n = modify (\<lambda>w. w\<lparr>w_user := n # w_user w\<rparr>)"

definition called :: "nat \<Rightarrow> test_world \<Rightarrow> bool" where
  "called n w \<longleftrightarrow> n \<in> set (w_user w)"

definition name_params_ok :: "test_world \<Rightarrow> bool" where
  "name_params_ok w = (case route_params_of w of
     None \<Rightarrow> False
   | Some ps \<Rightarrow> get_selected_route ps = Inr ''/{name}'' \<and> has_route_param ps ''name'' \<and> get_route_param ps ''name'' = ''test'')"

definition test_env :: "(unit, nat list) env" where
  "test_env =
     \<lparr>e_ttl = ttl_ref, e_date = zero_date, e_fs = (\<lambda>_. empty_fs), e_done = (\<lambda>_ _ _. skip), e_body = (\<lambda>_ _ _ _. skip),
      e_notfound = (\<lambda>n con. seq (set_status 404 []) (set_flag n)), e_error = (\<lambda>_ _ _ _. skip),
      e_handler = (\<lambda>n con. seq (set_status 200 []) (read_state (\<lambda>w. if n = 9 \<and> \<not> name_params_ok w then skip else set_flag n))),
      e_mw = (\<lambda>n con next. seq (set_flag n) (next con)), e_rewrite = (\<lambda>_ con w. (w, Inr []))\<rparr>"

definition test_case :: "routing_info result \<Rightarrow> test_world \<Rightarrow> (test_world \<Rightarrow> bool) \<Rightarrow> bool" where
  "test_case r con check = (case r of
     Inl _ \<Rightarrow> False | Inr info \<Rightarrow> (case on_request test_env info Http con of (w, f) \<Rightarrow> f = Go \<and> check w))"

definition status_is :: "int \<Rightarrow> test_world \<Rightarrow> bool" where
  "status_is n w \<longleftrightarrow> rs_status (w_resp w) = n"

definition RouterTest_NotFoundHandler :: bool where
  "RouterTest_NotFoundHandler \<longleftrightarrow> test_case (Inr (notfound (Some 20) new_router)) (dummy ''GET'' ''/'') (called 20)"

definition RouterTest_NotFound :: bool where
  "RouterTest_NotFound \<longleftrightarrow> test_case (Inr new_router) (dummy ''GET'' ''/'') (status_is 404)"

definition RouterTest_HandlerCalled :: bool where
  "RouterTest_HandlerCalled \<longleftrightarrow>
     (let r = route ttl_ref (function_route_handler 1 ''/'' ''GET'') [] new_router
      in test_case r (dummy ''GET'' ''/'') (\<lambda>w. called 1 w \<and> status_is 200 w)
       \<and> test_case r (dummy ''POST'' ''/'') (\<lambda>w. \<not> called 1 w \<and> status_is 404 w))"

definition RouterTest_RouteParams :: bool where
  "RouterTest_RouteParams \<longleftrightarrow>
     (let r = route ttl_ref (function_route_handler 9 ''/{name}'' ''GET'') [] new_router
      in test_case r (dummy ''GET'' ''/test'') (\<lambda>w. called 9 w \<and> status_is 200 w)
       \<and> test_case r (dummy ''GET'' ''/'') (\<lambda>w. \<not> called 9 w \<and> status_is 404 w))"

definition RouterTest_MiddleWare :: bool where
  "RouterTest_MiddleWare \<longleftrightarrow>
     (let r = ebind (route ttl_ref (function_route_handler 1 ''/'' ''GET'') [User_mw 11] (use (User_mw 10) Default new_router))
            (route ttl_ref (function_route_handler 2 ''/test'' ''GET'') [User_mw 12])
      in test_case r (dummy ''GET'' ''/'')
           (\<lambda>w. called 1 w \<and> \<not> called 2 w \<and> called 10 w \<and> called 11 w \<and> \<not> called 12 w \<and> status_is 200 w)
       \<and> test_case r (dummy ''GET'' ''/test'')
           (\<lambda>w. \<not> called 1 w \<and> called 2 w \<and> called 10 w \<and> \<not> called 11 w \<and> called 12 w \<and> status_is 200 w)
       \<and> test_case r (dummy ''GET'' ''/test2'')
           (\<lambda>w. \<not> called 1 w \<and> \<not> called 2 w \<and> called 10 w \<and> \<not> called 11 w \<and> \<not> called 12 w \<and> status_is 404 w))"

definition RouterTest_RouteEscapeRegexChars :: bool where
  "RouterTest_RouteEscapeRegexChars \<longleftrightarrow>
     (let r = ebind (route ttl_ref (function_route_handler 1 ''/test.jpg'' ''GET'') [] new_router) (\<lambda>info. Inr (notfound (Some 20) info))
      in test_case r (dummy ''GET'' ''/test.jpg'') (\<lambda>w. called 1 w \<and> \<not> called 20 w \<and> status_is 200 w)
       \<and> test_case r (dummy ''GET'' ''/testajpg'') (\<lambda>w. \<not> called 1 w \<and> called 20 w \<and> status_is 404 w))"

lemma router_tests1: "RouterTest_NotFoundHandler" "RouterTest_NotFound"
  by code_simp+

lemma router_tests2: "RouterTest_HandlerCalled"
  by code_simp

lemma router_tests3: "RouterTest_RouteParams"
  by code_simp

lemma router_tests4: "RouterTest_MiddleWare"
  by code_simp

lemma router_tests5: "RouterTest_RouteEscapeRegexChars"
  by code_simp

end
